(* ===== verification/Prelude.thy ===== *)
theory Prelude
  imports Main "HOL-Library.AList" "HOL-Library.Multiset" "HOL-Library.Word"
    "HOL-Library.List_Lexorder" "HOL-Library.Char_ord"
begin

text \<open>
  What every component of the development shares.

  \<^item> Machine integers: Go's \<^verbatim>\<open>uint64\<close>, \<^verbatim>\<open>uint32\<close>, \<^verbatim>\<open>int\<close> (64 bits on the supported
    platforms) and \<^verbatim>\<open>int64\<close>.
  \<^item> Go maps. A map is the list of its entries, with distinct keys; the order of the list
    is the order in which a \<^verbatim>\<open>range\<close> loop over it visits the entries. Go leaves that
    order open, so a fact about a function that ranges over a map once is stated for every
    list; a function that ranges more than once takes the order as an argument.
  \<^item> Results: a function that returns \<^verbatim>\<open>(value, error)\<close> returns a sum, \<open>Inl\<close> for the
    error; a function that may panic returns \<open>outcome\<close>.
  \<^item> The collections \<open>gomap\<close> (facts about map operations) and \<open>counting\<close> (facts about
    sums and sizes) that the components' proofs use.
\<close>

named_theorems gomap "facts about the operations on Go maps"
named_theorems counting "facts about lengths and sums of lists"

section \<open>Machine integers\<close>

type_synonym uint64 = "64 word"
type_synonym uint32 = "32 word"

text \<open>The two's complement reading of an unbounded integer in 64 bits (Go's \<^verbatim>\<open>int\<close>).\<close>

definition wrap_int :: "int \<Rightarrow> int" where
  "wrap_int n = (n + 2 ^ 63) mod 2 ^ 64 - 2 ^ 63"

lemma wrap_int_id: "- (2 ^ 63) \<le> n \<Longrightarrow> n < 2 ^ 63 \<Longrightarrow> wrap_int n = n"
  by (simp add: wrap_int_def)

lemma wrap_int_bounds: "- (2 ^ 63) \<le> wrap_int n \<and> wrap_int n < 2 ^ 63"
proof -
  have "0 \<le> (n + 2 ^ 63) mod 2 ^ 64 \<and> (n + 2 ^ 63) mod 2 ^ 64 < (2 ^ 64 :: int)"
    by simp
  then show ?thesis by (simp add: wrap_int_def)
qed

text \<open>Integer division of Go truncates towards zero.\<close>

definition trunc_div :: "int \<Rightarrow> int \<Rightarrow> int" where
  "trunc_div a b = sgn a * sgn b * (\<bar>a\<bar> div \<bar>b\<bar>)"

section \<open>Results\<close>

datatype 'a outcome = Ret 'a | Panic

fun bind_outcome :: "'a outcome \<Rightarrow> ('a \<Rightarrow> 'b outcome) \<Rightarrow> 'b outcome" where
  "bind_outcome (Ret x) f = f x"
| "bind_outcome Panic f = Panic"

lemma bind_outcome_assoc: "bind_outcome (bind_outcome r f) g = bind_outcome r (\<lambda>x. bind_outcome (f x) g)"
  by (cases r) simp_all

lemma bind_outcome_Ret_iff:
  "bind_outcome r f = Ret y \<longleftrightarrow> (\<exists>x. r = Ret x \<and> f x = Ret y)"
  by (cases r) auto

lemma bind_outcome_Panic_iff:
  "bind_outcome r f = Panic \<longleftrightarrow> r = Panic \<or> (\<exists>x. r = Ret x \<and> f x = Panic)"
  by (cases r) auto

section \<open>Go maps\<close>

type_synonym ('k, 'v) gomap = "('k \<times> 'v) list"

abbreviation gget :: "('k, 'v) gomap \<Rightarrow> 'k \<Rightarrow> 'v option" where
  "gget m k \<equiv> map_of m k"

abbreviation gput :: "'k \<Rightarrow> 'v \<Rightarrow> ('k, 'v) gomap \<Rightarrow> ('k, 'v) gomap" where
  "gput k v m \<equiv> AList.update k v m"

abbreviation gkeys :: "('k, 'v) gomap \<Rightarrow> 'k list" where
  "gkeys m \<equiv> map fst m"

definition wf_gomap :: "('k, 'v) gomap \<Rightarrow> bool" where
  "wf_gomap m \<longleftrightarrow> distinct (gkeys m)"

text \<open>Reading a key that is absent gives the zero value of the element type.\<close>

definition gget_str :: "('k, string) gomap \<Rightarrow> 'k \<Rightarrow> string" where
  "gget_str m k = (case gget m k of Some v \<Rightarrow> v | None \<Rightarrow> [])"

lemma gget_gput [gomap]: "gget (gput k v m) k' = (if k' = k then Some v else gget m k')"
  by (simp add: update_conv')

lemma wf_gomap_Nil [simp, gomap]: "wf_gomap []"
  by (simp add: wf_gomap_def)

lemma wf_gomap_Cons [gomap]: "wf_gomap ((k, v) # m) \<longleftrightarrow> k \<notin> fst ` set m \<and> wf_gomap m"
  by (simp add: wf_gomap_def)

lemma wf_gput [gomap]: "wf_gomap m \<Longrightarrow> wf_gomap (gput k v m)"
  by (simp add: wf_gomap_def distinct_update)

lemma gget_in_set: "gget m k = Some v \<Longrightarrow> (k, v) \<in> set m"
  by (rule map_of_SomeD)

lemma gget_iff_in_set: "wf_gomap m \<Longrightarrow> gget m k = Some v \<longleftrightarrow> (k, v) \<in> set m"
  by (simp add: wf_gomap_def)

lemma set_keys_gput [gomap]: "fst ` set (gput k v m) = insert k (fst ` set m)"
  by (simp add: dom_update)

lemma length_gput [gomap]:
  "length (gput k v m) = (if k \<in> fst ` set m then length m else Suc (length m))"
  by (induction m) auto

lemma gget_None_iff: "gget m k = None \<longleftrightarrow> k \<notin> fst ` set m"
  by (rule map_of_eq_None_iff)

lemma gput_mset_new: "k \<notin> fst ` set m \<Longrightarrow> gput k v m = m @ [(k, v)]"
  by (induction m) auto

lemma gput_same: "gget m k = Some v \<Longrightarrow> gput k v m = m"
  by (induction m) (auto split: if_splits)

text \<open>Two lists with the same entries are the same map.\<close>

lemma wf_gomap_perm: "mset m = mset m' \<Longrightarrow> wf_gomap m \<longleftrightarrow> wf_gomap m'"
  unfolding wf_gomap_def by (metis mset_eq_imp_distinct_iff mset_map)

lemma gget_perm:
  assumes "mset m = mset m'" and "wf_gomap m"
  shows "gget m k = gget m' k"
proof -
  have wf: "wf_gomap m'" using assms wf_gomap_perm by blast
  have "set m = set m'" using assms(1) by (metis set_mset_mset)
  then have "gget m k = Some v \<longleftrightarrow> gget m' k = Some v" for v
    using gget_iff_in_set [OF assms(2)] gget_iff_in_set [OF wf] by simp
  then show ?thesis by (metis not_None_eq)
qed

text \<open>
  The order in which a \<^verbatim>\<open>range\<close> loop visits the entries, when the same map is ranged over more
  than once: \<open>rng\<close> is any reordering (one that is not a reordering is ignored).
\<close>

definition range_order :: "('a list \<Rightarrow> 'a list) \<Rightarrow> 'a list \<Rightarrow> 'a list" where
  "range_order rng m = (if mset (rng m) = mset m then rng m else m)"

lemma mset_range_order [simp, gomap]: "mset (range_order rng m) = mset m"
  by (simp add: range_order_def)

lemma length_range_order [simp, counting]: "length (range_order rng m) = length m"
  by (metis mset_range_order size_mset)

lemma set_range_order [simp]: "set (range_order rng m) = set m"
  by (metis mset_range_order set_mset_mset)

lemma wf_range_order [simp, gomap]: "wf_gomap (range_order rng m) \<longleftrightarrow> wf_gomap m"
  by (rule wf_gomap_perm) simp

section \<open>Lists\<close>

lemma sum_list_map_append [counting]:
  "sum_list (map f (xs @ ys)) = sum_list (map f xs) + (sum_list (map f ys) :: 'a::monoid_add)"
  by simp

lemma length_concat_map [counting]:
  "length (concat (map f xs)) = sum_list (map (\<lambda>x. length (f x)) xs)"
  by (simp add: length_concat comp_def)

lemma sort_mset_eq: "mset xs = mset ys \<Longrightarrow> sort xs = (sort ys :: 'a::linorder list)"
  by (metis mset_sort properties_for_sort sorted_sort)

lemma mset_eq_of_sort: "sort xs = (sort ys :: 'a::linorder list) \<Longrightarrow> mset xs = mset ys"
  by (metis mset_sort)

lemma filter_fold_append:
  "fold (\<lambda>x acc. if P x then acc @ [f x] else acc) xs acc = acc @ map f (filter P xs)"
  by (induction xs arbitrary: acc) auto

end
