(* ===== verification/Go_Strings.thy ===== *)
theory Go_Strings
  imports Prelude
begin

text \<open>
  The functions of Go's \<^verbatim>\<open>strings\<close>, \<^verbatim>\<open>strconv\<close>, \<^verbatim>\<open>sort\<close> and \<^verbatim>\<open>regexp\<close> packages that the
  nozzle calls. A Go string is a sequence of bytes, here a list of characters (an Isabelle
  \<open>char\<close> is one byte); \<open>CHR ''a''\<close> and its kin are the ASCII bytes. \<open>to_lower\<close> and
  \<open>trim_space\<close> are the ASCII part of the Unicode functions: they are applied to host
  names only.
\<close>

section \<open>Prefixes, suffixes and substrings\<close>

definition has_prefix :: "string \<Rightarrow> string \<Rightarrow> bool" where
  "has_prefix s p \<longleftrightarrow> take (length p) s = p"

definition has_suffix :: "string \<Rightarrow> string \<Rightarrow> bool" where
  "has_suffix s p \<longleftrightarrow> length p \<le> length s \<and> drop (length s - length p) s = p"

fun contains :: "string \<Rightarrow> string \<Rightarrow> bool" where
  "contains [] sub = (sub = [])"
| "contains (c # s) sub = (has_prefix (c # s) sub \<or> contains s sub)"

definition trim_prefix :: "string \<Rightarrow> string \<Rightarrow> string" where
  "trim_prefix s p = (if has_prefix s p then drop (length p) s else s)"

lemma has_prefix_iff: "has_prefix s p \<longleftrightarrow> (\<exists>t. s = p @ t)"
  unfolding has_prefix_def by (metis append_eq_conv_conj append_take_drop_id)

lemma has_suffix_iff: "has_suffix s p \<longleftrightarrow> (\<exists>t. s = t @ p)"
proof
  assume "has_suffix s p"
  then have "s = take (length s - length p) s @ p"
    unfolding has_suffix_def by (metis append_take_drop_id)
  then show "\<exists>t. s = t @ p" ..
qed (auto simp: has_suffix_def)

lemma has_prefix_append [simp]: "has_prefix (p @ t) p"
  by (simp add: has_prefix_def)

lemma contains_iff: "contains s sub \<longleftrightarrow> (\<exists>a b. s = a @ sub @ b)"
proof (induction s)
  case (Cons c s)
  have "(\<exists>a b. c # s = a @ sub @ b) \<longleftrightarrow>
      (\<exists>b. c # s = sub @ b) \<or> (\<exists>a b. s = a @ sub @ b)" (is "?l \<longleftrightarrow> ?r")
  proof
    assume ?l
    then obtain a b where eq: "c # s = a @ sub @ b" by blast
    then show ?r by (cases a) auto
  next
    assume ?r
    then show ?l by (metis append_Cons append_Nil)
  qed
  then show ?case by (simp add: has_prefix_iff Cons.IH)
qed simp

lemma trim_prefix_append [simp]: "trim_prefix (p @ t) p = t"
  by (simp add: trim_prefix_def)

text \<open>\<^verbatim>\<open>strings.LastIndex\<close> with a one-character substring: -1 when there is none.\<close>

fun last_index_from :: "int \<Rightarrow> int \<Rightarrow> string \<Rightarrow> char \<Rightarrow> int" where
  "last_index_from i best [] c = best"
| "last_index_from i best (x # xs) c = last_index_from (i + 1) (if x = c then i else best) xs c"

definition last_index :: "string \<Rightarrow> char \<Rightarrow> int" where
  "last_index s c = last_index_from 0 (-1) s c"

lemma last_index_from_bounds:
  "best < i \<Longrightarrow> last_index_from i best s c = best \<or>
     i \<le> last_index_from i best s c \<and> last_index_from i best s c < i + int (length s)"
proof (induction s arbitrary: i best)
  case (Cons x xs)
  have "(if x = c then i else best) < i + 1" using Cons.prems by simp
  from Cons.IH [OF this] show ?case by auto
qed simp

lemma last_index_bounds: "- 1 \<le> last_index s c \<and> last_index s c < int (length s) \<or> last_index s c = -1"
  using last_index_from_bounds [of "-1" 0 s c] by (auto simp: last_index_def)

lemma last_index_lt: "last_index s c \<le> int (length s) - 1 \<or> s = []"
  using last_index_bounds [of s c] by (cases s) auto

section \<open>Splitting and joining\<close>

text \<open>\<^verbatim>\<open>strings.Split\<close> with a one-character separator.\<close>

fun split_char :: "char \<Rightarrow> string \<Rightarrow> string list" where
  "split_char c [] = [[]]"
| "split_char c (x # xs) =
     (if x = c then [] # split_char c xs
      else (case split_char c xs of [] \<Rightarrow> [[x]] | f # fs \<Rightarrow> (x # f) # fs))"

fun join :: "string \<Rightarrow> string list \<Rightarrow> string" where
  "join sep [] = []"
| "join sep [s] = s"
| "join sep (s # t # ts) = s @ sep @ join sep (t # ts)"

lemma split_char_nonempty [simp]: "split_char c s \<noteq> []"
  by (induction s) (auto split: list.splits)

lemma join_split_char: "join [c] (split_char c s) = s"
proof (induction s)
  case (Cons x xs)
  obtain f fs where "split_char c xs = f # fs" by (metis neq_Nil_conv split_char_nonempty)
  with Cons show ?case by (cases fs) auto
qed simp

lemma length_split_char: "length (split_char c s) = Suc (count_list s c)"
proof (induction s)
  case (Cons x xs)
  obtain f fs where "split_char c xs = f # fs" by (metis neq_Nil_conv split_char_nonempty)
  with Cons show ?case by auto
qed simp

lemma split_char_no_sep: "c \<notin> set s \<Longrightarrow> split_char c s = [s]"
  by (induction s) auto

lemma split_char_append: "c \<notin> set s \<Longrightarrow> split_char c (s @ c # t) = s # split_char c t"
  by (induction s) auto

lemma split_char_join:
  "ts \<noteq> [] \<Longrightarrow> \<forall>t\<in>set ts. c \<notin> set t \<Longrightarrow> split_char c (join [c] ts) = ts"
proof (induction ts)
  case (Cons t ts)
  then show ?case by (cases ts) (auto simp: split_char_no_sep split_char_append)
qed simp

section \<open>Replacing\<close>

definition replace_char :: "char \<Rightarrow> char \<Rightarrow> string \<Rightarrow> string" where
  "replace_char a b s = map (\<lambda>x. if x = a then b else x) s"

text \<open>\<^verbatim>\<open>strings.Replace(s, old, new, 1)\<close>: the leftmost occurrence.\<close>

fun replace_first :: "string \<Rightarrow> string \<Rightarrow> string \<Rightarrow> string" where
  "replace_first [] old new = (if old = [] then new else [])"
| "replace_first (c # s) old new =
     (if has_prefix (c # s) old then new @ drop (length old) (c # s)
      else c # replace_first s old new)"

lemma replace_first_prefix:
  assumes "old \<noteq> []"
  shows "replace_first (old @ t) old new = new @ t"
proof -
  obtain c s where "old = c # s" using assms by (cases old) auto
  then show ?thesis by (simp add: has_prefix_def)
qed

section \<open>Case and white space (ASCII)\<close>

definition lower_char :: "char \<Rightarrow> char" where
  "lower_char c = (let n = (of_char c :: nat) in if 65 \<le> n \<and> n \<le> 90 then char_of (n + 32) else c)"

definition to_lower :: "string \<Rightarrow> string" where
  "to_lower s = map lower_char s"

definition is_space :: "char \<Rightarrow> bool" where
  "is_space c \<longleftrightarrow> (let n = (of_char c :: nat) in n = 32 \<or> 9 \<le> n \<and> n \<le> 13)"

definition trim_space :: "string \<Rightarrow> string" where
  "trim_space s = rev (dropWhile is_space (rev (dropWhile is_space s)))"

section \<open>Numbers and booleans\<close>

fun dec_digits :: "nat \<Rightarrow> string" where
  "dec_digits n =
     (if n < 10 then [char_of (48 + n)] else dec_digits (n div 10) @ [char_of (48 + n mod 10)])"

declare dec_digits.simps [simp del]

definition itoa :: "int \<Rightarrow> string" where
  "itoa n = (if n < 0 then CHR ''-'' # dec_digits (nat (- n)) else dec_digits (nat n))"

definition format_bool :: "bool \<Rightarrow> string" where
  "format_bool b = (if b then ''true'' else ''false'')"

definition is_digit :: "char \<Rightarrow> bool" where
  "is_digit c \<longleftrightarrow> (let n = (of_char c :: nat) in 48 \<le> n \<and> n \<le> 57)"

definition digits_value :: "string \<Rightarrow> nat" where
  "digits_value s = foldl (\<lambda>acc c. 10 * acc + (of_char c - 48)) 0 s"

text \<open>\<^verbatim>\<open>strconv.Atoi\<close>: an optional sign, decimal digits only, in the range of a 64-bit int.\<close>

definition atoi :: "string \<Rightarrow> int option" where
  "atoi s =
     (let (neg, ds) = (case s of
          [] \<Rightarrow> (False, [])
        | c # cs \<Rightarrow> if c = CHR ''-'' then (True, cs)
                    else if c = CHR ''+'' then (False, cs) else (False, s))
      in if ds = [] \<or> \<not> list_all is_digit ds then None
         else let v = (if neg then - int (digits_value ds) else int (digits_value ds))
              in if - (2 ^ 63) \<le> v \<and> v < 2 ^ 63 then Some v else None)"

definition parse_bool :: "string \<Rightarrow> bool option" where
  "parse_bool s =
     (if s \<in> {''1'', ''t'', ''T'', ''true'', ''TRUE'', ''True''} then Some True
      else if s \<in> {''0'', ''f'', ''F'', ''false'', ''FALSE'', ''False''} then Some False
      else None)"

lemma is_digit_char_of [simp]: "(k::nat) < 10 \<Longrightarrow> is_digit (char_of (48 + k))"
  by (simp add: is_digit_def Let_def of_char_of take_bit_eq_mod)

lemma dec_digits_digits: "list_all is_digit (dec_digits n)"
proof (induction n rule: dec_digits.induct)
  case (1 n)
  then show ?case by (subst dec_digits.simps) simp
qed

lemma dec_digits_nonempty [simp]: "dec_digits n \<noteq> []"
  by (subst dec_digits.simps) simp

lemma digits_value_snoc:
  "digits_value (s @ [c]) = 10 * digits_value s + (of_char c - 48)"
  by (simp add: digits_value_def)

lemma digits_value_dec_digits: "digits_value (dec_digits n) = n"
proof (induction n rule: dec_digits.induct)
  case (1 n)
  show ?case
  proof (cases "n < 10")
    case True
    then show ?thesis
      by (subst dec_digits.simps) (simp add: digits_value_def of_char_of take_bit_eq_mod)
  next
    case False
    then have "dec_digits n = dec_digits (n div 10) @ [char_of (48 + n mod 10)]"
      by (subst dec_digits.simps) simp
    moreover have "digits_value (dec_digits (n div 10)) = n div 10" using 1 False by simp
    moreover have "(of_char (char_of (48 + n mod 10)) :: nat) - 48 = n mod 10"
      by (simp add: of_char_of take_bit_eq_mod)
    ultimately show ?thesis by (simp add: digits_value_snoc)
  qed
qed

lemma is_digit_not_sign: "is_digit c \<Longrightarrow> c \<noteq> CHR ''-'' \<and> c \<noteq> CHR ''+'' \<and> c \<noteq> CHR '':''"
  by (auto simp: is_digit_def)

lemma atoi_itoa:
  assumes "- (2 ^ 63) \<le> n" and "n < 2 ^ 63"
  shows "atoi (itoa n) = Some n"
proof (cases "n < 0")
  case True
  then show ?thesis
    using assms by (simp add: itoa_def atoi_def digits_value_dec_digits dec_digits_digits)
next
  case False
  obtain c cs where c: "dec_digits (nat n) = c # cs" by (metis neq_Nil_conv dec_digits_nonempty)
  then have "is_digit c" using dec_digits_digits [of "nat n"] by simp
  with False c show ?thesis
    using assms is_digit_not_sign [of c] digits_value_dec_digits [of "nat n"]
      dec_digits_digits [of "nat n"]
    by (simp add: itoa_def atoi_def)
qed

section \<open>Regular expressions of the program\<close>

text \<open>
  The processor compiles two patterns, \<^verbatim>\<open>-([0-9a-f]{20})\<close> and
  \<^verbatim>\<open>-partition-([0-9a-f]{20})\<close>, and calls \<^verbatim>\<open>ReplaceAllString(s, "")\<close>. A match is the fixed
  prefix and 20 hexadecimal digits, so it has a fixed length: the replacement scans from
  the left and drops each match it finds.
\<close>

definition is_hex :: "char \<Rightarrow> bool" where
  "is_hex c \<longleftrightarrow> is_digit c \<or> (let n = (of_char c :: nat) in 97 \<le> n \<and> n \<le> 102)"

definition uuid_match :: "string \<Rightarrow> string \<Rightarrow> bool" where
  "uuid_match pre s \<longleftrightarrow> has_prefix s pre \<and>
     (let r = drop (length pre) s in 20 \<le> length r \<and> list_all is_hex (take 20 r))"

function strip_uuids :: "string \<Rightarrow> string \<Rightarrow> string" where
  "strip_uuids pre s =
     (case s of [] \<Rightarrow> []
      | c # cs \<Rightarrow> if uuid_match pre s then strip_uuids pre (drop (length pre + 20) s)
                  else c # strip_uuids pre cs)"
  by pat_completeness auto
termination
  by (relation "measure (\<lambda>(pre, s). length s)") auto

declare strip_uuids.simps [simp del]

lemma strip_uuids_Nil [simp]: "strip_uuids pre [] = []"
  by (subst strip_uuids.simps) simp

lemma strip_uuids_match:
  "uuid_match pre (c # cs) \<Longrightarrow> strip_uuids pre (c # cs) = strip_uuids pre (drop (length pre + 20) (c # cs))"
  by (subst strip_uuids.simps) simp

lemma strip_uuids_skip:
  "\<not> uuid_match pre (c # cs) \<Longrightarrow> strip_uuids pre (c # cs) = c # strip_uuids pre cs"
  by (subst strip_uuids.simps) simp

text \<open>Nothing to strip, nothing changes; every character of the result comes from the input.\<close>

lemma strip_uuids_id:
  assumes "\<And>a b. s = a @ b \<Longrightarrow> \<not> uuid_match pre b"
  shows "strip_uuids pre s = s"
  using assms
proof (induction s)
  case (Cons c cs)
  have "\<not> uuid_match pre (c # cs)" using Cons.prems [of "[]" "c # cs"] by simp
  moreover have "strip_uuids pre cs = cs"
  proof (rule Cons.IH)
    fix a b assume "cs = a @ b"
    then show "\<not> uuid_match pre b" using Cons.prems [of "c # a" b] by simp
  qed
  ultimately show ?case by (simp add: strip_uuids_skip)
qed simp

lemma length_strip_uuids: "length (strip_uuids pre s) \<le> length s"
proof (induction pre s rule: strip_uuids.induct)
  case (1 pre s)
  show ?case
  proof (cases s)
    case (Cons c cs)
    show ?thesis
    proof (cases "uuid_match pre (c # cs)")
      case True
      from 1(1) [OF Cons] True Cons
      have "length (strip_uuids pre (drop (length pre + 20) s)) \<le> length (drop (length pre + 20) s)"
        by simp
      then show ?thesis using True Cons by (simp add: strip_uuids_match)
    next
      case False
      with 1(2) [OF Cons] Cons show ?thesis by (simp add: strip_uuids_skip)
    qed
  qed simp
qed

end
