(* ===== verification/Go_Floats.thy ===== *)
theory Go_Floats
  imports Complex_Main Go_Strings
begin

text \<open>
  Go's \<^verbatim>\<open>float64\<close>. A value is not-a-number, an infinity (the flag is the sign), or a finite
  number \<open>\<plusminus> m * 2 ^ e\<close>. The program converts integers to floats, tests for zero and for
  NaN, truncates one float back to an int and prints floats with \<^verbatim>\<open>%f\<close>; those operations
  are written out here, with the rounding IEEE 754 and \<^verbatim>\<open>strconv\<close> prescribe (to nearest,
  ties to even).
\<close>

datatype float64 = NaN | Inf bool | Fin bool nat int

fun bitlen :: "nat \<Rightarrow> nat" where
  "bitlen n = (if n = 0 then 0 else Suc (bitlen (n div 2)))"

declare bitlen.simps [simp del]

definition round_half_even :: "nat \<Rightarrow> nat \<Rightarrow> nat" where
  "round_half_even num den =
     (let q = num div den; r = num mod den
      in if 2 * r < den then q else if den < 2 * r then Suc q else if even q then q else Suc q)"

text \<open>Rounding an exact \<open>\<plusminus> m * 2 ^ e\<close> to 53 bits.\<close>

definition f64_norm :: "bool \<Rightarrow> nat \<Rightarrow> int \<Rightarrow> float64" where
  "f64_norm neg m e =
     (if m < 2 ^ 53 then Fin neg m e
      else let k = bitlen m - 53 in Fin neg (round_half_even m (2 ^ k)) (e + int k))"

text \<open>The conversion \<^verbatim>\<open>float64(n)\<close>: 53 bits of mantissa, the rest is rounded away.\<close>

definition f64_of_nat :: "bool \<Rightarrow> nat \<Rightarrow> float64" where
  "f64_of_nat neg n = f64_norm neg n 0"

definition f64_of_int :: "int \<Rightarrow> float64" where
  "f64_of_int n = f64_of_nat (n < 0) (nat \<bar>n\<bar>)"

definition f64_of_uint64 :: "uint64 \<Rightarrow> float64" where
  "f64_of_uint64 w = f64_of_nat False (unat w)"

text \<open>Product and difference.\<close>

fun f64_mul :: "float64 \<Rightarrow> float64 \<Rightarrow> float64" where
  "f64_mul (Fin a m e) (Fin b n f) = f64_norm (a \<noteq> b) (m * n) (e + f)"
| "f64_mul NaN y = NaN"
| "f64_mul x NaN = NaN"
| "f64_mul (Inf a) (Inf b) = Inf (a \<noteq> b)"
| "f64_mul (Inf a) (Fin b n f) = (if n = 0 then NaN else Inf (a \<noteq> b))"
| "f64_mul (Fin a m e) (Inf b) = (if m = 0 then NaN else Inf (a \<noteq> b))"

fun f64_sub :: "float64 \<Rightarrow> float64 \<Rightarrow> float64" where
  "f64_sub (Fin a m e) (Fin b n f) =
     (let g = min e f;
          x = (if a then -1 else 1) * int m * 2 ^ nat (e - g);
          y = (if b then -1 else 1) * int n * 2 ^ nat (f - g)
      in f64_norm (x < y) (nat \<bar>x - y\<bar>) g)"
| "f64_sub NaN y = NaN"
| "f64_sub x NaN = NaN"
| "f64_sub (Inf a) (Inf b) = (if a = b then NaN else Inf a)"
| "f64_sub (Inf a) (Fin b n f) = Inf a"
| "f64_sub (Fin a m e) (Inf b) = Inf (\<not> b)"

fun is_nan :: "float64 \<Rightarrow> bool" where
  "is_nan NaN = True"
| "is_nan _ = False"

fun is_inf :: "float64 \<Rightarrow> bool" where
  "is_inf (Inf _) = True"
| "is_inf _ = False"

fun f64_is_zero :: "float64 \<Rightarrow> bool" where
  "f64_is_zero (Fin _ m _) = (m = 0)"
| "f64_is_zero _ = False"

text \<open>
  The conversion \<^verbatim>\<open>int(f)\<close> truncates towards zero. Go leaves the result open when it does
  not fit; the amd64 instruction gives the least int, which is what is written here.
\<close>

fun trunc_int :: "float64 \<Rightarrow> int" where
  "trunc_int (Fin neg m e) =
     (let a = (if 0 \<le> e then int m * 2 ^ nat e else int m div 2 ^ nat (- e));
          v = (if neg then - a else a)
      in if - (2 ^ 63) \<le> v \<and> v < 2 ^ 63 then v else - (2 ^ 63))"
| "trunc_int _ = - (2 ^ 63)"

text \<open>\<^verbatim>\<open>%f\<close>: six decimals, rounded exactly.\<close>

definition scaled6 :: "nat \<Rightarrow> int \<Rightarrow> nat" where
  "scaled6 m e = (if 0 \<le> e then m * 10 ^ 6 * 2 ^ nat e else round_half_even (m * 10 ^ 6) (2 ^ nat (- e)))"

fun fmt_f :: "float64 \<Rightarrow> string" where
  "fmt_f NaN = ''NaN''"
| "fmt_f (Inf neg) = (if neg then ''-Inf'' else ''+Inf'')"
| "fmt_f (Fin neg m e) =
     (let n = scaled6 m e; ip = n div 10 ^ 6; fp = dec_digits (n mod 10 ^ 6)
      in (if neg then ''-'' else []) @ dec_digits ip @ ''.'' @ replicate (6 - length fp) (CHR ''0'') @ fp)"

section \<open>Rounding\<close>

text \<open>
  The real number a finite float stands for. Rounding to 53 bits has a relative error of at
  most \<open>2^-53\<close>.
\<close>

fun f64_val :: "float64 \<Rightarrow> real" where
  "f64_val (Fin neg m e) = (if neg then -1 else 1) * real m * 2 powi e"
| "f64_val _ = 0"

lemma round_half_even_error:
  assumes "0 < den"
  shows "\<bar>real (round_half_even num den) - real num / real den\<bar> \<le> 1 / 2"
proof -
  define q r where "q = num div den" and "r = num mod den"
  have "num = q * den + r" by (simp add: q_def r_def)
  then have "real num = real q * real den + real r" by (metis of_nat_add of_nat_mult)
  then have eq: "real num / real den = real q + real r / real den" using assms by (simp add: field_simps)
  have r: "r < den" using assms by (simp add: r_def)
  have "round_half_even num den = q \<and> 2 * r \<le> den \<or> round_half_even num den = Suc q \<and> den \<le> 2 * r"
    by (auto simp: round_half_even_def Let_def q_def r_def)
  then show ?thesis
  proof
    assume h: "round_half_even num den = q \<and> 2 * r \<le> den"
    then have "2 * real r \<le> real den" by linarith
    then have "real r / real den \<le> 1 / 2" using assms by (simp add: field_simps)
    then show ?thesis using h eq by simp
  next
    assume h: "round_half_even num den = Suc q \<and> den \<le> 2 * r"
    then have "real den \<le> 2 * real r" and "real r \<le> real den" using r by linarith+
    then have "1 / 2 \<le> real r / real den" and "real r / real den \<le> 1" using assms by (simp_all add: field_simps)
    then show ?thesis using h eq by simp
  qed
qed

lemma bitlen_le: "0 < n \<Longrightarrow> 2 ^ (bitlen n - 1) \<le> n"
proof (induction n rule: bitlen.induct)
  case (1 n)
  show ?case
  proof (cases "n = 1")
    case True
    then show ?thesis by (simp add: bitlen.simps [of "Suc 0"] bitlen.simps [of 0])
  next
    case False
    with 1(2) have n2: "0 < n div 2" by simp
    with 1 have ih: "2 ^ (bitlen (n div 2) - 1) \<le> n div 2" by simp
    have "bitlen (n div 2) \<noteq> 0" using n2 by (subst bitlen.simps) simp
    then obtain j where j: "bitlen (n div 2) = Suc j" using not0_implies_Suc by blast
    then have "bitlen n = Suc (Suc j)" using 1(2) by (subst bitlen.simps) simp
    then have "2 ^ (bitlen n - 1) = 2 * 2 ^ j" by simp
    also have "\<dots> \<le> 2 * (n div 2)" using ih j by simp
    also have "\<dots> \<le> n" by simp
    finally show ?thesis .
  qed
qed

lemma f64_norm_error:
  "\<bar>f64_val (f64_norm False m e) - real m * 2 powi e\<bar> \<le> real m * 2 powi e / 2 ^ 53"
proof (cases "m < 2 ^ 53")
  case True
  then show ?thesis by (simp add: f64_norm_def)
next
  case False
  define k where "k = bitlen m - 53"
  let ?q = "round_half_even m (2 ^ k)"
  have top: "2 ^ (bitlen m - 1) \<le> m" using False by (intro bitlen_le) simp
  have "k + 52 \<le> bitlen m - 1 \<or> bitlen m \<le> 53" by (auto simp: k_def)
  then have "2 ^ (k + 52) \<le> m"
  proof
    assume "k + 52 \<le> bitlen m - 1"
    then have "2 ^ (k + 52) \<le> (2 ^ (bitlen m - 1) :: nat)" by (rule power_increasing) simp
    from le_trans [OF this top] show ?thesis .
  next
    assume "bitlen m \<le> 53"
    then show ?thesis using False by (simp add: k_def)
  qed
  then have "real (2 ^ (k + 52)) \<le> real m" by (rule of_nat_mono)
  then have big: "2 ^ k / 2 \<le> real m / 2 ^ 53" by (simp add: power_add field_simps)
  have "\<bar>real ?q - real m / 2 ^ k\<bar> \<le> 1 / 2" using round_half_even_error [of "2 ^ k" m] by simp
  then have "\<bar>real ?q - real m / 2 ^ k\<bar> * 2 ^ k \<le> 1 / 2 * 2 ^ k" by (intro mult_right_mono) auto
  moreover have "\<bar>real ?q - real m / 2 ^ k\<bar> * 2 ^ k = \<bar>real ?q * 2 ^ k - real m\<bar>"
    by (simp add: left_diff_distrib abs_mult_pos)
  ultimately have "\<bar>real ?q * 2 ^ k - real m\<bar> \<le> real m / 2 ^ 53" using big by simp
  then have "\<bar>real ?q * 2 ^ k - real m\<bar> * 2 powi e \<le> real m / 2 ^ 53 * 2 powi e"
    by (intro mult_right_mono) auto
  moreover have "f64_val (f64_norm False m e) = real ?q * 2 ^ k * 2 powi e"
    using False by (simp add: f64_norm_def k_def Let_def power_int_add)
  moreover have "\<bar>real ?q * 2 ^ k * 2 powi e - real m * 2 powi e\<bar> = \<bar>real ?q * 2 ^ k - real m\<bar> * 2 powi e"
    by (simp add: abs_mult flip: left_diff_distrib)
  ultimately show ?thesis by simp
qed

lemma f64_norm_Fin: "\<exists>m' e'. f64_norm neg m e = Fin neg m' e'"
  by (simp add: f64_norm_def Let_def)

lemma trunc_int_floor:
  assumes "f64_val (Fin False m e) < 2 ^ 63"
  shows "trunc_int (Fin False m e) = \<lfloor>f64_val (Fin False m e)\<rfloor>"
proof -
  let ?a = "if 0 \<le> e then int m * 2 ^ nat e else int m div 2 ^ nat (- e)"
  have eq: "?a = \<lfloor>f64_val (Fin False m e)\<rfloor>"
  proof (cases "0 \<le> e")
    case True
    then have "f64_val (Fin False m e) = real_of_int (int m * 2 ^ nat e)"
      by (simp add: power_int_def)
    then show ?thesis using True by (simp only: floor_of_int if_True)
  next
    case False
    then have "f64_val (Fin False m e) = real_of_int (int m) / real_of_int (2 ^ nat (- e))"
      by (simp add: power_int_def field_simps)
    then show ?thesis using False by (simp only: floor_divide_of_int_eq if_False)
  qed
  have "0 \<le> int m div 2 ^ nat (- e)" by (simp add: pos_imp_zdiv_nonneg_iff)
  then have "0 \<le> ?a" by simp
  moreover have "?a < 2 ^ 63" unfolding eq using assms by (simp add: floor_less_iff)
  ultimately have "trunc_int (Fin False m e) = ?a" by (simp add: Let_def)
  then show ?thesis using eq by simp
qed

section \<open>Integers survive the conversion up to 53 bits\<close>

lemma f64_of_nat_exact: "n < 2 ^ 53 \<Longrightarrow> f64_of_nat neg n = Fin neg n 0"
  by (simp add: f64_of_nat_def f64_norm_def)

lemma f64_of_int_exact: "\<bar>n\<bar> < 2 ^ 53 \<Longrightarrow> f64_of_int n = Fin (n < 0) (nat \<bar>n\<bar>) 0"
  by (simp add: f64_of_int_def f64_of_nat_exact nat_less_iff)

lemma trunc_f64_of_int: "\<bar>n\<bar> < 2 ^ 53 \<Longrightarrow> trunc_int (f64_of_int n) = n"
  by (auto simp: f64_of_int_exact Let_def)

lemma f64_of_nat_not_nan [simp]: "\<not> is_nan (f64_of_nat neg n)"
  by (simp add: f64_of_nat_def f64_norm_def Let_def)

lemma f64_of_nat_not_inf [simp]: "\<not> is_inf (f64_of_nat neg n)"
  by (simp add: f64_of_nat_def f64_norm_def Let_def)

lemma f64_of_int_finite [simp]: "\<not> is_nan (f64_of_int n)" "\<not> is_inf (f64_of_int n)"
  by (simp_all add: f64_of_int_def)

lemma f64_of_uint64_finite [simp]: "\<not> is_nan (f64_of_uint64 n)" "\<not> is_inf (f64_of_uint64 n)"
  by (simp_all add: f64_of_uint64_def)

section \<open>The printed form of a finite number is a JSON number\<close>

text \<open>The grammar of a JSON number without exponent: sign, integer part, fraction.\<close>

definition json_number :: "string \<Rightarrow> bool" where
  "json_number s =
     (let t = (case s of c # cs \<Rightarrow> if c = CHR ''-'' then cs else s | [] \<Rightarrow> []);
          ip = takeWhile is_digit t; r = dropWhile is_digit t
      in ip \<noteq> [] \<and> (length ip = 1 \<or> hd ip \<noteq> CHR ''0'') \<and>
         (case r of [] \<Rightarrow> True
          | c # fp \<Rightarrow> c = CHR ''.'' \<and> fp \<noteq> [] \<and> list_all is_digit fp))"

lemma of_char_digit: "(k::nat) < 10 \<Longrightarrow> (of_char (char_of (48 + k)) :: nat) = 48 + k"
  by (simp add: of_char_of take_bit_eq_mod)

lemma digit_char_not_0:
  assumes "0 < (k::nat)" and "k < 10"
  shows "char_of (48 + k) \<noteq> CHR ''0''"
proof
  assume "char_of (48 + k) = CHR ''0''"
  then have "(of_char (char_of (48 + k)) :: nat) = of_char (CHR ''0'')" by (rule arg_cong)
  moreover have "(of_char (CHR ''0'') :: nat) = 48" by simp
  ultimately show False using of_char_digit [OF assms(2)] assms(1) by linarith
qed

lemma hd_dec_digits: "0 < n \<Longrightarrow> hd (dec_digits n) \<noteq> CHR ''0''"
proof (induction n rule: dec_digits.induct)
  case (1 n)
  show ?case
  proof (cases "n < 10")
    case True
    then show ?thesis using digit_char_not_0 1(2) by (subst dec_digits.simps) simp
  next
    case False
    with 1 have "hd (dec_digits (n div 10)) \<noteq> CHR ''0''" by simp
    with False show ?thesis by (subst dec_digits.simps) simp
  qed
qed

lemma dec_digits_leading: "length (dec_digits n) = 1 \<or> hd (dec_digits n) \<noteq> CHR ''0''"
proof (cases "n = 0")
  case True
  then show ?thesis by (subst dec_digits.simps) simp
next
  case False
  then show ?thesis using hd_dec_digits by blast
qed

lemma list_all_takeWhile_append:
  "list_all P xs \<Longrightarrow> \<not> P y \<Longrightarrow> takeWhile P (xs @ y # zs) = xs \<and> dropWhile P (xs @ y # zs) = y # zs"
  by (induction xs) auto

lemma is_digit_zero [simp]: "is_digit (CHR ''0'')" and not_is_digit_dot [simp]: "\<not> is_digit (CHR ''.'')"
  by (simp_all add: is_digit_def)

lemma json_number_itoa: "json_number (itoa n)"
proof -
  have tk: "takeWhile is_digit (dec_digits k) = dec_digits k"
    "dropWhile is_digit (dec_digits k) = []" for k
    using dec_digits_digits [of k] by (simp_all add: list_all_iff)
  have hd: "\<exists>c cs. dec_digits k = c # cs \<and> c \<noteq> CHR ''-''" for k
    using dec_digits_digits [of k] dec_digits_nonempty [of k]
    by (cases "dec_digits k") (auto dest: is_digit_not_sign)
  show ?thesis
  proof (cases "n < 0")
    case True
    then show ?thesis
      using dec_digits_leading [of "nat (- n)"] by (simp add: itoa_def json_number_def tk Let_def)
  next
    case False
    obtain c cs where "dec_digits (nat n) = c # cs" "c \<noteq> CHR ''-''" using hd by blast
    with False show ?thesis
      using dec_digits_leading [of "nat n"] tk [of "nat n"]
      by (simp add: itoa_def json_number_def Let_def)
  qed
qed

lemma json_number_fmt_f: "json_number (fmt_f (Fin neg m e))"
proof -
  define ip where "ip = dec_digits (scaled6 m e div 10 ^ 6)"
  define fp where "fp = dec_digits (scaled6 m e mod 10 ^ 6)"
  define fr where "fr = replicate (6 - length fp) (CHR ''0'') @ fp"
  have ip: "list_all is_digit ip" "ip \<noteq> []" and lead: "length ip = 1 \<or> hd ip \<noteq> CHR ''0''"
    unfolding ip_def by (rule dec_digits_digits, simp, rule dec_digits_leading)
  have fr: "list_all is_digit fr" "fr \<noteq> []"
    unfolding fr_def fp_def by (auto simp: list_all_append dec_digits_digits list_all_iff)
      (use dec_digits_digits in \<open>auto simp: list_all_iff\<close>)
  obtain c cs where ipc: "ip = c # cs" "c \<noteq> CHR ''-''"
    using ip is_digit_not_sign by (cases ip) auto
  have split: "takeWhile is_digit (ip @ CHR ''.'' # fr) = ip"
    "dropWhile is_digit (ip @ CHR ''.'' # fr) = CHR ''.'' # fr"
    using list_all_takeWhile_append [OF ip(1) not_is_digit_dot] by auto
  have eq: "fmt_f (Fin neg m e) = (if neg then ''-'' else []) @ ip @ CHR ''.'' # fr"
    by (simp add: ip_def fp_def fr_def Let_def)
  have "json_number (ip @ CHR ''.'' # fr)"
    using ipc split ip fr lead by (simp add: json_number_def Let_def)
  moreover have "json_number (CHR ''-'' # ip @ CHR ''.'' # fr)"
    using split ip fr lead by (simp add: json_number_def Let_def)
  ultimately show ?thesis unfolding eq by simp
qed

lemma not_json_number_inf: "\<not> json_number (fmt_f (Inf neg))" "\<not> json_number (fmt_f NaN)"
  by (auto simp: json_number_def Let_def is_digit_def)

lemma json_number_fmt_f_iff: "json_number (fmt_f f) \<longleftrightarrow> \<not> is_nan f \<and> \<not> is_inf f"
  by (cases f) (auto simp del: fmt_f.simps simp: json_number_fmt_f not_json_number_inf)

end
