(* ===== verification/Go_Json.thy ===== *)
theory Go_Json
  imports Go_Floats
begin

text \<open>
  The part of \<^verbatim>\<open>encoding/json\<close> that the formatter and the configuration use: string
  literals with the escapes of \<^verbatim>\<open>json.Marshal\<close> (HTML escaping on, invalid UTF-8 replaced),
  arrays and objects, and a datatype of decoded values.
\<close>

section \<open>UTF-8\<close>

definition byte_in :: "char \<Rightarrow> nat \<Rightarrow> nat \<Rightarrow> bool" where
  "byte_in c lo hi \<longleftrightarrow> (let n = (of_char c :: nat) in lo \<le> n \<and> n \<le> hi)"

text \<open>The length of the multi-byte sequence at the head of a string; 0 when it is invalid.\<close>

definition utf8_len :: "string \<Rightarrow> nat" where
  "utf8_len s =
     (case s of [] \<Rightarrow> 0
      | b0 # r \<Rightarrow>
        if byte_in b0 0 127 then 1
        else (case r of [] \<Rightarrow> 0
          | b1 # r1 \<Rightarrow>
            if byte_in b0 0xC2 0xDF then (if byte_in b1 0x80 0xBF then 2 else 0)
            else (case r1 of [] \<Rightarrow> 0
              | b2 # r2 \<Rightarrow>
                if byte_in b0 0xE0 0xEF then
                  (if byte_in b2 0x80 0xBF \<and>
                      byte_in b1 (if byte_in b0 0xE0 0xE0 then 0xA0 else 0x80)
                                 (if byte_in b0 0xED 0xED then 0x9F else 0xBF)
                   then 3 else 0)
                else (case r2 of [] \<Rightarrow> 0
                  | b3 # _ \<Rightarrow>
                    if byte_in b0 0xF0 0xF4 \<and> byte_in b2 0x80 0xBF \<and> byte_in b3 0x80 0xBF \<and>
                       byte_in b1 (if byte_in b0 0xF0 0xF0 then 0x90 else 0x80)
                                  (if byte_in b0 0xF4 0xF4 then 0x8F else 0xBF)
                    then 4 else 0))))"

section \<open>String literals\<close>

abbreviation backslash :: char where "backslash \<equiv> CHR 0x5C"
abbreviation quote :: char where "quote \<equiv> CHR 0x22"

definition hex_digit :: "nat \<Rightarrow> char" where
  "hex_digit n = (if n < 10 then char_of (48 + n) else char_of (87 + n))"

definition json_ascii :: "char \<Rightarrow> string" where
  "json_ascii c =
     (let n = (of_char c :: nat) in
      if c = backslash \<or> c = quote then [backslash, c]
      else if n = 8 then [backslash, CHR ''b'']
      else if n = 12 then [backslash, CHR ''f'']
      else if n = 10 then [backslash, CHR ''n'']
      else if n = 13 then [backslash, CHR ''r'']
      else if n = 9 then [backslash, CHR ''t'']
      else if n < 32 \<or> c \<in> {CHR ''<'', CHR ''>'', CHR ''&''}
      then backslash # ''u00'' @ [hex_digit (n div 16), hex_digit (n mod 16)]
      else [c])"

text \<open>U+2028 and U+2029 (bytes E2 80 A8 and E2 80 A9) are escaped, other sequences copied.\<close>

function json_chars :: "string \<Rightarrow> string" where
  "json_chars s =
     (case s of [] \<Rightarrow> []
      | c # cs \<Rightarrow>
        let n = utf8_len s in
        if n = 0 then backslash # ''ufffd'' @ json_chars cs
        else if n = 1 then json_ascii c @ json_chars cs
        else (if take 3 s = [CHR 0xE2, CHR 0x80, CHR 0xA8] then backslash # ''u2028''
              else if take 3 s = [CHR 0xE2, CHR 0x80, CHR 0xA9] then backslash # ''u2029''
              else take n s) @ json_chars (drop n s))"
  by pat_completeness auto
termination
  by (relation "measure length") auto

declare json_chars.simps [simp del]

definition json_string :: "string \<Rightarrow> string" where
  "json_string s = quote # json_chars s @ [quote]"

section \<open>Arrays and objects\<close>

definition json_array :: "string list \<Rightarrow> string" where
  "json_array vs = ''['' @ join '','' vs @ '']''"

definition json_object :: "(string \<times> string) list \<Rightarrow> string" where
  "json_object fs = ''{'' @ join '','' (map (\<lambda>(k, v). json_string k @ '':'' @ v) fs) @ ''}''"

section \<open>Decoded values\<close>

text \<open>What \<^verbatim>\<open>json.Unmarshal\<close> into an \<^verbatim>\<open>interface{}\<close> gives; numbers are read as float64.\<close>

datatype json =
    JNull
  | JBool bool
  | JNum int
  | JStr string
  | JArr "json list"
  | JObj "(string \<times> json) list"

lemma json_chars_Nil [simp]: "json_chars [] = []"
  by (subst json_chars.simps) simp

text \<open>Plain ASCII text is copied as it is.\<close>

definition plain_ascii :: "char \<Rightarrow> bool" where
  "plain_ascii c \<longleftrightarrow> byte_in c 32 127 \<and>
     c \<notin> {backslash, quote, CHR ''<'', CHR ''>'', CHR ''&''}"

lemma json_ascii_id: "plain_ascii c \<Longrightarrow> json_ascii c = [c]"
  by (auto simp: plain_ascii_def json_ascii_def byte_in_def Let_def)

lemma json_chars_ascii: "list_all plain_ascii s \<Longrightarrow> json_chars s = s"
proof (induction s)
  case (Cons c cs)
  then have c: "plain_ascii c" by simp
  then have "byte_in c 0 127" by (simp add: plain_ascii_def byte_in_def Let_def)
  then have "utf8_len (c # cs) = 1" by (simp add: utf8_len_def)
  with Cons c show ?case by (subst json_chars.simps) (simp add: json_ascii_id)
qed simp

end
