(* ===== verification/Metric.thy ===== *)
theory Metric
  imports Go_Json
begin

text \<open>
  \<^verbatim>\<open>internal/metric/metric.go\<close> and \<^verbatim>\<open>internal/logs/logs.go\<close>: the data that flows through the
  nozzle, the map in which the metrics of one flush interval are collected, and the JSON
  form of a series.
\<close>

section \<open>Data\<close>

definition GAUGE :: string where "GAUGE = ''gauge''"
definition COUNT :: string where "COUNT = ''count''"
definition RATE :: string where "RATE = ''rate''"

record Point =
  pt_Timestamp :: int
  pt_Value :: float64

record MetricKey =
  mk_Name :: string
  mk_TagsHash :: string

record MetricValue =
  mv_Tags :: "string list"
  mv_Points :: "Point list"
  mv_Host :: string
  mv_Type :: string

record MetricPackage =
  mp_Key :: MetricKey
  mp_Value :: MetricValue

type_synonym MetricsMap = "(MetricKey, MetricValue) gomap"

record Origin =
  OriginProduct :: int
  OriginSubProduct :: int
  OriginProductDetail :: int

record Series =
  sr_Metric :: string
  sr_Points :: "Point list"
  sr_Type :: string
  sr_Host :: string
  sr_Tags :: "string list"
  sr_Metadata :: Origin

record LogMessage =
  lm_Source :: string
  lm_Tags :: string
  lm_Hostname :: string
  lm_Message :: string
  lm_Service :: string

definition empty_MetricValue :: MetricValue where
  "empty_MetricValue = \<lparr>mv_Tags = [], mv_Points = [], mv_Host = [], mv_Type = []\<rparr>"

definition empty_LogMessage :: LogMessage where
  "empty_LogMessage = \<lparr>lm_Source = [], lm_Tags = [], lm_Hostname = [], lm_Message = [], lm_Service = []\<rparr>"

definition GetOriginMetadata :: Origin where
  "GetOriginMetadata = \<lparr>OriginProduct = 10, OriginSubProduct = 11, OriginProductDetail = 440\<rparr>"

section \<open>Metric keys are ordered\<close>

text \<open>
  The order of the keys is lexicographic, first by name. It gives a map of metrics a
  canonical list of entries, on which equality of maps is equality of lists.
\<close>

instantiation MetricKey_ext :: (linorder) linorder
begin

definition less_eq_MetricKey_ext :: "'a MetricKey_scheme \<Rightarrow> 'a MetricKey_scheme \<Rightarrow> bool" where
  "less_eq_MetricKey_ext a b \<longleftrightarrow>
     mk_Name a < mk_Name b \<or> mk_Name a = mk_Name b \<and>
       (mk_TagsHash a < mk_TagsHash b \<or> mk_TagsHash a = mk_TagsHash b \<and>
          MetricKey.more a \<le> MetricKey.more b)"

definition less_MetricKey_ext :: "'a MetricKey_scheme \<Rightarrow> 'a MetricKey_scheme \<Rightarrow> bool" where
  "less_MetricKey_ext a b \<longleftrightarrow> a \<le> b \<and> \<not> b \<le> a"

instance
proof
  fix x y z :: "'a MetricKey_scheme"
  show "x < y \<longleftrightarrow> x \<le> y \<and> \<not> y \<le> x" by (rule less_MetricKey_ext_def)
  show "x \<le> x" by (simp add: less_eq_MetricKey_ext_def)
  show "x \<le> y \<Longrightarrow> y \<le> z \<Longrightarrow> x \<le> z" by (auto simp: less_eq_MetricKey_ext_def)
  show "x \<le> y \<Longrightarrow> y \<le> x \<Longrightarrow> x = y" by (auto simp: less_eq_MetricKey_ext_def)
  show "x \<le> y \<or> y \<le> x" by (auto simp: less_eq_MetricKey_ext_def)
qed

end

definition canonical :: "('k::linorder, 'v) gomap \<Rightarrow> ('k, 'v) gomap" where
  "canonical m = sort_key fst m"

lemma canonical_unique:
  assumes "wf_gomap m" and "wf_gomap m'" and "\<And>k. gget m k = gget m' k"
  shows "canonical m = canonical m'"
proof -
  have "(k, v) \<in> set m \<longleftrightarrow> (k, v) \<in> set m'" for k v
    using assms(3) gget_iff_in_set [OF assms(1)] gget_iff_in_set [OF assms(2)] by metis
  then have "set m = set m'" by auto
  moreover have "distinct m" "distinct m'"
    using assms(1,2) by (auto simp: wf_gomap_def distinct_map)
  ultimately have "mset m = mset m'" by (simp add: set_eq_iff_mset_eq_distinct)
  moreover have "inj_on fst (set m)" using assms(1) by (simp add: wf_gomap_def distinct_map)
  ultimately show ?thesis
    unfolding canonical_def
    by (metis mset_sort properties_for_sort_key set_mset_mset sorted_sort_key sort_key_inj_key_eq)
qed

section \<open>Adding to the map\<close>

text \<open>\<^verbatim>\<open>MetricsMap.Add\<close>: points of a key that is present are appended to its points.\<close>

definition Add :: "MetricsMap \<Rightarrow> MetricKey \<Rightarrow> MetricValue \<Rightarrow> MetricsMap" where
  "Add m key newVal =
     (case gget m key of
        Some value \<Rightarrow> gput key (value\<lparr>mv_Points := mv_Points value @ mv_Points newVal\<rparr>) m
      | None \<Rightarrow> gput key newVal m)"

definition add_package :: "MetricsMap \<Rightarrow> MetricPackage list \<Rightarrow> MetricsMap" where
  "add_package m pkg = foldl (\<lambda>acc p. Add acc (mp_Key p) (mp_Value p)) m pkg"

text \<open>
  The abstract view: a map gives every key the sequence of its points. Adding is then
  appending at one key.
\<close>

definition points_of :: "MetricsMap \<Rightarrow> MetricKey \<Rightarrow> Point list" where
  "points_of m k = (case gget m k of Some v \<Rightarrow> mv_Points v | None \<Rightarrow> [])"

definition total_points :: "MetricsMap \<Rightarrow> nat" where
  "total_points m = sum_list (map (\<lambda>(k, v). length (mv_Points v)) m)"

lemma points_of_Add:
  "points_of (Add m key v) = (points_of m)(key := points_of m key @ mv_Points v)"
  by (auto simp: points_of_def Add_def gget_gput split: option.splits)

lemma wf_Add [gomap]: "wf_gomap m \<Longrightarrow> wf_gomap (Add m k v)"
  by (auto simp: Add_def gomap split: option.splits)

lemma keys_Add [gomap]: "fst ` set (Add m k v) = insert k (fst ` set m)"
  by (auto simp: Add_def set_keys_gput split: option.splits)

lemma total_points_gput:
  "wf_gomap m \<Longrightarrow> total_points (gput k v m) + length (points_of m k) = total_points m + length (mv_Points v)"
proof (induction m)
  case (Cons e m)
  obtain k' v' where e: "e = (k', v')" by fastforce
  have wf: "wf_gomap m" "k' \<notin> fst ` set m" using Cons.prems e by (auto simp: wf_gomap_Cons)
  show ?case
  proof (cases "k = k'")
    case True
    then show ?thesis by (simp add: e total_points_def points_of_def)
  next
    case False
    then show ?thesis using Cons.IH [OF wf(1)] e by (simp add: total_points_def points_of_def)
  qed
qed (simp add: total_points_def points_of_def)

lemma total_points_Add [counting]:
  assumes "wf_gomap m"
  shows "total_points (Add m k v) = total_points m + length (mv_Points v)"
  using total_points_gput [OF assms, of k v]
    total_points_gput [OF assms, of k "(the (gget m k))\<lparr>mv_Points := points_of m k @ mv_Points v\<rparr>"]
  by (auto simp: Add_def points_of_def split: option.splits)

lemma wf_add_package [gomap]: "wf_gomap m \<Longrightarrow> wf_gomap (add_package m pkg)"
  by (induction pkg arbitrary: m) (auto simp: add_package_def wf_Add)

lemma keys_add_package:
  "fst ` set (add_package m pkg) = fst ` set m \<union> mp_Key ` set pkg"
  by (induction pkg arbitrary: m) (auto simp: add_package_def keys_Add)

lemma points_of_add_package:
  "points_of (add_package m pkg) k =
     points_of m k @ concat (map (\<lambda>p. mv_Points (mp_Value p)) (filter (\<lambda>p. mp_Key p = k) pkg))"
proof (induction pkg arbitrary: m)
  case (Cons p pkg)
  have "add_package m (p # pkg) = add_package (Add m (mp_Key p) (mp_Value p)) pkg"
    by (simp add: add_package_def)
  with Cons show ?case by (simp add: points_of_Add)
qed (simp add: add_package_def)

lemma total_points_add_package [counting]:
  assumes "wf_gomap m"
  shows "total_points (add_package m pkg) =
     total_points m + sum_list (map (\<lambda>p. length (mv_Points (mp_Value p))) pkg)"
  using assms
proof (induction pkg arbitrary: m)
  case (Cons p pkg)
  have "add_package m (p # pkg) = add_package (Add m (mp_Key p) (mp_Value p)) pkg"
    by (simp add: add_package_def)
  with Cons show ?case by (simp add: wf_Add total_points_Add)
qed (simp add: add_package_def)

text \<open>The tags, host and type of a key are those of the first value added under it.\<close>

lemma points_self: "\<exists>ps. v = v\<lparr>mv_Points := ps\<rparr>"
  by (intro exI [of _ "mv_Points v"]) simp

lemma gget_add_package_first:
  assumes "gget m k = Some v"
  shows "\<exists>ps. gget (add_package m pkg) k = Some (v\<lparr>mv_Points := ps\<rparr>)"
  using assms
proof (induction pkg arbitrary: m v)
  case Nil
  then show ?case by (intro exI [of _ "mv_Points v"]) (simp add: add_package_def)
next
  case (Cons p pkg)
  let ?m = "Add m (mp_Key p) (mp_Value p)"
  have "\<exists>ps. gget ?m k = Some (v\<lparr>mv_Points := ps\<rparr>)"
    using Cons.prems by (auto simp: Add_def gget_gput intro: points_self split: option.splits)
  then obtain ps where "gget ?m k = Some (v\<lparr>mv_Points := ps\<rparr>)" by blast
  from Cons.IH [OF this] show ?case by (simp add: add_package_def)
qed

section \<open>JSON\<close>

text \<open>\<^verbatim>\<open>Point.MarshalJSON\<close>. The encoder then checks that the text is JSON and removes the space.\<close>

definition Point_MarshalJSON :: "Point \<Rightarrow> string" where
  "Point_MarshalJSON p = ''['' @ itoa (pt_Timestamp p) @ '', '' @ fmt_f (pt_Value p) @ '']''"

definition json_point :: "Point \<Rightarrow> string option" where
  "json_point p =
     (if json_number (fmt_f (pt_Value p))
      then Some (''['' @ itoa (pt_Timestamp p) @ '','' @ fmt_f (pt_Value p) @ '']'') else None)"

fun json_all :: "('a \<Rightarrow> string option) \<Rightarrow> 'a list \<Rightarrow> string list option" where
  "json_all f [] = Some []"
| "json_all f (x # xs) =
     (case f x of None \<Rightarrow> None
      | Some j \<Rightarrow> (case json_all f xs of None \<Rightarrow> None | Some js \<Rightarrow> Some (j # js)))"

lemma json_all_None_iff: "json_all f xs = None \<longleftrightarrow> (\<exists>x\<in>set xs. f x = None)"
  by (induction xs) (auto split: option.splits)

lemma json_point_None_iff: "json_point p = None \<longleftrightarrow> is_nan (pt_Value p) \<or> is_inf (pt_Value p)"
  by (auto simp: json_point_def json_number_fmt_f_iff)

text \<open>
  A series: a nil slice of points is \<^verbatim>\<open>null\<close>, an empty host or tag list is left out. The
  result is \<open>None\<close> when a point is not a number that JSON can express.
\<close>

definition json_origin :: "Origin \<Rightarrow> string" where
  "json_origin o1 = json_object [(''origin'', json_object
     [(''origin_product'', itoa (OriginProduct o1)),
      (''origin_sub_product'', itoa (OriginSubProduct o1)),
      (''origin_product_detail'', itoa (OriginProductDetail o1))])]"

definition json_series :: "Series \<Rightarrow> string option" where
  "json_series s =
     (case json_all json_point (sr_Points s) of None \<Rightarrow> None
      | Some ps \<Rightarrow> Some (json_object (
          [(''metric'', json_string (sr_Metric s)),
           (''points'', if ps = [] then ''null'' else json_array ps),
           (''type'', json_string (sr_Type s))]
          @ (if sr_Host s = [] then [] else [(''host'', json_string (sr_Host s))])
          @ (if sr_Tags s = [] then [] else [(''tags'', json_array (map json_string (sr_Tags s)))])
          @ [(''metadata'', json_origin (sr_Metadata s))])))"

definition json_payload :: "Series list \<Rightarrow> string option" where
  "json_payload ss =
     (case json_all json_series ss of None \<Rightarrow> None
      | Some js \<Rightarrow> Some (json_object [(''series'', json_array js)]))"

definition json_log :: "LogMessage \<Rightarrow> string" where
  "json_log l = json_object
     [(''ddsource'', json_string (lm_Source l)), (''ddtags'', json_string (lm_Tags l)),
      (''hostname'', json_string (lm_Hostname l)), (''message'', json_string (lm_Message l)),
      (''service'', json_string (lm_Service l))]"

lemma json_series_None_iff:
  "json_series s = None \<longleftrightarrow> (\<exists>p\<in>set (sr_Points s). is_nan (pt_Value p) \<or> is_inf (pt_Value p))"
  by (auto simp: json_series_def json_all_None_iff json_point_None_iff split: option.splits)
    (metis json_all_None_iff json_point_None_iff not_None_eq option.discI)+

lemma json_payload_None_iff: "json_payload ss = None \<longleftrightarrow> (\<exists>s\<in>set ss. json_series s = None)"
  using json_all_None_iff [of json_series ss] by (auto simp: json_payload_def split: option.splits)

end
