(* ===== verification/Sha1.thy ===== *)
theory Sha1
  imports Prelude
begin

text \<open>
  SHA-1 as Go's \<^verbatim>\<open>crypto/sha1\<close> computes it (FIPS 180-4), on byte strings: padding to
  blocks of 64 bytes, the message schedule of 80 words, 80 rounds over five 32-bit words.
  The nozzle hashes every tag with it to identify a series; what its proofs use is the
  length of the digest.
\<close>

unbundle bit_operations_syntax

definition rotl32 :: "nat \<Rightarrow> uint32 \<Rightarrow> uint32" where
  "rotl32 n w = push_bit n w OR drop_bit (32 - n) w"

text \<open>Big-endian words and bytes.\<close>

definition word_of_bytes :: "string \<Rightarrow> uint32" where
  "word_of_bytes bs = foldl (\<lambda>acc c. push_bit 8 acc OR word_of_int (of_char c)) 0 bs"

definition bytes_of_int :: "nat \<Rightarrow> int \<Rightarrow> string" where
  "bytes_of_int n v = map (\<lambda>i. char_of (v div 256 ^ i)) (rev [0..<n])"

definition pad_message :: "string \<Rightarrow> string" where
  "pad_message m =
     (let l = length m; z = (119 - l mod 64) mod 64
      in m @ [char_of (128::nat)] @ replicate z (char_of (0::nat)) @ bytes_of_int 8 (int (8 * l)))"

fun chunks :: "nat \<Rightarrow> nat \<Rightarrow> 'a list \<Rightarrow> 'a list list" where
  "chunks n 0 xs = []"
| "chunks n (Suc k) xs = take n xs # chunks n k (drop n xs)"

text \<open>The schedule, kept in reverse: the newest word first.\<close>

fun extend_schedule :: "nat \<Rightarrow> uint32 list \<Rightarrow> uint32 list" where
  "extend_schedule 0 ws = ws"
| "extend_schedule (Suc k) ws =
     extend_schedule k
       (rotl32 1 (xor (xor (ws ! 2) (ws ! 7)) (xor (ws ! 13) (ws ! 15))) # ws)"

definition sha_schedule :: "string \<Rightarrow> uint32 list" where
  "sha_schedule block = rev (extend_schedule 64 (rev (map word_of_bytes (chunks 4 16 block))))"

type_synonym sha_state = "uint32 \<times> uint32 \<times> uint32 \<times> uint32 \<times> uint32"

definition round_f :: "nat \<Rightarrow> uint32 \<Rightarrow> uint32 \<Rightarrow> uint32 \<Rightarrow> uint32" where
  "round_f t b c d =
     (if t < 20 then (b AND c) OR (NOT b AND d)
      else if t < 40 then xor (xor b c) d
      else if t < 60 then (b AND c) OR (b AND d) OR (c AND d)
      else xor (xor b c) d)"

definition round_k :: "nat \<Rightarrow> uint32" where
  "round_k t = (if t < 20 then 0x5A827999 else if t < 40 then 0x6ED9EBA1
                else if t < 60 then 0x8F1BBCDC else 0xCA62C1D6)"

fun rounds :: "nat \<Rightarrow> uint32 list \<Rightarrow> sha_state \<Rightarrow> sha_state" where
  "rounds t [] st = st"
| "rounds t (w # ws) (a, b, c, d, e) =
     rounds (Suc t) ws (rotl32 5 a + round_f t b c d + e + round_k t + w, a, rotl32 30 b, c, d)"

fun sha_block :: "sha_state \<Rightarrow> string \<Rightarrow> sha_state" where
  "sha_block (h0, h1, h2, h3, h4) block =
     (case rounds 0 (sha_schedule block) (h0, h1, h2, h3, h4) of (a, b, c, d, e) \<Rightarrow>
       (h0 + a, h1 + b, h2 + c, h3 + d, h4 + e))"

definition sha_init :: sha_state where
  "sha_init = (0x67452301, 0xEFCDAB89, 0x98BADCFE, 0x10325476, 0xC3D2E1F0)"

definition sha1_sum :: "string \<Rightarrow> string" where
  "sha1_sum m =
     (let p = pad_message m in
      case foldl sha_block sha_init (chunks 64 (length p div 64) p) of (a, b, c, d, e) \<Rightarrow>
        concat (map (\<lambda>w. bytes_of_int 4 (uint w)) [a, b, c, d, e]))"

lemma length_bytes_of_int [simp]: "length (bytes_of_int n v) = n"
  by (simp add: bytes_of_int_def)

lemma length_pad_message: "length (pad_message m) mod 64 = 0"
proof -
  define r where "r = length m mod 64"
  have "r < 64" by (simp add: r_def)
  have z: "(119 - r) mod 64 = (if r \<le> 55 then 55 - r else 119 - r)"
  proof (cases "r \<le> 55")
    case True
    then have "119 - r = (55 - r) + 64" by simp
    then show ?thesis using True by (simp only: mod_add_self2) simp
  qed simp
  have "(r + 1 + (119 - r) mod 64 + 8) mod 64 = 0"
    unfolding z using \<open>r < 64\<close> by (cases "r \<le> 55") auto
  then have "(length m + (1 + ((119 - r) mod 64 + 8))) mod 64 = 0"
    by (metis (no_types, lifting) add.assoc mod_add_left_eq r_def)
  then show ?thesis by (simp add: pad_message_def Let_def r_def)
qed

lemma length_sha1_sum [simp]: "length (sha1_sum m) = 20"
proof -
  obtain a b c d e where
    "foldl sha_block sha_init (chunks 64 (length (pad_message m) div 64) (pad_message m)) = (a, b, c, d, e)"
    by (metis prod_cases5)
  then show ?thesis by (simp only: sha1_sum_def Let_def prod.case) simp
qed

end
