(* ===== verification/Util.thy ===== *)
theory Util
  imports Metric Sha1
begin

text \<open>
  \<^verbatim>\<open>internal/util/util.go\<close> and the envelope of the Loggregator v2 API as the nozzle reads it.

  The envelope type comes from the \<^verbatim>\<open>go-loggregator\<close> package: a record of the fields the
  nozzle reads through its getters, and a datatype for the kinds of message. The getters are
  safe on nil: a missing tag is the empty string, the counter of a gauge envelope is the
  zero counter.
\<close>

section \<open>Envelopes\<close>

record GaugeValue =
  gv_Unit :: string
  gv_Value :: float64

type_synonym Gauge = "(string, GaugeValue option) gomap"

record Counter =
  ct_Name :: string
  ct_Delta :: uint64
  ct_Total :: uint64

datatype message =
    Envelope_Log string
  | Envelope_Counter Counter
  | Envelope_Gauge Gauge
  | Envelope_Timer
  | Envelope_Event
  | Envelope_None

record Envelope =
  ev_Timestamp :: int
  ev_SourceId :: string
  ev_InstanceId :: string
  ev_Tags :: "(string, string) gomap"
  ev_Message :: message

fun GetGauge :: "message \<Rightarrow> Gauge" where
  "GetGauge (Envelope_Gauge g) = g"
| "GetGauge _ = []"

section \<open>Hashing and filtering tags\<close>

text \<open>
  \<^verbatim>\<open>HashTags\<close> sorts its argument in place, so it returns the sorted tags as well: the
  caller's slice is reordered.
\<close>

definition HashTags :: "string list \<Rightarrow> string list \<times> string" where
  "HashTags tags = (let s = sort tags in (s, concat (map sha1_sum s)))"

definition highCardinalityTags :: "string list" where
  "highCardinalityTags = [''created_at'', ''user_data'']"

fun allowed_tag :: "string list \<Rightarrow> string \<Rightarrow> bool" where
  "allowed_tag [] tag = True"
| "allowed_tag (excluded # es) tag = (if contains tag excluded then False else allowed_tag es tag)"

fun FilterHighCardinalityTags :: "string list \<Rightarrow> string list" where
  "FilterHighCardinalityTags [] = []"
| "FilterHighCardinalityTags (tag # tags) =
     (if allowed_tag highCardinalityTags tag then tag # FilterHighCardinalityTags tags
      else FilterHighCardinalityTags tags)"

lemma allowed_tag_iff: "allowed_tag es tag \<longleftrightarrow> (\<forall>e\<in>set es. \<not> contains tag e)"
  by (induction es) auto

lemma FilterHighCardinalityTags_eq:
  "FilterHighCardinalityTags tags =
     filter (\<lambda>t. \<not> contains t ''created_at'' \<and> \<not> contains t ''user_data'') tags"
  by (induction tags) (auto simp: allowed_tag_iff highCardinalityTags_def)

lemma HashTags_perm:
  assumes "mset tags = mset tags'"
  shows "HashTags tags = HashTags tags'"
  using sort_mset_eq [OF assms] by (simp add: HashTags_def Let_def)

lemma fst_HashTags [simp]: "fst (HashTags tags) = sort tags"
  by (simp add: HashTags_def Let_def)

lemma length_HashTags [counting]: "length (snd (HashTags tags)) = 20 * length tags"
  by (simp add: HashTags_def Let_def length_concat comp_def sum_list_triv)

lemma concat_map_inj:
  assumes "inj_on f (set xs \<union> set ys)" and "\<And>x. length (f x) = n" and "0 < n"
    and "concat (map f xs) = concat (map f ys)"
  shows "xs = ys"
  using assms
proof (induction xs arbitrary: ys)
  case Nil
  then have "sum_list (map (length \<circ> f) ys) = 0" by (metis concat.simps(1) length_concat list.map(1) list.size(3) map_map)
  then have "n * length ys = 0" using Nil.prems(2) by (simp add: comp_def sum_list_triv mult.commute)
  with Nil.prems(3) show ?case by simp
next
  case (Cons x xs)
  have "f x \<noteq> []" using Cons.prems(2) [of x] Cons.prems(3) by auto
  then have "ys \<noteq> []" using Cons.prems(4) by auto
  then obtain y ys' where ys: "ys = y # ys'" by (cases ys) auto
  have len: "length (f x) = length (f y)" by (simp only: Cons.prems(2))
  have "f x @ concat (map f xs) = f y @ concat (map f ys')" using Cons.prems(4) ys by simp
  then have fxy: "f x = f y" and rest: "concat (map f xs) = concat (map f ys')"
    using len by simp_all
  have "x = y" by (rule inj_onD [OF Cons.prems(1) fxy]) (simp_all add: ys)
  moreover have "inj_on f (set xs \<union> set ys')"
    by (rule inj_on_subset [OF Cons.prems(1)]) (auto simp: ys)
  then have "xs = ys'" by (rule Cons.IH [OF _ Cons.prems(2,3) rest])
  ultimately show ?case using ys by simp
qed

text \<open>
  Without a SHA-1 collision among the tags at hand, the hash identifies the multiset of
  tags.
\<close>

lemma HashTags_eq_iff:
  assumes "inj_on sha1_sum (set tags \<union> set tags')"
  shows "snd (HashTags tags) = snd (HashTags tags') \<longleftrightarrow> mset tags = mset tags'"
proof
  assume "snd (HashTags tags) = snd (HashTags tags')"
  then have "concat (map sha1_sum (sort tags)) = concat (map sha1_sum (sort tags'))"
    by (simp add: HashTags_def Let_def)
  then have "sort tags = sort tags'"
    by (rule concat_map_inj [of sha1_sum _ _ 20, rotated 3]) (use assms in simp_all)
  then show "mset tags = mset tags'" by (rule mset_eq_of_sort)
next
  assume "mset tags = mset tags'"
  then show "snd (HashTags tags) = snd (HashTags tags')" by (simp add: HashTags_perm [of tags tags'])
qed

section \<open>Container metrics\<close>

definition container_keys :: "string list" where
  "container_keys = [''cpu'', ''memory'', ''disk'', ''memory_quota'', ''disk_quota'']"

text \<open>The test on one key: present, not nil, and not the zero value.\<close>

definition gauge_key_ok :: "Gauge \<Rightarrow> string \<Rightarrow> bool" where
  "gauge_key_ok g key =
     (case gget g key of
        None \<Rightarrow> False
      | Some None \<Rightarrow> False
      | Some (Some v) \<Rightarrow> \<not> (gv_Unit v = [] \<and> f64_is_zero (gv_Value v)))"

text \<open>The loop does not stop at the first bad key: it clears the flag and goes on.\<close>

fun container_loop :: "Gauge \<Rightarrow> string list \<Rightarrow> bool \<Rightarrow> bool" where
  "container_loop g [] result = result"
| "container_loop g (key # keys) result =
     container_loop g keys (if \<not> gauge_key_ok g key then False else result)"

fun IsContainerMetric :: "message \<Rightarrow> bool" where
  "IsContainerMetric (Envelope_Gauge g) = container_loop g container_keys True"
| "IsContainerMetric _ = False"

lemma container_loop_eq: "container_loop g keys result \<longleftrightarrow> result \<and> list_all (gauge_key_ok g) keys"
  by (induction keys arbitrary: result) auto

lemma IsContainerMetric_iff:
  "IsContainerMetric m \<longleftrightarrow> (\<exists>g. m = Envelope_Gauge g \<and> (\<forall>k\<in>set container_keys. gauge_key_ok g k))"
  by (cases m) (auto simp: container_loop_eq list_all_iff)

lemma IsContainerMetric_value:
  assumes "IsContainerMetric m" and "k \<in> set container_keys"
  shows "\<exists>v. gget (GetGauge m) k = Some (Some v)"
proof -
  obtain g where g: "m = Envelope_Gauge g" "gauge_key_ok g k"
    using assms by (auto simp: IsContainerMetric_iff)
  then show ?thesis by (auto simp: gauge_key_ok_def split: option.splits)
qed

section \<open>Tickers with jitter\<close>

text \<open>
  \<^verbatim>\<open>GetTickerWithJitter(s, pct)\<close>: the period of the ticker and the bound of the random wait.
  \<^verbatim>\<open>time.NewTicker\<close> panics on a period that is not positive; the returned wait function
  panics (in \<^verbatim>\<open>rand.Int63n\<close>) when its bound is not positive. The callers pass 0.1, which as
  a float64 is \<open>3602879701896397 / 2 ^ 55\<close>.
\<close>

definition f64_one :: float64 where "f64_one = Fin False 1 0"
definition f64_tenth :: float64 where "f64_tenth = Fin False 3602879701896397 (-55)"

definition nanos :: "uint32 \<Rightarrow> int" where
  "nanos s = wrap_int (uint s * 1000000000)"

definition GetTickerWithJitter :: "uint32 \<Rightarrow> float64 \<Rightarrow> (int \<times> int) outcome" where
  "GetTickerWithJitter wholeIntervalSeconds jitterPct =
     (let wholeTick = nanos wholeIntervalSeconds;
          shortenedTick = trunc_int (f64_mul (f64_of_int wholeTick) (f64_sub f64_one jitterPct));
          jitterMax = trunc_int (f64_mul (f64_of_int wholeTick) jitterPct)
      in if shortenedTick \<le> 0 then Panic else Ret (shortenedTick, jitterMax))"

text \<open>\<^verbatim>\<open>jitterWait\<close>, given the random number source's choice.\<close>

definition jitterWait :: "int \<Rightarrow> (int \<Rightarrow> int) \<Rightarrow> int outcome" where
  "jitterWait jitterMax rnd = (if jitterMax \<le> 0 then Panic else Ret (rnd jitterMax))"

lemma nanos_eq: "nanos s = uint s * 1000000000"
proof -
  have b: "0 \<le> uint s * 1000000000" "uint s * 1000000000 < 2 ^ 63"
    using uint_lt2p [of s] by simp_all
  have "- (2 ^ 63) \<le> (0 :: int)" by simp
  then have "- (2 ^ 63) \<le> uint s * 1000000000" using b(1) by (rule order_trans)
  then show ?thesis unfolding nanos_def using b(2) by (rule wrap_int_id)
qed

text \<open>
  For every positive interval neither the ticker nor the wait
  panics. Both products keep their sign and size through two roundings.
\<close>

lemma f64_mul_const_trunc:
  assumes "0 \<le> n" and "real_of_int n < 2 ^ 62" and "real c * 2 powi e \<le> 1"
    and "4 \<le> real_of_int n * (real c * 2 powi e)"
  shows "0 < trunc_int (f64_mul (f64_of_int n) (Fin False c e))"
proof -
  obtain m f where mf: "f64_of_int n = Fin False m f"
    using assms(1) f64_norm_Fin [of False "nat n" 0] by (auto simp: f64_of_int_def f64_of_nat_def)
  obtain p g where pg: "f64_mul (f64_of_int n) (Fin False c e) = Fin False p g"
    using f64_norm_Fin [of False "m * c" "f + e"] by (auto simp: mf)
  define N x y where "N = real_of_int n" and "x = f64_val (Fin False m f)" and "y = f64_val (Fin False p g)"
  define k where "k = real c * 2 powi e"
  have "f64_norm False (nat n) 0 = Fin False m f" using mf assms(1) by (simp add: f64_of_int_def f64_of_nat_def)
  then have x: "\<bar>x - N\<bar> \<le> N / 2 ^ 53"
    using f64_norm_error [of "nat n" 0] assms(1) by (simp add: x_def N_def)
  have "f64_norm False (m * c) (f + e) = Fin False p g" using pg by (simp add: mf)
  then have y: "\<bar>y - x * k\<bar> \<le> x * k / 2 ^ 53"
    using f64_norm_error [of "m * c" "f + e"] by (simp add: y_def x_def k_def power_int_add mult.assoc mult.left_commute)
  have N: "0 \<le> N" "N < 2 ^ 62" "k \<le> 1" "4 \<le> N * k" "0 \<le> k" using assms by (simp_all add: N_def k_def)
  have "N / 2 ^ 53 \<le> N / 4" using N(1) by (intro divide_left_mono) auto
  then have "N / 2 \<le> x" "x \<le> N * (5 / 4)" using x N(1) by linarith+
  then have xk: "N / 2 * k \<le> x * k" "x * k \<le> N * (5 / 4) * k" using N(5) by (simp_all only: mult_right_mono)
  have "N * (5 / 4) * k \<le> N * (5 / 4) * 1" using N(1,3) by (intro mult_left_mono) auto
  then have "x * k \<le> N * (5 / 4)" using xk by simp
  moreover have "0 \<le> x * k" using xk(1) N(4) by linarith
  then have "x * k / 2 ^ 53 \<le> x * k / 4" by (intro divide_left_mono) auto
  moreover have "2 \<le> x * k" using xk(1) N(4) by linarith
  moreover have "(2 ^ 63 :: real) = 2 * 2 ^ 62" by simp
  ultimately have "y \<ge> 1" "y < 2 ^ 63" using y N by linarith+
  then have "trunc_int (Fin False p g) = \<lfloor>y\<rfloor>" unfolding y_def by (intro trunc_int_floor) simp
  then show ?thesis using \<open>y \<ge> 1\<close> by (simp add: pg del: trunc_int.simps)
qed

lemma two_powi_53: "2 powi - 53 = (1 / 9007199254740992 :: real)"
  and two_powi_55: "2 powi - 55 = (1 / 36028797018963968 :: real)"
  by (simp_all add: power_int_def power_one_over)

lemma f64_sub_one_tenth: "f64_sub f64_one f64_tenth = Fin False 8106479329266893 (-53)"
  by (simp add: f64_one_def f64_tenth_def f64_norm_def round_half_even_def Let_def bitlen.simps)

lemma GetTickerWithJitter_no_panic:
  assumes "s \<noteq> 0"
  shows "\<exists>p j. GetTickerWithJitter s f64_tenth = Ret (p, j) \<and> 0 < p \<and> jitterWait j rnd \<noteq> Panic"
proof -
  have "uint s \<noteq> 0" "0 \<le> uint s" using assms by (simp_all add: uint_0_iff)
  moreover have "uint s < 2 ^ 32" using uint_lt2p [of s] by simp
  ultimately have "1 \<le> uint s" "uint s < 2 ^ 32" by linarith+
  then have n: "1000000000 \<le> nanos s" "nanos s < 2 ^ 32 * 1000000000" by (simp_all add: nanos_eq)
  then have "nanos s < 2 ^ 62" by simp
  then have N: "1000000000 \<le> real_of_int (nanos s)" "real_of_int (nanos s) < 2 ^ 62" using n by simp_all
  have "0 < trunc_int (f64_mul (f64_of_int (nanos s)) (Fin False 8106479329266893 (-53)))"
    using n N by (intro f64_mul_const_trunc) (auto simp: two_powi_53)
  moreover have "0 < trunc_int (f64_mul (f64_of_int (nanos s)) f64_tenth)"
    unfolding f64_tenth_def using n N by (intro f64_mul_const_trunc) (auto simp: two_powi_55)
  ultimately show ?thesis
    by (simp add: GetTickerWithJitter_def Let_def f64_sub_one_tenth jitterWait_def)
qed

lemma GetTickerWithJitter_zero: "GetTickerWithJitter 0 f64_tenth = Panic"
proof -
  have "f64_mul (f64_of_int 0) (Fin False c e) = Fin False 0 e" for c e
    by (simp add: f64_of_int_exact f64_norm_def)
  then show ?thesis by (simp add: GetTickerWithJitter_def Let_def f64_sub_one_tenth nanos_eq)
qed

end
