(* ===== verification/Formatter.thy ===== *)
theory Formatter
  imports Metric Util
begin

text \<open>
  \<^verbatim>\<open>internal/client/datadog/formatter.go\<close>: the payloads that are posted. A batch that
  is too big once compressed is split in two and each half formatted again.

  The compressor (zlib, writing to a buffer) is a parameter; it returns nothing when writing
  fails. A map of metrics is ranged over several times; \<open>rng\<close> gives the order of each loop,
  which is named by the path of the recursion that reaches it.
\<close>

section \<open>Data\<close>

record FormatData =
  fd_data :: string
  fd_nbrItems :: uint64

datatype format_error = MarshalError | CompressError

type_synonym compressor = "string \<Rightarrow> string option"

section \<open>Metrics\<close>

definition removeNANs :: "Point list \<Rightarrow> Point list" where
  "removeNANs points = filter (\<lambda>p. \<not> is_nan (pt_Value p)) points"

text \<open>
  The series of the entries. The prefix is a variable of the function: the first name of the
  health monitor clears it for the entries that come after.
\<close>

fun series_loop :: "string \<Rightarrow> MetricsMap \<Rightarrow> Series list" where
  "series_loop prefix [] = []"
| "series_loop prefix ((key, mVal) # data) =
     (let prefix = (if has_prefix (mk_Name key) ''bosh.healthmonitor'' then [] else prefix);
          tags = FilterHighCardinalityTags (mv_Tags mVal);
          name = prefix @ mk_Name key;
          points = removeNANs (mv_Points mVal);
          type = (if mv_Type mVal = [] then ''gauge'' else mv_Type mVal)
      in \<lparr>sr_Metric = name, sr_Points = points, sr_Type = type, sr_Host = mv_Host mVal,
          sr_Tags = tags, sr_Metadata = GetOriginMetadata\<rparr> # series_loop prefix data)"

definition formatMetrics :: "compressor \<Rightarrow> string \<Rightarrow> MetricsMap \<Rightarrow> format_error + string" where
  "formatMetrics compress prefix data =
     (case json_payload (series_loop prefix data) of
        None \<Rightarrow> Inl MarshalError
      | Some encodedMetric \<Rightarrow>
          (case compress encodedMetric of
             None \<Rightarrow> Inl CompressError
           | Some compressedPayload \<Rightarrow> Inr compressedPayload))"

fun split_loop :: "nat \<Rightarrow> MetricsMap \<Rightarrow> MetricsMap \<Rightarrow> MetricsMap \<Rightarrow> MetricsMap \<times> MetricsMap" where
  "split_loop n a b [] = (a, b)"
| "split_loop n a b ((k, v) # data) =
     (if length a < n div 2 then split_loop n (gput k v a) b data
      else split_loop n a (gput k v b) data)"

definition splitMetrics :: "MetricsMap \<Rightarrow> MetricsMap \<times> MetricsMap" where
  "splitMetrics data = split_loop (length data) [] [] data"

lemma split_loop_length:
  "length (fst (split_loop n a b data)) \<le> max (length a) (n div 2) \<and>
   length (fst (split_loop n a b data)) + length (snd (split_loop n a b data)) \<le> length a + length b + length data \<and>
   length a \<le> length (fst (split_loop n a b data))"
proof (induction n a b data rule: split_loop.induct)
  case (2 n a b k v data)
  have "length (gput k v m) \<le> Suc (length m)" "length m \<le> length (gput k v m)" for m :: MetricsMap
    by (simp_all add: length_gput)
  from this [of a] this [of b] 2 show ?case by (auto simp: max_def split: if_splits)
qed simp

lemma splitMetrics_shrinks:
  assumes "2 \<le> length data"
  shows "length (fst (splitMetrics data)) < length data" "length (snd (splitMetrics data)) < length data"
proof -
  obtain k v es where d: "data = (k, v) # es" using assms by (cases data) auto
  have "splitMetrics data = split_loop (length data) [(k, v)] [] es"
    using assms div_le_mono [of 2 "Suc (length es)" 2] by (auto simp: splitMetrics_def d)
  with split_loop_length [of "length data" "[(k, v)]" "[]" es] assms
  show "length (fst (splitMetrics data)) < length data" "length (snd (splitMetrics data)) < length data"
    by (auto simp: d)
qed

function FormatMetrics ::
  "compressor \<Rightarrow> (nat list \<Rightarrow> MetricsMap \<Rightarrow> MetricsMap) \<Rightarrow> string \<Rightarrow> uint32 \<Rightarrow> nat list \<Rightarrow> MetricsMap
     \<Rightarrow> FormatData list" where
  "FormatMetrics compress rng prefix maxPostBytes path data =
     (if data = [] then []
      else case formatMetrics compress prefix (range_order (rng (0 # path)) data) of
        Inl _ \<Rightarrow> []
      | Inr compressedSeriesBytes \<Rightarrow>
          if maxPostBytes < of_nat (length compressedSeriesBytes) then
            if length data = 1 then []
            else
              let metricsA = fst (splitMetrics (range_order (rng (1 # path)) data));
                  metricsB = snd (splitMetrics (range_order (rng (1 # path)) data))
              in FormatMetrics compress rng prefix maxPostBytes (2 # path) metricsA
                 @ FormatMetrics compress rng prefix maxPostBytes (3 # path) metricsB
          else [\<lparr>fd_data = compressedSeriesBytes, fd_nbrItems = of_nat (length data)\<rparr>])"
  by pat_completeness auto

lemma two_or_more: "xs \<noteq> [] \<Longrightarrow> length xs \<noteq> 1 \<Longrightarrow> 2 \<le> length xs"
  by (cases xs rule: remdups_adj.cases) auto

lemma splitMetrics_measure:
  assumes "data \<noteq> []" and "length data \<noteq> 1"
  shows "length (fst (splitMetrics (range_order r data))) < length data"
    "length (snd (splitMetrics (range_order r data))) < length data"
  using splitMetrics_shrinks [of "range_order r data"] two_or_more [OF assms] by simp_all

termination FormatMetrics
  by (relation "measure (\<lambda>(_, _, _, _, _, data). length data)") (simp_all add: splitMetrics_measure)

declare FormatMetrics.simps [simp del]

section \<open>Logs\<close>

definition formatLogs :: "compressor \<Rightarrow> LogMessage list \<Rightarrow> format_error + string" where
  "formatLogs compress data =
     (case compress (json_array (map json_log data)) of
        None \<Rightarrow> Inl CompressError
      | Some compressedPayload \<Rightarrow> Inr compressedPayload)"

definition splitLogs :: "LogMessage list \<Rightarrow> LogMessage list \<times> LogMessage list" where
  "splitLogs data = (let l = length data in (drop (l div 2) data, take (l div 2) data))"

function FormatLogs :: "compressor \<Rightarrow> uint32 \<Rightarrow> LogMessage list \<Rightarrow> FormatData list" where
  "FormatLogs compress maxPostBytes data =
     (if data = [] then []
      else case formatLogs compress data of
        Inl _ \<Rightarrow> []
      | Inr compressedLogsBytes \<Rightarrow>
          if maxPostBytes < of_nat (length compressedLogsBytes) then
            if length data = 1 then []
            else FormatLogs compress maxPostBytes (fst (splitLogs data))
                 @ FormatLogs compress maxPostBytes (snd (splitLogs data))
          else [\<lparr>fd_data = compressedLogsBytes, fd_nbrItems = of_nat (length data)\<rparr>])"
  by pat_completeness auto

lemma splitLogs_shrinks:
  assumes "2 \<le> length data"
  shows "length (fst (splitLogs data)) < length data" "length (snd (splitLogs data)) < length data"
  using assms by (simp_all add: splitLogs_def Let_def)

termination FormatLogs
  by (relation "measure (\<lambda>(_, _, data). length data)")
    (simp_all add: splitLogs_shrinks two_or_more)

declare FormatLogs.simps [simp del]

section \<open>Splitting until it fits\<close>

text \<open>
  A payload holds the items \<open>ys\<close>: it is their encoding at some point of the recursion, counts
  them, and is within the limit.
\<close>

definition payload_of ::
  "('p \<Rightarrow> 'a list \<Rightarrow> format_error + string) \<Rightarrow> uint32 \<Rightarrow> FormatData \<Rightarrow> 'a list \<Rightarrow> bool" where
  "payload_of encode limit d ys \<longleftrightarrow>
     ys \<noteq> [] \<and> (\<exists>p. encode p ys = Inr (fd_data d)) \<and> fd_nbrItems d = of_nat (length ys) \<and>
     of_nat (length (fd_data d)) \<le> limit"

text \<open>
  The contract of the two formatters: \<open>p\<close> names the point of the recursion, \<open>part_a\<close> and
  \<open>part_b\<close> are the halves of a batch.
\<close>

locale halving =
  fixes fmt :: "'p \<Rightarrow> 'a list \<Rightarrow> FormatData list"
    and encode :: "'p \<Rightarrow> 'a list \<Rightarrow> format_error + string"
    and part_a part_b :: "'p \<Rightarrow> 'a list \<Rightarrow> 'a list"
    and next_a next_b :: "'p \<Rightarrow> 'p"
    and limit :: uint32
    and ok :: "'a list \<Rightarrow> bool"
  assumes fmt_step: "fmt p xs =
      (if xs = [] then []
       else case encode p xs of
         Inl _ \<Rightarrow> []
       | Inr bytes \<Rightarrow>
           if limit < of_nat (length bytes) then
             if length xs = 1 then []
             else fmt (next_a p) (part_a p xs) @ fmt (next_b p) (part_b p xs)
           else [\<lparr>fd_data = bytes, fd_nbrItems = of_nat (length xs)\<rparr>])"
    and parts_shrink: "2 \<le> length xs \<Longrightarrow> length (part_a p xs) < length xs \<and> length (part_b p xs) < length xs"
    and parts_mset: "ok xs \<Longrightarrow> 2 \<le> length xs \<Longrightarrow> mset (part_a p xs) + mset (part_b p xs) = mset xs"
    and parts_ok: "ok xs \<Longrightarrow> 2 \<le> length xs \<Longrightarrow> ok (part_a p xs) \<and> ok (part_b p xs)"
begin

lemma fmt_single: "encode p xs = Inr b \<Longrightarrow> xs \<noteq> [] \<Longrightarrow> \<not> limit < of_nat (length b) \<Longrightarrow>
    fmt p xs = [\<lparr>fd_data = b, fd_nbrItems = of_nat (length xs)\<rparr>]"
  by (subst fmt_step) simp

lemma fmt_split: "encode p xs = Inr b \<Longrightarrow> 2 \<le> length xs \<Longrightarrow> limit < of_nat (length b) \<Longrightarrow>
    fmt p xs = fmt (next_a p) (part_a p xs) @ fmt (next_b p) (part_b p xs)"
  by (subst fmt_step) auto

text \<open>The cases of a batch: nothing is posted of it, it is one payload, or it is split.\<close>

lemma fmt_cases:
  assumes "\<And>b. encode p xs = Inr b \<Longrightarrow> xs \<noteq> [] \<Longrightarrow> of_nat (length b) \<le> limit \<Longrightarrow>
      fmt p xs = [\<lparr>fd_data = b, fd_nbrItems = of_nat (length xs)\<rparr>] \<Longrightarrow> P"
    and "2 \<le> length xs \<Longrightarrow> fmt p xs = fmt (next_a p) (part_a p xs) @ fmt (next_b p) (part_b p xs) \<Longrightarrow> P"
    and "fmt p xs = [] \<Longrightarrow> xs = [] \<or> (\<exists>e. encode p xs = Inl e) \<or>
      length xs = 1 \<and> (\<exists>b. encode p xs = Inr b \<and> limit < of_nat (length b)) \<Longrightarrow> P"
  shows P
proof (cases "xs = []")
  case True
  then show ?thesis using assms(3) fmt_step by simp
next
  case ne: False
  show ?thesis
  proof (cases "encode p xs")
    case (Inl e)
    then show ?thesis using assms(3) fmt_step [of p xs] by auto
  next
    case (Inr b)
    show ?thesis
    proof (cases "limit < of_nat (length b)")
      case True
      show ?thesis
      proof (cases "length xs = 1")
        case True
        then show ?thesis using assms(3) fmt_step [of p xs] Inr \<open>limit < _\<close> by auto
      next
        case False
        then show ?thesis using assms(2) fmt_split [OF Inr _ True] two_or_more [OF ne] by blast
      qed
    next
      case False
      then show ?thesis using assms(1) fmt_single [OF Inr ne False] Inr ne by (simp add: not_less)
    qed
  qed
qed

lemma payloads_part:
  assumes "ok xs"
  shows "\<exists>yss. list_all2 (payload_of encode limit) (fmt p xs) yss \<and> mset (concat yss) \<subseteq># mset xs"
  using assms
proof (induction "length xs" arbitrary: p xs rule: less_induct)
  case less
  show ?case
  proof (rule fmt_cases [of p xs])
    fix b assume "encode p xs = Inr b" "xs \<noteq> []" "of_nat (length b) \<le> limit"
      "fmt p xs = [\<lparr>fd_data = b, fd_nbrItems = of_nat (length xs)\<rparr>]"
    then show ?thesis by (intro exI [of _ "[xs]"]) (auto simp: payload_of_def)
  next
    assume l: "2 \<le> length xs" and eq: "fmt p xs = fmt (next_a p) (part_a p xs) @ fmt (next_b p) (part_b p xs)"
    obtain yss zss where
      "list_all2 (payload_of encode limit) (fmt (next_a p) (part_a p xs)) yss" "mset (concat yss) \<subseteq># mset (part_a p xs)"
      "list_all2 (payload_of encode limit) (fmt (next_b p) (part_b p xs)) zss" "mset (concat zss) \<subseteq># mset (part_b p xs)"
      using less parts_shrink [OF l] parts_ok [OF less.prems l] by metis
    then show ?thesis
      using eq parts_mset [OF less.prems l, of p]
      by (intro exI [of _ "yss @ zss"]) (metis concat_append list_all2_appendI mset_append subset_mset.add_mono)
  qed (auto intro: exI [of _ "[]"])
qed

text \<open>When nothing fails to encode and every item fits alone, all items are in the payloads.\<close>

lemma payloads_all:
  assumes "ok xs"
    and "\<And>q ys. ys \<noteq> [] \<Longrightarrow> mset ys \<subseteq># mset xs \<Longrightarrow>
           \<exists>b. encode q ys = Inr b \<and> (length ys = 1 \<longrightarrow> of_nat (length b) \<le> limit)"
  shows "\<exists>yss. list_all2 (payload_of encode limit) (fmt p xs) yss \<and> mset (concat yss) = mset xs"
  using assms
proof (induction "length xs" arbitrary: p xs rule: less_induct)
  case less
  show ?case
  proof (rule fmt_cases [of p xs])
    fix b assume "encode p xs = Inr b" "xs \<noteq> []" "of_nat (length b) \<le> limit"
      "fmt p xs = [\<lparr>fd_data = b, fd_nbrItems = of_nat (length xs)\<rparr>]"
    then show ?thesis by (intro exI [of _ "[xs]"]) (auto simp: payload_of_def)
  next
    assume l: "2 \<le> length xs" and eq: "fmt p xs = fmt (next_a p) (part_a p xs) @ fmt (next_b p) (part_b p xs)"
    have m: "mset (part_a p xs) + mset (part_b p xs) = mset xs" by (rule parts_mset [OF less.prems(1) l])
    then have sub: "mset (part_a p xs) \<subseteq># mset xs" "mset (part_b p xs) \<subseteq># mset xs"
      by (metis mset_subset_eq_add_left, metis mset_subset_eq_add_right)
    have "\<exists>yss. list_all2 (payload_of encode limit) (fmt (next_a p) (part_a p xs)) yss \<and> mset (concat yss) = mset (part_a p xs)"
      by (rule less.hyps) (use parts_shrink [OF l] parts_ok [OF less.prems(1) l] less.prems(2) sub in
          \<open>auto intro: subset_mset.order_trans\<close>)
    moreover have "\<exists>yss. list_all2 (payload_of encode limit) (fmt (next_b p) (part_b p xs)) yss \<and> mset (concat yss) = mset (part_b p xs)"
      by (rule less.hyps) (use parts_shrink [OF l] parts_ok [OF less.prems(1) l] less.prems(2) sub in
          \<open>auto intro: subset_mset.order_trans\<close>)
    ultimately obtain yss zss where
      "list_all2 (payload_of encode limit) (fmt (next_a p) (part_a p xs)) yss" "mset (concat yss) = mset (part_a p xs)"
      "list_all2 (payload_of encode limit) (fmt (next_b p) (part_b p xs)) zss" "mset (concat zss) = mset (part_b p xs)"
      by blast
    then show ?thesis
      using eq m by (intro exI [of _ "yss @ zss"]) (metis concat_append list_all2_appendI mset_append)
  next
    assume "fmt p xs = []" and c: "xs = [] \<or> (\<exists>e. encode p xs = Inl e) \<or>
      length xs = 1 \<and> (\<exists>b. encode p xs = Inr b \<and> limit < of_nat (length b))"
    then show ?thesis
      using less.prems(2) [of xs p] by (cases "xs = []") (auto simp: not_less)
  qed
qed

end

text \<open>The halves of a map are the first half and the rest, in the order of the loop.\<close>

lemma split_loop_wf:
  "wf_gomap (a @ b @ data) \<Longrightarrow>
   split_loop n a b data = (a @ take (n div 2 - length a) data, b @ drop (n div 2 - length a) data)"
proof (induction n a b data rule: split_loop.induct)
  case (2 n a b k v data)
  then have new: "k \<notin> fst ` set a" "k \<notin> fst ` set b" by (auto simp: wf_gomap_def)
  have "wf_gomap ((a @ [(k, v)]) @ b @ data)" "wf_gomap (a @ (b @ [(k, v)]) @ data)"
    using "2.prems" by (auto simp: wf_gomap_def)
  then show ?case
  proof (cases "length a < n div 2")
    case True
    then have "n div 2 - length a = Suc (n div 2 - Suc (length a))" by simp
    then show ?thesis
      using True new(1) "2.IH"(1) [OF True] \<open>wf_gomap ((a @ [(k, v)]) @ b @ data)\<close>
      by (simp add: gput_mset_new)
  next
    case False
    then show ?thesis
      using new(2) "2.IH"(2) [OF False] \<open>wf_gomap (a @ (b @ [(k, v)]) @ data)\<close>
      by (simp add: gput_mset_new)
  qed
qed simp

lemma splitMetrics_wf:
  "wf_gomap data \<Longrightarrow> splitMetrics data = (take (length data div 2) data, drop (length data div 2) data)"
  by (simp add: splitMetrics_def split_loop_wf)

interpretation metrics: halving "FormatMetrics compress rng prefix limit"
    "\<lambda>path data. formatMetrics compress prefix (range_order (rng (0 # path)) data)"
    "\<lambda>path data. fst (splitMetrics (range_order (rng (1 # path)) data))"
    "\<lambda>path data. snd (splitMetrics (range_order (rng (1 # path)) data))"
    "\<lambda>path. 2 # path" "\<lambda>path. 3 # path" limit wf_gomap
  for compress rng prefix limit
proof
  fix p data
  show "FormatMetrics compress rng prefix limit p data =
      (if data = [] then []
       else case formatMetrics compress prefix (range_order (rng (0 # p)) data) of
         Inl _ \<Rightarrow> []
       | Inr bytes \<Rightarrow>
           if limit < of_nat (length bytes) then
             if length data = 1 then []
             else FormatMetrics compress rng prefix limit (2 # p) (fst (splitMetrics (range_order (rng (1 # p)) data)))
               @ FormatMetrics compress rng prefix limit (3 # p) (snd (splitMetrics (range_order (rng (1 # p)) data)))
           else [\<lparr>fd_data = bytes, fd_nbrItems = of_nat (length data)\<rparr>])"
    by (subst FormatMetrics.simps) (simp only: Let_def)
next
  fix p and data :: MetricsMap assume l: "2 \<le> length data"
  then show "length (fst (splitMetrics (range_order (rng (1 # p)) data))) < length data \<and>
      length (snd (splitMetrics (range_order (rng (1 # p)) data))) < length data"
    using splitMetrics_shrinks [of "range_order (rng (1 # p)) data"] by simp
next
  fix p and data :: MetricsMap assume "wf_gomap data" "2 \<le> length data"
  then have wf: "wf_gomap (range_order (rng (1 # p)) data)" by simp
  show "mset (fst (splitMetrics (range_order (rng (1 # p)) data))) +
      mset (snd (splitMetrics (range_order (rng (1 # p)) data))) = mset data"
    by (simp only: splitMetrics_wf [OF wf] fst_conv snd_conv mset_append [symmetric]
        append_take_drop_id mset_range_order)
  show "wf_gomap (fst (splitMetrics (range_order (rng (1 # p)) data))) \<and>
      wf_gomap (snd (splitMetrics (range_order (rng (1 # p)) data)))"
    using wf by (simp only: splitMetrics_wf [OF wf]) (simp add: wf_gomap_def take_map [symmetric] drop_map [symmetric])
qed

interpretation log_messages: halving "\<lambda>_. FormatLogs compress limit" "\<lambda>_. formatLogs compress"
    "\<lambda>_ data. fst (splitLogs data)" "\<lambda>_ data. snd (splitLogs data)"
    "\<lambda>u. u" "\<lambda>u. u" limit "\<lambda>_. True" for compress limit
proof
  fix p and data :: "LogMessage list"
  show "FormatLogs compress limit data =
      (if data = [] then []
       else case formatLogs compress data of
         Inl _ \<Rightarrow> []
       | Inr bytes \<Rightarrow>
           if limit < of_nat (length bytes) then
             if length data = 1 then []
             else FormatLogs compress limit (fst (splitLogs data)) @ FormatLogs compress limit (snd (splitLogs data))
           else [\<lparr>fd_data = bytes, fd_nbrItems = of_nat (length data)\<rparr>])"
    by (subst FormatLogs.simps) (simp only:)
next
  fix p and data :: "LogMessage list" assume "2 \<le> length data"
  then show "length (fst (splitLogs data)) < length data \<and> length (snd (splitLogs data)) < length data"
    by (simp add: splitLogs_shrinks)
  show "mset (fst (splitLogs data)) + mset (snd (splitLogs data)) = mset data"
    unfolding splitLogs_def Let_def fst_conv snd_conv
    by (metis append_take_drop_id mset_append union_commute)
qed simp

section \<open>Facts\<close>

definition has_inf :: "MetricsMap \<Rightarrow> bool" where
  "has_inf data \<longleftrightarrow> (\<exists>(k, v)\<in>set data. \<exists>p\<in>set (mv_Points v). is_inf (pt_Value p))"

lemma inf_not_nan: "is_inf x \<Longrightarrow> \<not> is_nan x"
  by (cases x) simp_all

lemma series_loop_unencodable:
  "(\<exists>s\<in>set (series_loop prefix data). json_series s = None) \<longleftrightarrow> has_inf data"
proof (induction prefix data rule: series_loop.induct)
  case (2 prefix key mVal data)
  have "(\<exists>p\<in>set (removeNANs (mv_Points mVal)). is_nan (pt_Value p) \<or> is_inf (pt_Value p)) \<longleftrightarrow>
    (\<exists>p\<in>set (mv_Points mVal). is_inf (pt_Value p))"
    using inf_not_nan by (auto simp: removeNANs_def)
  with "2.IH" [OF refl refl refl refl refl] show ?case by (simp add: Let_def json_series_None_iff has_inf_def)
qed (simp add: has_inf_def)

lemma formatMetrics_marshal_error: "formatMetrics compress prefix data = Inl MarshalError \<longleftrightarrow> has_inf data"
proof -
  have "formatMetrics compress prefix data = Inl MarshalError \<longleftrightarrow> json_payload (series_loop prefix data) = None"
    by (simp add: formatMetrics_def split: option.split)
  then show ?thesis using series_loop_unencodable json_payload_None_iff by simp
qed

lemma formatMetrics_Inr:
  assumes "\<not> has_inf data" and "\<And>s. compress s \<noteq> None"
  shows "\<exists>b. formatMetrics compress prefix data = Inr b"
proof -
  obtain j where j: "json_payload (series_loop prefix data) = Some j"
    using assms(1) series_loop_unencodable json_payload_None_iff by (metis not_None_eq)
  obtain b where "compress j = Some b" using assms(2) by auto
  with j show ?thesis by (simp add: formatMetrics_def)
qed

lemma has_inf_mono: "has_inf ys \<Longrightarrow> mset ys \<subseteq># mset xs \<Longrightarrow> has_inf xs"
  using set_mset_mono [of "mset ys" "mset xs"] unfolding has_inf_def set_mset_mset by blast

lemma has_inf_range_order [simp]: "has_inf (range_order r data) \<longleftrightarrow> has_inf data"
  by (simp add: has_inf_def)

lemma range_order_single [simp]: "range_order r [x] = [x]"
  by (auto simp: range_order_def)

lemma log_payloads_all:
  assumes "\<And>s. compress s \<noteq> None"
    and "\<And>l b. l \<in> set data \<Longrightarrow> formatLogs compress [l] = Inr b \<Longrightarrow> of_nat (length b) \<le> maxPostBytes"
  shows "\<exists>yss. list_all2 (payload_of (\<lambda>_ :: unit. formatLogs compress) maxPostBytes)
      (FormatLogs compress maxPostBytes data) yss \<and> mset (concat yss) = mset data"
proof (rule log_messages.payloads_all [OF TrueI])
  fix q :: unit and ys :: "LogMessage list"
  assume ys: "ys \<noteq> []" "mset ys \<subseteq># mset data"
  obtain b where b: "formatLogs compress ys = Inr b"
    using assms(1) [of "json_array (map json_log ys)"] by (auto simp: formatLogs_def)
  moreover have "of_nat (length b) \<le> maxPostBytes" if "length ys = 1"
  proof -
    from that obtain l where l: "ys = [l]" by (metis length_0_conv length_Suc_conv One_nat_def)
    then have "l \<in> set data" using set_mset_mono [OF ys(2)] by simp
    with assms(2) b l show ?thesis by simp
  qed
  ultimately show "\<exists>b. formatLogs compress ys = Inr b \<and> (length ys = 1 \<longrightarrow> of_nat (length b) \<le> maxPostBytes)"
    by blast
qed

section \<open>The component's properties\<close>

text \<open>
  C18: The payloads of a batch of metrics, whatever the order of the loops: each holds at
  least one entry of the batch, is its encoding, carries the number of its entries and, once
  compressed, is at most the limit (as a 32-bit length); no entry is in two payloads.
\<close>

theorem FormatMetrics_payloads:
  assumes "wf_gomap data"
  shows "\<exists>yss. list_all2 (payload_of (\<lambda>p m. formatMetrics compress prefix (range_order (rng (0 # p)) m)) maxPostBytes)
      (FormatMetrics compress rng prefix maxPostBytes path data) yss \<and> mset (concat yss) \<subseteq># mset data"
  by (rule metrics.payloads_part) (rule assms)

definition key1 :: MetricKey where "key1 = \<lparr>mk_Name = ''a'', mk_TagsHash = []\<rparr>"
definition key2 :: MetricKey where "key2 = \<lparr>mk_Name = ''b'', mk_TagsHash = []\<rparr>"
definition one_point :: MetricValue where
  "one_point = \<lparr>mv_Tags = [], mv_Points = [\<lparr>pt_Timestamp = 1, pt_Value = f64_of_int 2\<rparr>], mv_Host = [], mv_Type = []\<rparr>"

definition two_metrics :: MetricsMap where
  "two_metrics = [(key1, one_point), (key2, one_point)]"

lemma wf_two_metrics: "wf_gomap two_metrics"
  by (simp add: wf_gomap_def two_metrics_def key1_def key2_def)

theorem FormatMetrics_payloads_witness:
  "\<exists>yss. list_all2 (payload_of (\<lambda>(p :: nat list) m. formatMetrics Some ''p.'' (range_order rev m)) 200)
      (FormatMetrics Some (\<lambda>_. rev) ''p.'' 200 [] two_metrics) yss \<and> mset (concat yss) \<subseteq># mset two_metrics"
  using FormatMetrics_payloads [OF wf_two_metrics, where compress = Some and prefix = "''p.''"
      and rng = "\<lambda>_. rev" and maxPostBytes = 200 and path = "[]"] .

text \<open>If each entry fits alone, no entry is lost.\<close>

lemma FormatMetrics_all:
  assumes "wf_gomap data" and "\<And>s. compress s \<noteq> None"
    and "\<forall>(k, v)\<in>set data. \<forall>p\<in>set (mv_Points v). \<not> is_inf (pt_Value p)"
    and "\<And>e b. e \<in> set data \<Longrightarrow> formatMetrics compress prefix [e] = Inr b \<Longrightarrow> of_nat (length b) \<le> maxPostBytes"
  shows "\<exists>yss. list_all2 (payload_of (\<lambda>p m. formatMetrics compress prefix (range_order (rng (0 # p)) m)) maxPostBytes)
      (FormatMetrics compress rng prefix maxPostBytes path data) yss \<and> mset (concat yss) = mset data"
proof (rule metrics.payloads_all [OF assms(1)])
  fix q and ys :: MetricsMap
  assume ys: "ys \<noteq> []" "mset ys \<subseteq># mset data"
  have ninf: "\<not> has_inf ys" using assms(3) has_inf_mono [OF _ ys(2)] by (auto simp: has_inf_def)
  obtain b where b: "formatMetrics compress prefix (range_order (rng (0 # q)) ys) = Inr b"
    using formatMetrics_Inr [of "range_order (rng (0 # q)) ys" compress prefix] ninf assms(2) by auto
  moreover have "of_nat (length b) \<le> maxPostBytes" if "length ys = 1"
  proof -
    from that obtain k v where e: "ys = [(k, v)]" by (auto simp: length_Suc_conv)
    then have "(k, v) \<in> set data" using set_mset_mono [OF ys(2)] by simp
    with assms(4) b e show ?thesis by simp
  qed
  ultimately show "\<exists>b. formatMetrics compress prefix (range_order (rng (0 # q)) ys) = Inr b \<and>
      (length ys = 1 \<longrightarrow> of_nat (length b) \<le> maxPostBytes)" by blast
qed

section \<open>What a payload carries\<close>

text \<open>
  The text of a payload, in its own words: a series for each entry, with the points that are numbers in their
  order, each as its time stamp and its value with six decimals, and the tags that are not of high cardinality.
\<close>

definition series_text :: "string \<Rightarrow> MetricValue \<Rightarrow> string" where
  "series_text name v =
     (let points = map (\<lambda>p. ''['' @ itoa (pt_Timestamp p) @ '','' @ fmt_f (pt_Value p) @ '']'')
            (filter (\<lambda>p. \<not> is_nan (pt_Value p)) (mv_Points v));
          tags = filter (\<lambda>t. \<not> contains t ''created_at'' \<and> \<not> contains t ''user_data'') (mv_Tags v)
      in json_object (
          [(''metric'', json_string name), (''points'', if points = [] then ''null'' else json_array points),
           (''type'', json_string (if mv_Type v = [] then ''gauge'' else mv_Type v))]
          @ (if mv_Host v = [] then [] else [(''host'', json_string (mv_Host v))])
          @ (if tags = [] then [] else [(''tags'', json_array (map json_string tags))])
          @ [(''metadata'', json_origin GetOriginMetadata)]))"

definition payload_text :: "(string \<times> MetricValue) list \<Rightarrow> string" where
  "payload_text es = json_object [(''series'', json_array (map (\<lambda>(name, v). series_text name v) es))]"

text \<open>
  The name of an entry has the prefix, unless it is of the health monitor; beside such an entry it may lose it.
\<close>

definition posted_name :: "string \<Rightarrow> MetricsMap \<Rightarrow> string \<Rightarrow> MetricKey \<times> MetricValue \<Rightarrow> bool" where
  "posted_name prefix es name e \<longleftrightarrow>
     (let bosh = (\<lambda>e. has_prefix (mk_Name (fst e)) ''bosh.healthmonitor'')
      in if bosh e then name = mk_Name (fst e)
         else name = prefix @ mk_Name (fst e) \<or> (\<exists>e'\<in>set es. bosh e') \<and> name = mk_Name (fst e))"

text \<open>A payload that carries the entries \<open>es\<close>: it is their compressed text, and counts them.\<close>

definition carries :: "compressor \<Rightarrow> string \<Rightarrow> FormatData \<Rightarrow> MetricsMap \<Rightarrow> bool" where
  "carries compress prefix d es \<longleftrightarrow> fd_nbrItems d = of_nat (length es) \<and>
     (\<exists>names. list_all2 (posted_name prefix es) names es \<and>
        compress (payload_text (zip names (map snd es))) = Some (fd_data d))"

lemma json_all_Some: "json_all f xs = Some ys \<Longrightarrow> list_all2 (\<lambda>x y. f x = Some y) xs ys"
  by (induction xs arbitrary: ys) (auto split: option.splits)

lemma json_all_points:
  "json_all json_point ps = Some js \<Longrightarrow> js = map (\<lambda>p. ''['' @ itoa (pt_Timestamp p) @ '','' @ fmt_f (pt_Value p) @ '']'') ps"
  by (induction ps arbitrary: js) (auto simp: json_point_def split: option.splits if_splits)

definition series_for :: "string \<Rightarrow> MetricValue \<Rightarrow> Series" where
  "series_for name v = \<lparr>sr_Metric = name, sr_Points = removeNANs (mv_Points v),
     sr_Type = (if mv_Type v = [] then ''gauge'' else mv_Type v), sr_Host = mv_Host v,
     sr_Tags = FilterHighCardinalityTags (mv_Tags v), sr_Metadata = GetOriginMetadata\<rparr>"

lemma series_for_text:
  assumes "json_series (series_for name v) = Some t"
  shows "t = series_text name v"
proof -
  obtain ps where ps: "json_all json_point (removeNANs (mv_Points v)) = Some ps"
    using assms by (auto simp: json_series_def series_for_def split: option.splits)
  note eq = json_all_points [OF ps]
  have "json_series (series_for name v) = Some (series_text name v)"
    unfolding json_series_def series_for_def series_text_def Let_def
    by (simp add: ps) (simp add: eq removeNANs_def FilterHighCardinalityTags_eq)
  with assms show ?thesis by simp
qed

lemma series_texts:
  "list_all2 (\<lambda>x y. json_series x = Some y) (map (\<lambda>(name, v). series_for name v) es) js \<Longrightarrow>
   js = map (\<lambda>(name, v). series_text name v) es"
  by (induction es arbitrary: js) (auto simp: list_all2_Cons1 series_for_text)

lemma series_loop_names_ok:
  assumes "prefix' = prefix \<or> prefix' = [] \<and> (\<exists>e\<in>set es0. has_prefix (mk_Name (fst e)) ''bosh.healthmonitor'')"
  shows "\<exists>names. series_loop prefix' es = map2 series_for names (map snd es) \<and>
    list_all2 (posted_name prefix (es0 @ es)) names es"
  using assms
proof (induction prefix' es arbitrary: es0 rule: series_loop.induct)
  case (1 prefix')
  show ?case by simp
next
  case (2 prefix' key mVal data)
  let ?b = "has_prefix (mk_Name key) ''bosh.healthmonitor''"
  let ?p = "if ?b then [] else prefix'"
  have "?p = prefix \<or> ?p = [] \<and> (\<exists>e\<in>set (es0 @ [(key, mVal)]). has_prefix (mk_Name (fst e)) ''bosh.healthmonitor'')"
    using "2.prems" by auto
  from "2.IH" [OF refl refl refl refl refl this] obtain names where
    n: "series_loop ?p data = map2 series_for names (map snd data)"
    "list_all2 (posted_name prefix (es0 @ (key, mVal) # data)) names data" by auto
  have "posted_name prefix (es0 @ (key, mVal) # data) (?p @ mk_Name key) (key, mVal)"
    using "2.prems" by (auto simp: posted_name_def Let_def)
  with n show ?case
    by (intro exI [of _ "(?p @ mk_Name key) # names"]) (simp add: Let_def series_for_def)
qed

lemma formatMetrics_carries:
  assumes "formatMetrics compress prefix es = Inr (fd_data d)" and "fd_nbrItems d = of_nat (length es)"
  shows "carries compress prefix d es"
proof -
  obtain names where n: "series_loop prefix es = map2 series_for names (map snd es)"
    "list_all2 (posted_name prefix es) names es"
    using series_loop_names_ok [of prefix prefix "[]" es] by auto
  obtain js where js: "json_all json_series (series_loop prefix es) = Some js"
    and c: "compress (json_object [(''series'', json_array js)]) = Some (fd_data d)"
    using assms(1) by (auto simp: formatMetrics_def json_payload_def split: option.splits)
  have "js = map2 series_text names (map snd es)"
    using json_all_Some [OF js] unfolding n(1) by (rule series_texts)
  with n(2) c assms(2) show ?thesis by (auto simp: carries_def payload_text_def)
qed

lemma FormatMetrics_carries:
  assumes "wf_gomap data" and "\<And>s. compress s \<noteq> None"
    and "\<forall>(k, v)\<in>set data. \<forall>p\<in>set (mv_Points v). \<not> is_inf (pt_Value p)"
    and "\<And>e b. e \<in> set data \<Longrightarrow> formatMetrics compress prefix [e] = Inr b \<Longrightarrow> of_nat (length b) \<le> limit"
  shows "\<exists>ess. list_all2 (\<lambda>d es. carries compress prefix d es \<and> of_nat (length (fd_data d)) \<le> limit)
      (FormatMetrics compress rng prefix limit path data) ess \<and> mset (concat ess) = mset data"
proof -
  let ?c = "\<lambda>d es. carries compress prefix d es \<and> of_nat (length (fd_data d)) \<le> limit"
  have one: "\<exists>es. ?c d es \<and> mset es = mset ys"
    if p: "payload_of (\<lambda>p m. formatMetrics compress prefix (range_order (rng (0 # p)) m)) limit d ys" for d ys
  proof -
    obtain q where "formatMetrics compress prefix (range_order (rng (0 # q)) ys) = Inr (fd_data d)"
      "fd_nbrItems d = of_nat (length ys)" "of_nat (length (fd_data d)) \<le> limit"
      using p unfolding payload_of_def by blast
    then show ?thesis
      using formatMetrics_carries [of compress prefix "range_order (rng (0 # q)) ys" d]
      by (intro exI [of _ "range_order (rng (0 # q)) ys"]) simp
  qed
  have lift: "\<exists>ess. list_all2 ?c ds ess \<and> mset (concat ess) = mset (concat yss)"
    if "list_all2 (payload_of (\<lambda>p m. formatMetrics compress prefix (range_order (rng (0 # p)) m)) limit) ds yss" for ds yss
    using that
  proof (induction ds yss rule: list_all2_induct)
    case (Cons d ds ys yss)
    from one [OF Cons.hyps(1)] obtain es where es: "?c d es" "mset es = mset ys" by blast
    from Cons.IH obtain ess where ess: "list_all2 ?c ds ess" "mset (concat ess) = mset (concat yss)" by blast
    show ?case by (intro exI [of _ "es # ess"]) (use es ess in simp)
  qed simp
  obtain yss where
    yss: "list_all2 (payload_of (\<lambda>p m. formatMetrics compress prefix (range_order (rng (0 # p)) m)) limit)
      (FormatMetrics compress rng prefix limit path data) yss" "mset (concat yss) = mset data"
    using FormatMetrics_all [where compress = compress and prefix = prefix and maxPostBytes = limit and rng = rng and path = path,
        OF assms(1)] assms(2-4) by blast
  from lift [OF yss(1)] yss(2) show ?thesis by simp
qed

section \<open>Complete batches\<close>

text \<open>
  C1: No metric is lost by splitting: if compressing does not fail, no point is infinite, and
  every entry, formatted alone, is within the limit, then the payloads hold every entry of the
  batch, each exactly once.
\<close>

theorem FormatMetrics_complete:
  assumes "wf_gomap data" and "\<And>s. compress s \<noteq> None"
    and "\<forall>(k, v)\<in>set data. \<forall>p\<in>set (mv_Points v). \<not> is_inf (pt_Value p)"
    and "\<And>e b. e \<in> set data \<Longrightarrow> formatMetrics compress prefix [e] = Inr b \<Longrightarrow> of_nat (length b) \<le> maxPostBytes"
  shows "\<exists>yss. list_all2 (payload_of (\<lambda>p m. formatMetrics compress prefix (range_order (rng (0 # p)) m)) maxPostBytes)
      (FormatMetrics compress rng prefix maxPostBytes path data) yss \<and> mset (concat yss) = mset data"
  by (rule FormatMetrics_all [OF assms])

text \<open>The witness takes a compressor that gives two bytes.\<close>

theorem FormatMetrics_complete_witness:
  "\<exists>yss. list_all2 (payload_of (\<lambda>(p :: nat list) m. formatMetrics (\<lambda>_. Some ''xy'') ''p.'' (range_order rev m)) 2)
      (FormatMetrics (\<lambda>_. Some ''xy'') (\<lambda>_. rev) ''p.'' 2 [] two_metrics) yss \<and>
     mset (concat yss) = mset two_metrics"
  by (rule FormatMetrics_complete [OF wf_two_metrics, where compress = "\<lambda>_. Some ''xy''" and prefix = "''p.''"
      and rng = "\<lambda>_. rev" and maxPostBytes = 2 and path = "[]"])
    (auto simp: two_metrics_def one_point_def f64_of_int_def formatMetrics_def f64_of_nat_def f64_norm_def
       split: option.splits)

text \<open>
  The prefix of the metric names: a name is prefixed exactly when it and all the entries that
  the loop visits before it do not start with \<^verbatim>\<open>bosh.healthmonitor\<close>. The name a metric is posted
  under so depends on the order in which the map is visited.
\<close>

lemma series_loop_names:
  "map sr_Metric (series_loop prefix data) =
     map (\<lambda>(k, _). prefix @ mk_Name k) (takeWhile (\<lambda>(k, _). \<not> has_prefix (mk_Name k) ''bosh.healthmonitor'') data) @
     map (\<lambda>(k, _). mk_Name k) (dropWhile (\<lambda>(k, _). \<not> has_prefix (mk_Name k) ''bosh.healthmonitor'') data)"
proof -
  have unprefixed: "map sr_Metric (series_loop [] es) = map (\<lambda>(k, _). mk_Name k) es" for es
    by (induction es) (auto simp: Let_def)
  show ?thesis
    by (induction data) (auto simp: Let_def unprefixed)
qed

text \<open>
  C40: One infinite point spoils its batch: the batch cannot be encoded, so that nothing of it is
  posted, whatever else it holds. Points that are not a number do not: they are left out.
\<close>

theorem FormatMetrics_infinite:
  "(formatMetrics compress prefix data = Inl MarshalError \<longleftrightarrow>
      (\<exists>(k, v)\<in>set data. \<exists>p\<in>set (mv_Points v). is_inf (pt_Value p))) \<and>
   ((\<exists>(k, v)\<in>set data. \<exists>p\<in>set (mv_Points v). is_inf (pt_Value p)) \<longrightarrow>
      FormatMetrics compress rng prefix maxPostBytes path data = [])"
proof (intro conjI impI)
  show "formatMetrics compress prefix data = Inl MarshalError \<longleftrightarrow>
      (\<exists>(k, v)\<in>set data. \<exists>p\<in>set (mv_Points v). is_inf (pt_Value p))"
    using formatMetrics_marshal_error by (simp add: has_inf_def)
next
  assume "\<exists>(k, v)\<in>set data. \<exists>p\<in>set (mv_Points v). is_inf (pt_Value p)"
  then have "has_inf (range_order (rng (0 # path)) data)" by (simp add: has_inf_def)
  then have "formatMetrics compress prefix (range_order (rng (0 # path)) data) = Inl MarshalError"
    by (simp add: formatMetrics_marshal_error)
  then show "FormatMetrics compress rng prefix maxPostBytes path data = []"
    by (subst FormatMetrics.simps) simp
qed

definition inf_metrics :: MetricsMap where
  "inf_metrics = [(key1, one_point), (key2, one_point\<lparr>mv_Points := [\<lparr>pt_Timestamp = 1, pt_Value = Inf False\<rparr>]\<rparr>)]"

theorem FormatMetrics_infinite_witness: "FormatMetrics Some (\<lambda>_. rev) ''p.'' 4096 [] inf_metrics = []"
  by (rule FormatMetrics_infinite [THEN conjunct2, THEN mp]) (simp add: inf_metrics_def)

text \<open>
  C19: The payloads of a batch of logs: each is the encoding of at least one log, carries the number
  of its logs and is at most the limit; and when compressing does not fail and every log fits
  alone, every log of the batch is in exactly one payload.
\<close>

theorem FormatLogs_complete:
  assumes "\<And>s. compress s \<noteq> None"
    and "\<And>l b. l \<in> set data \<Longrightarrow> formatLogs compress [l] = Inr b \<Longrightarrow> of_nat (length b) \<le> maxPostBytes"
  shows "\<exists>yss. list_all2 (payload_of (\<lambda>_ :: unit. formatLogs compress) maxPostBytes)
      (FormatLogs compress maxPostBytes data) yss \<and> mset (concat yss) = mset data"
  by (rule log_payloads_all) (use assms in auto)

theorem FormatLogs_complete_witness:
  "\<exists>yss. list_all2 (payload_of (\<lambda>_ :: unit. formatLogs (\<lambda>_. Some ''xy'')) 2)
      (FormatLogs (\<lambda>_. Some ''xy'') 2 [empty_LogMessage, empty_LogMessage]) yss \<and>
     mset (concat yss) = mset [empty_LogMessage, empty_LogMessage]"
  by (rule FormatLogs_complete) (auto simp: formatLogs_def)

end
