(* ===== verification/Bosh_Tags.thy ===== *)
theory Bosh_Tags
  imports Util
begin

text \<open>
  \<^verbatim>\<open>internal/tags/bosh_tags.go\<close>: the BOSH tags and the host name that the nozzle derives from
  an envelope when the logs are not enriched after ingestion.
\<close>

section \<open>Data\<close>

record BoshTagsConfig =
  bt_Enabled :: bool
  bt_FriendlyHostname :: bool
  bt_UniqueFriendlyHostname :: bool
  bt_FriendlyHostnameAppendGUID :: bool
  bt_UseUUIDHostname :: bool

record EnvelopeMetadata =
  em_ID :: string
  em_Job :: string
  em_Index :: string
  em_AZ :: string
  em_Deployment :: string
  em_Address :: string
  em_IP :: string

section \<open>Operations\<close>

definition ExtractMetadataFromEnvelope :: "Envelope \<Rightarrow> EnvelopeMetadata" where
  "ExtractMetadataFromEnvelope envelope =
     (let t = ev_Tags envelope in
      \<lparr>em_ID = gget_str t ''index'', em_Job = gget_str t ''job'', em_Index = ev_InstanceId envelope,
       em_AZ = gget_str t ''az'', em_Deployment = gget_str t ''deployment'',
       em_Address = gget_str t ''address'', em_IP = gget_str t ''ip''\<rparr>)"

definition tag :: "string \<Rightarrow> string \<Rightarrow> string" where
  "tag key value = key @ '':'' @ value"

definition GenerateBoshTags :: "BoshTagsConfig \<Rightarrow> EnvelopeMetadata \<Rightarrow> string list" where
  "GenerateBoshTags config meta =
     (if bt_Enabled config then
        (if em_ID meta \<noteq> [] then [tag ''bosh_id'' (em_ID meta)] else [])
        @ (if em_Job meta \<noteq> [] then [tag ''bosh_job'' (em_Job meta), tag ''bosh_name'' (em_Job meta)] else [])
        @ (if em_Index meta \<noteq> [] then [tag ''bosh_index'' (em_Index meta)] else [])
        @ (if em_AZ meta \<noteq> [] then [tag ''bosh_az'' (em_AZ meta)] else [])
        @ (if em_Deployment meta \<noteq> [] then [tag ''bosh_deployment'' (em_Deployment meta)] else [])
        @ (if em_Address meta \<noteq> [] then [tag ''bosh_address'' (em_Address meta)] else [])
        @ (if em_IP meta \<noteq> [] then [tag ''bosh_ip'' (em_IP meta)] else [])
      else [])
     @ (if em_Deployment meta \<noteq> [] then
          (if \<not> bt_Enabled config then [tag ''bosh_deployment'' (em_Deployment meta)] else [])
          @ [tag ''deployment'' (em_Deployment meta)]
        else [])"

definition hyphenated :: "string \<Rightarrow> string \<Rightarrow> string" where
  "hyphenated a b = a @ ''-'' @ b"

definition GenerateHostname :: "BoshTagsConfig \<Rightarrow> EnvelopeMetadata \<Rightarrow> string" where
  "GenerateHostname config meta =
     (let hostname =
        (if bt_UseUUIDHostname config \<and> em_ID meta \<noteq> [] then em_ID meta
         else if bt_FriendlyHostname config then
           (let h0 = hyphenated (em_Job meta) (em_Index meta);
                h1 = (if bt_UniqueFriendlyHostname config then hyphenated h0 (em_Deployment meta) else h0)
            in if bt_FriendlyHostnameAppendGUID config \<and> em_ID meta \<noteq> []
               then hyphenated h1 (em_ID meta) else h1)
         else hyphenated (em_Job meta) (em_Index meta))
      in replace_char (CHR ''_'') (CHR ''-'') hostname)"

section \<open>Properties\<close>

lemma tag_has_colon: "CHR '':'' \<in> set (tag k v)"
  by (simp add: tag_def)

lemma GenerateBoshTags_deployment_iff:
  "tag ''bosh_deployment'' d \<in> set (GenerateBoshTags config meta) \<and>
   tag ''deployment'' d \<in> set (GenerateBoshTags config meta) \<longleftrightarrow> d \<noteq> [] \<and> em_Deployment meta = d"
  by (auto simp: GenerateBoshTags_def tag_def)

text \<open>The deployment tags are there once, whether or not the feature is enabled.\<close>

lemma GenerateBoshTags_deployment_once:
  "count_list (GenerateBoshTags config meta) (tag ''bosh_deployment'' d) \<le> 1"
  by (simp add: GenerateBoshTags_def tag_def)

lemma GenerateBoshTags_disabled:
  "\<not> bt_Enabled config \<Longrightarrow> GenerateBoshTags config meta =
     (if em_Deployment meta = [] then []
      else [tag ''bosh_deployment'' (em_Deployment meta), tag ''deployment'' (em_Deployment meta)])"
  by (simp add: GenerateBoshTags_def)

text \<open>What the tags say about a key is exactly what the metadata say.\<close>

definition bosh_fields :: "(string \<times> (EnvelopeMetadata \<Rightarrow> string)) list" where
  "bosh_fields = [(''bosh_id'', em_ID), (''bosh_job'', em_Job), (''bosh_name'', em_Job),
     (''bosh_index'', em_Index), (''bosh_az'', em_AZ), (''bosh_deployment'', em_Deployment),
     (''bosh_address'', em_Address), (''bosh_ip'', em_IP), (''deployment'', em_Deployment)]"

lemma GenerateBoshTags_enabled:
  "bt_Enabled config \<Longrightarrow> GenerateBoshTags config meta =
     map (\<lambda>(k, f). tag k (f meta)) (filter (\<lambda>(k, f). f meta \<noteq> []) bosh_fields)"
  by (simp add: GenerateBoshTags_def bosh_fields_def)

lemma GenerateHostname_no_underscore: "CHR ''_'' \<notin> set (GenerateHostname config meta)"
  by (auto simp: GenerateHostname_def replace_char_def Let_def)

lemma GenerateHostname_nonempty: "GenerateHostname config meta \<noteq> []"
  by (simp add: GenerateHostname_def replace_char_def hyphenated_def Let_def)

lemma GenerateHostname_uuid:
  "bt_UseUUIDHostname config \<Longrightarrow> em_ID meta \<noteq> [] \<Longrightarrow>
     GenerateHostname config meta = replace_char (CHR ''_'') (CHR ''-'') (em_ID meta)"
  by (simp add: GenerateHostname_def)

text \<open>
  With neither option that adds the deployment or the id, two machines with the same job
  and index get the same host name, whatever their deployments.
\<close>

lemma GenerateHostname_friendly:
  assumes "\<not> bt_UseUUIDHostname config" and "\<not> bt_UniqueFriendlyHostname config"
    and "\<not> bt_FriendlyHostnameAppendGUID config"
  shows "GenerateHostname config meta =
    replace_char (CHR ''_'') (CHR ''-'') (hyphenated (em_Job meta) (em_Index meta))"
  using assms by (simp add: GenerateHostname_def Let_def)

end
