(* ===== verification/Config.thy ===== *)
theory Config
  imports Bosh_Tags
begin

text \<open>
  \<^verbatim>\<open>internal/config/config.go\<close>: the configuration, its reading from a file and the environment,
  and the form of it that is logged.

  The file's bytes, the JSON decoder's result, the environment and the compiler of regular
  expressions are arguments. A compiled expression is the predicate "matches".
\<close>

section \<open>Data\<close>

record Config =
  cfg_UAAURL :: string
  cfg_Client :: string
  cfg_ClientSecret :: string
  cfg_RLPGatewayURL :: string
  cfg_FirehoseSubscriptionID :: string
  cfg_DataDogURL :: string
  cfg_DataDogLogIntakeURL :: string
  cfg_DataDogAPIKey :: string
  cfg_DataDogAdditionalEndpoints :: "(string, string list option) gomap option"
  cfg_DataDogAdditionalLogIntakeEndpoints :: "string list"
  cfg_HTTPProxyURL :: string
  cfg_HTTPSProxyURL :: string
  cfg_NoProxy :: "string list"
  cfg_CloudControllerEndpoint :: string
  cfg_CloudControllerAPIBatchSize :: uint32
  cfg_DataDogTimeoutSeconds :: uint32
  cfg_FlushDurationSeconds :: uint32
  cfg_FlushMaxBytes :: uint32
  cfg_InsecureSSLSkipVerify :: bool
  cfg_MetricPrefix :: string
  cfg_Deployment :: string
  cfg_DeploymentFilter :: string
  cfg_DisableAccessControl :: bool
  cfg_IdleTimeoutSeconds :: uint32
  cfg_AppMetrics :: bool
  cfg_NumWorkers :: int
  cfg_NumCacheWorkers :: int
  cfg_GrabInterval :: int
  cfg_CustomTags :: "string list"
  cfg_EnvironmentName :: string
  cfg_WorkerTimeoutSeconds :: uint32
  cfg_OrgDataCollectionInterval :: uint32
  cfg_EnableMetadataCollection :: bool
  cfg_EnableAdvancedTagging :: bool
  cfg_EnableApplicationLogs :: bool
  cfg_EnableMetadataAppMetricsPrefix :: bool
  cfg_MetadataKeysWhitelistPatterns :: "string list"
  cfg_MetadataKeysBlacklistPatterns :: "string list"
  cfg_MetadataKeysWhitelist :: "(string \<Rightarrow> bool) list"
  cfg_MetadataKeysBlacklist :: "(string \<Rightarrow> bool) list"
  cfg_DCAEnabled :: bool
  cfg_DCAUrl :: string
  cfg_DCAToken :: string
  cfg_BoshTagsConfig :: BoshTagsConfig

text \<open>The zero value of the struct.\<close>

definition zero_Config :: Config where
  "zero_Config = \<lparr>cfg_UAAURL = [], cfg_Client = [], cfg_ClientSecret = [], cfg_RLPGatewayURL = [],
     cfg_FirehoseSubscriptionID = [], cfg_DataDogURL = [], cfg_DataDogLogIntakeURL = [],
     cfg_DataDogAPIKey = [], cfg_DataDogAdditionalEndpoints = None,
     cfg_DataDogAdditionalLogIntakeEndpoints = [], cfg_HTTPProxyURL = [], cfg_HTTPSProxyURL = [],
     cfg_NoProxy = [], cfg_CloudControllerEndpoint = [], cfg_CloudControllerAPIBatchSize = 0,
     cfg_DataDogTimeoutSeconds = 0, cfg_FlushDurationSeconds = 0, cfg_FlushMaxBytes = 0,
     cfg_InsecureSSLSkipVerify = False, cfg_MetricPrefix = [], cfg_Deployment = [],
     cfg_DeploymentFilter = [], cfg_DisableAccessControl = False, cfg_IdleTimeoutSeconds = 0,
     cfg_AppMetrics = False, cfg_NumWorkers = 0, cfg_NumCacheWorkers = 0, cfg_GrabInterval = 0,
     cfg_CustomTags = [], cfg_EnvironmentName = [], cfg_WorkerTimeoutSeconds = 0,
     cfg_OrgDataCollectionInterval = 0, cfg_EnableMetadataCollection = False,
     cfg_EnableAdvancedTagging = False, cfg_EnableApplicationLogs = False,
     cfg_EnableMetadataAppMetricsPrefix = False, cfg_MetadataKeysWhitelistPatterns = [],
     cfg_MetadataKeysBlacklistPatterns = [], cfg_MetadataKeysWhitelist = [],
     cfg_MetadataKeysBlacklist = [], cfg_DCAEnabled = False, cfg_DCAUrl = [], cfg_DCAToken = [],
     cfg_BoshTagsConfig = \<lparr>bt_Enabled = False, bt_FriendlyHostname = False,
       bt_UniqueFriendlyHostname = False, bt_FriendlyHostnameAppendGUID = False,
       bt_UseUUIDHostname = False\<rparr>\<rparr>"

datatype config_error =
    CannotRead
  | CannotParse
  | BadWhitelistPattern string
  | BadBlacklistPattern string
  | BadBatchSize

section \<open>Overriding one setting from the environment\<close>

type_synonym env = "string \<Rightarrow> string"

definition overrideWithEnvVar :: "env \<Rightarrow> string \<Rightarrow> string \<Rightarrow> string outcome" where
  "overrideWithEnvVar getenv name value =
     (let envValue = getenv name in if envValue \<noteq> [] then Ret envValue else Ret value)"

definition overrideWithEnvUint32 :: "env \<Rightarrow> string \<Rightarrow> uint32 \<Rightarrow> uint32 outcome" where
  "overrideWithEnvUint32 getenv name value =
     (let envValue = getenv name in
      if envValue \<noteq> [] then
        (case atoi envValue of None \<Rightarrow> Panic | Some tmpValue \<Rightarrow> Ret (word_of_int tmpValue))
      else Ret value)"

definition overrideWithEnvInt :: "env \<Rightarrow> string \<Rightarrow> int \<Rightarrow> int outcome" where
  "overrideWithEnvInt getenv name value =
     (let envValue = getenv name in
      if envValue \<noteq> [] then
        (case atoi envValue of None \<Rightarrow> Panic | Some tmpValue \<Rightarrow> Ret tmpValue)
      else Ret value)"

definition overrideWithEnvBool :: "env \<Rightarrow> string \<Rightarrow> bool \<Rightarrow> bool outcome" where
  "overrideWithEnvBool getenv name value =
     (let envValue = getenv name in
      if envValue \<noteq> [] then
        (case parse_bool envValue of None \<Rightarrow> Panic | Some b \<Rightarrow> Ret b)
      else Ret value)"

definition overrideWithEnvSliceStrings :: "env \<Rightarrow> string \<Rightarrow> string list \<Rightarrow> string list outcome" where
  "overrideWithEnvSliceStrings getenv name value =
     (let envValue = getenv name in
      if envValue \<noteq> [] then Ret (split_char (CHR '','') envValue) else Ret value)"

text \<open>
  The contract the five functions share: an unset variable leaves the value alone, a set one
  replaces it by its decoded text, whatever it was, and panics when the text does not decode.
\<close>

locale env_override =
  fixes override :: "env \<Rightarrow> string \<Rightarrow> 'a \<Rightarrow> 'a outcome"
    and decode :: "string \<Rightarrow> 'a option"
  assumes unset: "getenv name = [] \<Longrightarrow> override getenv name v = Ret v"
    and set: "getenv name \<noteq> [] \<Longrightarrow>
      override getenv name v = (case decode (getenv name) of None \<Rightarrow> Panic | Some x \<Rightarrow> Ret x)"
begin

lemma panic_iff:
  "override getenv name v = Panic \<longleftrightarrow> getenv name \<noteq> [] \<and> decode (getenv name) = None"
  by (cases "getenv name = []") (auto simp: unset set split: option.splits)

lemma set_wins: "getenv name \<noteq> [] \<Longrightarrow> override getenv name v = override getenv name v'"
  by (simp add: set)

lemma again: "override getenv name v = Ret w \<Longrightarrow> override getenv name w = Ret w"
  by (cases "getenv name = []") (auto simp: unset set)

lemma Ret_cases:
  "override getenv name v = Ret w \<Longrightarrow>
     getenv name = [] \<and> w = v \<or> getenv name \<noteq> [] \<and> decode (getenv name) = Some w"
  by (cases "getenv name = []") (auto simp: unset set split: option.splits)

lemma no_env: "override (\<lambda>_. []) name v = Ret v"
  by (simp add: unset)

end

interpretation env_var: env_override overrideWithEnvVar Some
  by unfold_locales (simp_all add: overrideWithEnvVar_def)

interpretation env_uint32: env_override overrideWithEnvUint32 "\<lambda>s. map_option word_of_int (atoi s)"
  by unfold_locales (simp_all add: overrideWithEnvUint32_def split: option.splits)

interpretation env_int: env_override overrideWithEnvInt atoi
  by unfold_locales (simp_all add: overrideWithEnvInt_def split: option.splits)

interpretation env_bool: env_override overrideWithEnvBool parse_bool
  by unfold_locales (simp_all add: overrideWithEnvBool_def split: option.splits)

interpretation env_slice: env_override overrideWithEnvSliceStrings "\<lambda>s. Some (split_char (CHR '','') s)"
  by unfold_locales (simp_all add: overrideWithEnvSliceStrings_def)

lemmas override_unset =
  env_var.unset env_uint32.unset env_int.unset env_bool.unset env_slice.unset

lemmas override_no_env =
  env_var.no_env env_uint32.no_env env_int.no_env env_bool.no_env env_slice.no_env

section \<open>Reading the configuration\<close>

text \<open>One override of \<^verbatim>\<open>Parse\<close>: read the field, override it, write it back.\<close>

definition on_field ::
  "('a \<Rightarrow> 'a outcome) \<Rightarrow> (Config \<Rightarrow> 'a) \<Rightarrow> (('a \<Rightarrow> 'a) \<Rightarrow> Config \<Rightarrow> Config) \<Rightarrow> Config \<Rightarrow> Config outcome" where
  "on_field f get upd c = bind_outcome (f (get c)) (\<lambda>v. Ret (upd (\<lambda>_. v) c))"

fun run_steps :: "(Config \<Rightarrow> Config outcome) list \<Rightarrow> Config \<Rightarrow> Config outcome" where
  "run_steps [] c = Ret c"
| "run_steps (s # ss) c = bind_outcome (s c) (run_steps ss)"

text \<open>The overrides in the order of the code, before and after the defaults.\<close>

definition env_steps :: "env \<Rightarrow> (Config \<Rightarrow> Config outcome) list" where
  "env_steps e =
     (let s = overrideWithEnvVar e; u = overrideWithEnvUint32 e; i = overrideWithEnvInt e;
          b = overrideWithEnvBool e; l = overrideWithEnvSliceStrings e in
      [on_field (s ''NOZZLE_UAAURL'') cfg_UAAURL cfg_UAAURL_update,
       on_field (s ''NOZZLE_CLIENT'') cfg_Client cfg_Client_update,
       on_field (s ''NOZZLE_CLIENT_SECRET'') cfg_ClientSecret cfg_ClientSecret_update,
       on_field (s ''NOZZLE_RLP_GATEWAY_URL'') cfg_RLPGatewayURL cfg_RLPGatewayURL_update,
       on_field (s ''NOZZLE_FIREHOSESUBSCRIPTIONID'') cfg_FirehoseSubscriptionID cfg_FirehoseSubscriptionID_update,
       on_field (s ''NOZZLE_DATADOGURL'') cfg_DataDogURL cfg_DataDogURL_update,
       on_field (s ''NOZZLE_DATADOGLOGINTAKEURL'') cfg_DataDogLogIntakeURL cfg_DataDogLogIntakeURL_update,
       on_field (s ''NOZZLE_DATADOGAPIKEY'') cfg_DataDogAPIKey cfg_DataDogAPIKey_update,
       on_field (s ''HTTP_PROXY'') cfg_HTTPProxyURL cfg_HTTPProxyURL_update,
       on_field (s ''HTTPS_PROXY'') cfg_HTTPSProxyURL cfg_HTTPSProxyURL_update,
       on_field (u ''NOZZLE_CLOUD_CONTROLLER_API_BATCH_SIZE'') cfg_CloudControllerAPIBatchSize
         cfg_CloudControllerAPIBatchSize_update,
       on_field (u ''NOZZLE_DATADOGTIMEOUTSECONDS'') cfg_DataDogTimeoutSeconds cfg_DataDogTimeoutSeconds_update,
       on_field (s ''NOZZLE_METRICPREFIX'') cfg_MetricPrefix cfg_MetricPrefix_update,
       on_field (s ''NOZZLE_DEPLOYMENT'') cfg_Deployment cfg_Deployment_update,
       on_field (s ''NOZZLE_DEPLOYMENT_FILTER'') cfg_DeploymentFilter cfg_DeploymentFilter_update,
       on_field (u ''NOZZLE_FLUSHDURATIONSECONDS'') cfg_FlushDurationSeconds cfg_FlushDurationSeconds_update,
       on_field (u ''NOZZLE_FLUSHMAXBYTES'') cfg_FlushMaxBytes cfg_FlushMaxBytes_update,
       on_field (i ''NOZZLE_GRAB_INTERVAL'') cfg_GrabInterval cfg_GrabInterval_update,
       on_field (u ''NOZZLE_ORG_DATA_COLLECTION_INTERVAL'') cfg_OrgDataCollectionInterval
         cfg_OrgDataCollectionInterval_update,
       on_field (b ''NOZZLE_INSECURESSLSKIPVERIFY'') cfg_InsecureSSLSkipVerify cfg_InsecureSSLSkipVerify_update,
       on_field (b ''NOZZLE_DISABLEACCESSCONTROL'') cfg_DisableAccessControl cfg_DisableAccessControl_update,
       on_field (u ''NOZZLE_IDLETIMEOUTSECONDS'') cfg_IdleTimeoutSeconds cfg_IdleTimeoutSeconds_update,
       on_field (u ''NOZZLE_WORKERTIMEOUTSECONDS'') cfg_WorkerTimeoutSeconds cfg_WorkerTimeoutSeconds_update,
       on_field (l ''NO_PROXY'') cfg_NoProxy cfg_NoProxy_update,
       on_field (s ''NOZZLE_ENVIRONMENT_NAME'') cfg_EnvironmentName cfg_EnvironmentName_update,
       on_field (b ''NOZZLE_ENABLE_METADATA_COLLECTION'') cfg_EnableMetadataCollection
         cfg_EnableMetadataCollection_update,
       on_field (b ''NOZZLE_ENABLE_APPLICATION_LOGS'') cfg_EnableApplicationLogs cfg_EnableApplicationLogs_update,
       on_field (l ''NOZZLE_METADATA_KEYS_WHITELIST'') cfg_MetadataKeysWhitelistPatterns
         cfg_MetadataKeysWhitelistPatterns_update,
       on_field (l ''NOZZLE_METADATA_KEYS_BLACKLIST'') cfg_MetadataKeysBlacklistPatterns
         cfg_MetadataKeysBlacklistPatterns_update,
       on_field (b ''NOZZLE_DCA_ENABLED'') cfg_DCAEnabled cfg_DCAEnabled_update,
       on_field (s ''NOZZLE_DCA_URL'') cfg_DCAUrl cfg_DCAUrl_update,
       on_field (s ''NOZZLE_DCA_TOKEN'') cfg_DCAToken cfg_DCAToken_update,
       on_field (b ''NOZZLE_DCA_ADVANCED_TAGGING'') cfg_EnableAdvancedTagging cfg_EnableAdvancedTagging_update])"

definition worker_steps :: "env \<Rightarrow> (Config \<Rightarrow> Config outcome) list" where
  "worker_steps e =
     [on_field (overrideWithEnvInt e ''NOZZLE_NUM_WORKERS'') cfg_NumWorkers cfg_NumWorkers_update,
      on_field (overrideWithEnvInt e ''NOZZLE_NUM_CACHE_WORKERS'') cfg_NumCacheWorkers cfg_NumCacheWorkers_update]"

text \<open>Compiling a list of patterns stops at the first one that does not compile.\<close>

fun compile_all :: "(string \<Rightarrow> (string \<Rightarrow> bool) option) \<Rightarrow> string list \<Rightarrow> string + (string \<Rightarrow> bool) list" where
  "compile_all compile [] = Inr []"
| "compile_all compile (p # ps) =
     (case compile p of None \<Rightarrow> Inl p
      | Some re \<Rightarrow> (case compile_all compile ps of Inl e \<Rightarrow> Inl e | Inr res \<Rightarrow> Inr (re # res)))"

text \<open>\<^verbatim>\<open>if config.F == zero { config.F = d }\<close>, for one field.\<close>

definition default_to :: "'a \<Rightarrow> 'a \<Rightarrow> 'a \<Rightarrow> 'a" where
  "default_to zero d v = (if v = zero then d else v)"

definition apply_defaults :: "Config \<Rightarrow> config_error + Config" where
  "apply_defaults c =
     (let c1 = c\<lparr>cfg_MetricPrefix := default_to [] ''cloudfoundry.nozzle.'' (cfg_MetricPrefix c),
                 cfg_GrabInterval := default_to 0 10 (cfg_GrabInterval c),
                 cfg_NumWorkers := default_to 0 4 (cfg_NumWorkers c),
                 cfg_NumCacheWorkers := default_to 0 4 (cfg_NumCacheWorkers c),
                 cfg_IdleTimeoutSeconds := default_to 0 60 (cfg_IdleTimeoutSeconds c),
                 cfg_WorkerTimeoutSeconds := default_to 0 10 (cfg_WorkerTimeoutSeconds c)\<rparr>
      in if cfg_CloudControllerAPIBatchSize c1 \<noteq> 0 \<and>
            (cfg_CloudControllerAPIBatchSize c1 < 100 \<or> 5000 < cfg_CloudControllerAPIBatchSize c1)
         then Inl BadBatchSize
         else Inr (c1\<lparr>cfg_CloudControllerAPIBatchSize :=
                        default_to 0 500 (cfg_CloudControllerAPIBatchSize c1),
                      cfg_OrgDataCollectionInterval :=
                        default_to 0 600 (cfg_OrgDataCollectionInterval c1)\<rparr>))"

definition Parse ::
  "string option \<Rightarrow> (string \<Rightarrow> Config option) \<Rightarrow> env \<Rightarrow> (string \<Rightarrow> (string \<Rightarrow> bool) option)
     \<Rightarrow> (config_error + Config) outcome" where
  "Parse configBytes unmarshal getenv compile =
     (case configBytes of
        None \<Rightarrow> Ret (Inl CannotRead)
      | Some bytes \<Rightarrow> (case unmarshal bytes of
          None \<Rightarrow> Ret (Inl CannotParse)
        | Some config \<Rightarrow>
          bind_outcome (run_steps (env_steps getenv) config) (\<lambda>c.
            case compile_all compile (cfg_MetadataKeysWhitelistPatterns c) of
              Inl p \<Rightarrow> Ret (Inl (BadWhitelistPattern p))
            | Inr wl \<Rightarrow> (case compile_all compile (cfg_MetadataKeysBlacklistPatterns c) of
                Inl p \<Rightarrow> Ret (Inl (BadBlacklistPattern p))
              | Inr bl \<Rightarrow> (case apply_defaults
                    (c\<lparr>cfg_MetadataKeysWhitelist := cfg_MetadataKeysWhitelist c @ wl,
                       cfg_MetadataKeysBlacklist := cfg_MetadataKeysBlacklist c @ bl\<rparr>) of
                  Inl e \<Rightarrow> Ret (Inl e)
                | Inr c' \<Rightarrow> bind_outcome (run_steps (worker_steps getenv) c') (\<lambda>c''. Ret (Inr c'')))))))"

section \<open>The form that is logged\<close>

text \<open>
  \<^verbatim>\<open>AsLogString\<close> marshals the configuration, reads the JSON back as a map, masks the secrets
  in the map and marshals it again (with sorted keys). The model works on the decoded map;
  \<open>None\<close> for the endpoints is the nil map, which JSON writes as null, and a nil list of keys
  is a null too, on which the type assertion to a list panics. The other lists are never nil in the model:
  where JSON has null for a nil list it has an empty one, which masking does not look at. Numbers stay exact.
\<close>

abbreviation JStrs :: "string list \<Rightarrow> json" where
  "JStrs ss \<equiv> JArr (map JStr ss)"

abbreviation JU32 :: "uint32 \<Rightarrow> json" where
  "JU32 w \<equiv> JNum (uint w)"

definition json_endpoints :: "(string, string list option) gomap option \<Rightarrow> json" where
  "json_endpoints es =
     (case es of None \<Rightarrow> JNull
      | Some m \<Rightarrow> JObj (map (\<lambda>(k, v). (k, case v of None \<Rightarrow> JNull | Some ks \<Rightarrow> JStrs ks)) m))"

definition config_json :: "Config \<Rightarrow> (string \<times> json) list" where
  "config_json c =
     [(''UAAURL'', JStr (cfg_UAAURL c)),
      (''Client'', JStr (cfg_Client c)),
      (''ClientSecret'', JStr (cfg_ClientSecret c)),
      (''RLPGatewayURL'', JStr (cfg_RLPGatewayURL c)),
      (''FirehoseSubscriptionID'', JStr (cfg_FirehoseSubscriptionID c)),
      (''DataDogURL'', JStr (cfg_DataDogURL c)),
      (''DataDogLogIntakeURL'', JStr (cfg_DataDogLogIntakeURL c)),
      (''DataDogAPIKey'', JStr (cfg_DataDogAPIKey c)),
      (''DataDogAdditionalEndpoints'', json_endpoints (cfg_DataDogAdditionalEndpoints c)),
      (''DataDogAdditionalLogIntakeEndpoints'', JStrs (cfg_DataDogAdditionalLogIntakeEndpoints c)),
      (''HTTPProxyURL'', JStr (cfg_HTTPProxyURL c)),
      (''HTTPSProxyURL'', JStr (cfg_HTTPSProxyURL c)),
      (''NoProxy'', JStrs (cfg_NoProxy c)),
      (''CloudControllerEndpoint'', JStr (cfg_CloudControllerEndpoint c)),
      (''CloudControllerAPIBatchSize'', JU32 (cfg_CloudControllerAPIBatchSize c)),
      (''DataDogTimeoutSeconds'', JU32 (cfg_DataDogTimeoutSeconds c)),
      (''FlushDurationSeconds'', JU32 (cfg_FlushDurationSeconds c)),
      (''FlushMaxBytes'', JU32 (cfg_FlushMaxBytes c)),
      (''InsecureSSLSkipVerify'', JBool (cfg_InsecureSSLSkipVerify c)),
      (''MetricPrefix'', JStr (cfg_MetricPrefix c)),
      (''Deployment'', JStr (cfg_Deployment c)),
      (''DeploymentFilter'', JStr (cfg_DeploymentFilter c)),
      (''DisableAccessControl'', JBool (cfg_DisableAccessControl c)),
      (''IdleTimeoutSeconds'', JU32 (cfg_IdleTimeoutSeconds c)),
      (''AppMetrics'', JBool (cfg_AppMetrics c)),
      (''NumWorkers'', JNum (cfg_NumWorkers c)),
      (''NumCacheWorkers'', JNum (cfg_NumCacheWorkers c)),
      (''GrabInterval'', JNum (cfg_GrabInterval c)),
      (''CustomTags'', JStrs (cfg_CustomTags c)),
      (''EnvironmentName'', JStr (cfg_EnvironmentName c)),
      (''WorkerTimeoutSeconds'', JU32 (cfg_WorkerTimeoutSeconds c)),
      (''OrgDataCollectionInterval'', JU32 (cfg_OrgDataCollectionInterval c)),
      (''EnableMetadataCollection'', JBool (cfg_EnableMetadataCollection c)),
      (''EnableAdvancedTagging'', JBool (cfg_EnableAdvancedTagging c)),
      (''EnableApplicationLogs'', JBool (cfg_EnableApplicationLogs c)),
      (''EnableMetadataAppMetricsPrefix'', JBool (cfg_EnableMetadataAppMetricsPrefix c)),
      (''MetadataKeysWhitelistPatterns'', JStrs (cfg_MetadataKeysWhitelistPatterns c)),
      (''MetadataKeysBlacklistPatterns'', JStrs (cfg_MetadataKeysBlacklistPatterns c)),
      (''DCAEnabled'', JBool (cfg_DCAEnabled c)),
      (''DCAUrl'', JStr (cfg_DCAUrl c)),
      (''DCAToken'', JStr (cfg_DCAToken c)),
      (''BoshTagsConfig'', JObj
        [(''Enabled'', JBool (bt_Enabled (cfg_BoshTagsConfig c))),
         (''FriendlyHostname'', JBool (bt_FriendlyHostname (cfg_BoshTagsConfig c))),
         (''UniqueFriendlyHostname'', JBool (bt_UniqueFriendlyHostname (cfg_BoshTagsConfig c))),
         (''FriendlyHostnameAppendGuid'', JBool (bt_FriendlyHostnameAppendGUID (cfg_BoshTagsConfig c))),
         (''UseUuidHostname'', JBool (bt_UseUUIDHostname (cfg_BoshTagsConfig c)))])]"

definition masked :: json where
  "masked = JStr ''*****''"

definition mask_attr :: "string \<Rightarrow> (string \<times> json) list \<Rightarrow> (string \<times> json) list" where
  "mask_attr attr asMap = (case gget asMap attr of Some _ \<Rightarrow> gput attr masked asMap | None \<Rightarrow> asMap)"

fun mask_keys :: "(string \<times> json) list \<Rightarrow> (string \<times> json) list outcome" where
  "mask_keys [] = Ret []"
| "mask_keys ((k, v) # es) =
     (case v of
        JArr keyList \<Rightarrow> bind_outcome (mask_keys es) (\<lambda>es'. Ret ((k, JArr (map (\<lambda>_. masked) keyList)) # es'))
      | _ \<Rightarrow> Panic)"

definition AsLogString :: "Config \<Rightarrow> (string \<times> json) list outcome" where
  "AsLogString c =
     (let m1 = mask_attr ''ClientSecret'' (config_json c);
          m2 = mask_attr ''DataDogAPIKey'' m1
      in bind_outcome
           (case gget m2 ''DataDogAdditionalEndpoints'' of
              Some (JObj es) \<Rightarrow> bind_outcome (mask_keys es)
                (\<lambda>es'. Ret (gput ''DataDogAdditionalEndpoints'' (JObj es') m2))
            | _ \<Rightarrow> Ret m2)
           (\<lambda>m3. Ret (sort_key fst m3)))"

section \<open>Properties of the overrides\<close>

lemma run_steps_inv:
  assumes "run_steps ss c = Ret c'" and "P c" and "\<And>s c c'. s \<in> set ss \<Longrightarrow> s c = Ret c' \<Longrightarrow> P c \<Longrightarrow> P c'"
  shows "P c'"
  using assms
proof (induction ss arbitrary: c)
  case (Cons s ss)
  from Cons.prems(1) obtain d where d: "s c = Ret d" "run_steps ss d = Ret c'"
    by (auto simp: bind_outcome_Ret_iff)
  have "P d" using Cons.prems(3) [of s c d] Cons.prems(2) d by simp
  with Cons.IH [OF d(2)] Cons.prems(3) show ?case by auto
qed simp

lemma run_steps_Panic: "run_steps ss c = Panic \<Longrightarrow> \<exists>s\<in>set ss. \<exists>d. s d = Panic"
proof (induction ss arbitrary: c)
  case (Cons s ss)
  then show ?case by (cases "s c") auto
qed simp

lemma on_field_Panic: "on_field f get upd c = Panic \<Longrightarrow> f (get c) = Panic"
  by (cases "f (get c)") (auto simp: on_field_def)

definition undecodable :: "env \<Rightarrow> bool" where
  "undecodable e \<longleftrightarrow> (\<exists>name. e name \<noteq> [] \<and> (atoi (e name) = None \<or> parse_bool (e name) = None))"

lemma env_steps_Panic: "s \<in> set (env_steps e) \<Longrightarrow> s d = Panic \<Longrightarrow> undecodable e"
  unfolding env_steps_def Let_def undecodable_def
  by (auto dest!: on_field_Panic simp: env_var.panic_iff env_uint32.panic_iff env_int.panic_iff
      env_bool.panic_iff env_slice.panic_iff)

lemma worker_steps_Panic: "s \<in> set (worker_steps e) \<Longrightarrow> s d = Panic \<Longrightarrow> undecodable e"
  unfolding worker_steps_def undecodable_def
  by (auto dest!: on_field_Panic simp: env_int.panic_iff)

lemma run_steps_id:
  assumes "\<And>s. s \<in> set ss \<Longrightarrow> s c = Ret c"
  shows "run_steps ss c = Ret c"
  using assms
proof (induction ss)
  case (Cons a ss)
  have a: "a c = Ret c" by (rule Cons.prems) simp
  have "run_steps ss c = Ret c" by (rule Cons.IH) (rule Cons.prems, simp)
  with a show ?case by simp
qed simp

lemma on_field_id: "f (get c) = Ret (get c) \<Longrightarrow> upd (\<lambda>_. get c) c = c \<Longrightarrow> on_field f get upd c = Ret c"
  by (simp add: on_field_def)

lemma run_env_steps_unset:
  assumes "\<And>n. n \<noteq> ''NOZZLE_NUM_WORKERS'' \<Longrightarrow> e n = []"
  shows "run_steps (env_steps e) c = Ret c"
proof (rule run_steps_id)
  fix s assume "s \<in> set (env_steps e)"
  then show "s c = Ret c"
    unfolding env_steps_def Let_def list.set insert_iff empty_iff
    by (elim disjE FalseE) (simp_all only:, (rule on_field_id, rule override_unset, rule assms, simp, simp)+)
qed

lemma run_env_steps_no_env: "run_steps (env_steps (\<lambda>_. [])) c = Ret c"
  by (rule run_env_steps_unset) simp

lemma run_worker_steps_no_env: "run_steps (worker_steps (\<lambda>_. [])) c = Ret c"
  by (simp add: worker_steps_def on_field_def override_no_env)

lemma compile_all_ok:
  "compile_all compile ps = Inr res \<Longrightarrow> map compile ps = map Some res"
  by (induction ps arbitrary: res) (auto split: option.splits sum.splits)

lemma compile_all_err:
  "compile_all compile ps = Inl p \<Longrightarrow> p \<in> set ps \<and> compile p = None"
  by (induction ps) (auto split: option.splits sum.splits)

section \<open>Properties of the defaults\<close>

definition valid_Config :: "Config \<Rightarrow> bool" where
  "valid_Config c \<longleftrightarrow>
     100 \<le> cfg_CloudControllerAPIBatchSize c \<and> cfg_CloudControllerAPIBatchSize c \<le> 5000 \<and>
     cfg_MetricPrefix c \<noteq> [] \<and> cfg_GrabInterval c \<noteq> 0 \<and> 0 < cfg_IdleTimeoutSeconds c \<and>
     0 < cfg_WorkerTimeoutSeconds c \<and> 0 < cfg_OrgDataCollectionInterval c"

lemma default_to_neq: "d \<noteq> zero \<Longrightarrow> default_to zero d v \<noteq> zero"
  by (simp add: default_to_def)

lemma default_to_id: "v \<noteq> zero \<Longrightarrow> default_to zero d v = v"
  by (simp add: default_to_def)

lemma apply_defaults_valid:
  assumes "apply_defaults c = Inr c'"
  shows "valid_Config c'"
proof -
  have nz: "0 < default_to 0 d (w :: uint32)" if "d \<noteq> 0" for d w
    using default_to_neq [OF that] by (simp add: word_neq_0_conv)
  have batch: "100 \<le> default_to 0 500 w \<and> default_to 0 500 w \<le> 5000"
    if "\<not> (w \<noteq> 0 \<and> (w < 100 \<or> 5000 < w))" for w :: uint32
    using that by (auto simp: default_to_def not_less)
  show ?thesis
    using assms batch [of "cfg_CloudControllerAPIBatchSize c"]
    by (auto simp: apply_defaults_def Let_def valid_Config_def default_to_neq nz simp del: de_Morgan_conj
        split: if_split_asm)
qed

lemma worker_steps_frame:
  assumes "run_steps (worker_steps e) c = Ret c'"
  shows "\<exists>n m. c' = c\<lparr>cfg_NumWorkers := n, cfg_NumCacheWorkers := m\<rparr>"
  using assms by (auto simp: worker_steps_def on_field_def bind_outcome_Ret_iff)

text \<open>The inversion of a successful \<^verbatim>\<open>Parse\<close>.\<close>

lemma Parse_OkE:
  assumes "Parse bytes unmarshal e compile = Ret (Inr c)"
  obtains b c0 c1 wl bl c2 where "bytes = Some b" "unmarshal b = Some c0"
    "run_steps (env_steps e) c0 = Ret c1"
    "compile_all compile (cfg_MetadataKeysWhitelistPatterns c1) = Inr wl"
    "compile_all compile (cfg_MetadataKeysBlacklistPatterns c1) = Inr bl"
    "apply_defaults (c1\<lparr>cfg_MetadataKeysWhitelist := cfg_MetadataKeysWhitelist c1 @ wl,
       cfg_MetadataKeysBlacklist := cfg_MetadataKeysBlacklist c1 @ bl\<rparr>) = Inr c2"
    "run_steps (worker_steps e) c2 = Ret c"
proof -
  obtain b c0 where b: "bytes = Some b" "unmarshal b = Some c0"
    using assms by (cases bytes) (auto simp: Parse_def split: option.splits)
  then obtain c1 where c1: "run_steps (env_steps e) c0 = Ret c1"
    using assms by (cases "run_steps (env_steps e) c0") (auto simp: Parse_def)
  obtain wl where wl: "compile_all compile (cfg_MetadataKeysWhitelistPatterns c1) = Inr wl"
    using assms b c1 by (cases "compile_all compile (cfg_MetadataKeysWhitelistPatterns c1)")
      (auto simp: Parse_def)
  obtain bl where bl: "compile_all compile (cfg_MetadataKeysBlacklistPatterns c1) = Inr bl"
    using assms b c1 wl by (cases "compile_all compile (cfg_MetadataKeysBlacklistPatterns c1)")
      (auto simp: Parse_def)
  let ?c = "c1\<lparr>cfg_MetadataKeysWhitelist := cfg_MetadataKeysWhitelist c1 @ wl,
       cfg_MetadataKeysBlacklist := cfg_MetadataKeysBlacklist c1 @ bl\<rparr>"
  obtain c2 where c2: "apply_defaults ?c = Inr c2"
    using assms b c1 wl bl by (cases "apply_defaults ?c") (auto simp: Parse_def)
  have "run_steps (worker_steps e) c2 = Ret c"
    using assms b c1 wl bl c2 by (simp add: Parse_def bind_outcome_Ret_iff)
  with b c1 wl bl c2 that show ?thesis by blast
qed

section \<open>Where a setting comes from\<close>

text \<open>
  A setting comes from its environment variable if that is set, and from the file otherwise; one with a
  default gets it when both leave it at zero.
\<close>

definition from_env :: "(string \<Rightarrow> 'a option) \<Rightarrow> env \<Rightarrow> string \<Rightarrow> 'a \<Rightarrow> 'a \<Rightarrow> bool" where
  "from_env decode e name v v' \<longleftrightarrow> (if e name = [] then v' = v else decode (e name) = Some v')"

definition from_env_or :: "'a \<Rightarrow> 'a \<Rightarrow> (string \<Rightarrow> 'a option) \<Rightarrow> env \<Rightarrow> string \<Rightarrow> 'a \<Rightarrow> 'a \<Rightarrow> bool" where
  "from_env_or zero d decode e name v v' \<longleftrightarrow> (\<exists>u. from_env decode e name v u \<and> v' = (if u = zero then d else u))"

abbreviation env_string :: "env \<Rightarrow> string \<Rightarrow> string \<Rightarrow> string \<Rightarrow> bool" where
  "env_string \<equiv> from_env Some"

abbreviation env_bool :: "env \<Rightarrow> string \<Rightarrow> bool \<Rightarrow> bool \<Rightarrow> bool" where
  "env_bool \<equiv> from_env parse_bool"

abbreviation env_strings :: "env \<Rightarrow> string \<Rightarrow> string list \<Rightarrow> string list \<Rightarrow> bool" where
  "env_strings \<equiv> from_env (\<lambda>s. Some (split_char (CHR '','') s))"

definition as_uint32 :: "string \<Rightarrow> uint32 option" where
  "as_uint32 s = map_option word_of_int (atoi s)"

text \<open>The settings that are read, \<open>c0\<close> being the file and \<open>c\<close> the result.\<close>

definition settings_of :: "env \<Rightarrow> Config \<Rightarrow> Config \<Rightarrow> bool" where
  "settings_of e c0 c \<longleftrightarrow>
     env_string e ''NOZZLE_UAAURL'' (cfg_UAAURL c0) (cfg_UAAURL c) \<and>
     env_string e ''NOZZLE_CLIENT'' (cfg_Client c0) (cfg_Client c) \<and>
     env_string e ''NOZZLE_CLIENT_SECRET'' (cfg_ClientSecret c0) (cfg_ClientSecret c) \<and>
     env_string e ''NOZZLE_RLP_GATEWAY_URL'' (cfg_RLPGatewayURL c0) (cfg_RLPGatewayURL c) \<and>
     env_string e ''NOZZLE_FIREHOSESUBSCRIPTIONID'' (cfg_FirehoseSubscriptionID c0) (cfg_FirehoseSubscriptionID c) \<and>
     env_string e ''NOZZLE_DATADOGURL'' (cfg_DataDogURL c0) (cfg_DataDogURL c) \<and>
     env_string e ''NOZZLE_DATADOGLOGINTAKEURL'' (cfg_DataDogLogIntakeURL c0) (cfg_DataDogLogIntakeURL c) \<and>
     env_string e ''NOZZLE_DATADOGAPIKEY'' (cfg_DataDogAPIKey c0) (cfg_DataDogAPIKey c) \<and>
     env_string e ''HTTP_PROXY'' (cfg_HTTPProxyURL c0) (cfg_HTTPProxyURL c) \<and>
     env_string e ''HTTPS_PROXY'' (cfg_HTTPSProxyURL c0) (cfg_HTTPSProxyURL c) \<and>
     env_strings e ''NO_PROXY'' (cfg_NoProxy c0) (cfg_NoProxy c) \<and>
     from_env_or 0 500 as_uint32 e ''NOZZLE_CLOUD_CONTROLLER_API_BATCH_SIZE''
       (cfg_CloudControllerAPIBatchSize c0) (cfg_CloudControllerAPIBatchSize c) \<and>
     from_env as_uint32 e ''NOZZLE_DATADOGTIMEOUTSECONDS'' (cfg_DataDogTimeoutSeconds c0) (cfg_DataDogTimeoutSeconds c) \<and>
     from_env_or [] ''cloudfoundry.nozzle.'' Some e ''NOZZLE_METRICPREFIX'' (cfg_MetricPrefix c0) (cfg_MetricPrefix c) \<and>
     env_string e ''NOZZLE_DEPLOYMENT'' (cfg_Deployment c0) (cfg_Deployment c) \<and>
     env_string e ''NOZZLE_DEPLOYMENT_FILTER'' (cfg_DeploymentFilter c0) (cfg_DeploymentFilter c) \<and>
     from_env as_uint32 e ''NOZZLE_FLUSHDURATIONSECONDS'' (cfg_FlushDurationSeconds c0) (cfg_FlushDurationSeconds c) \<and>
     from_env as_uint32 e ''NOZZLE_FLUSHMAXBYTES'' (cfg_FlushMaxBytes c0) (cfg_FlushMaxBytes c) \<and>
     from_env_or 0 10 atoi e ''NOZZLE_GRAB_INTERVAL'' (cfg_GrabInterval c0) (cfg_GrabInterval c) \<and>
     from_env_or 0 600 as_uint32 e ''NOZZLE_ORG_DATA_COLLECTION_INTERVAL''
       (cfg_OrgDataCollectionInterval c0) (cfg_OrgDataCollectionInterval c) \<and>
     env_bool e ''NOZZLE_INSECURESSLSKIPVERIFY'' (cfg_InsecureSSLSkipVerify c0) (cfg_InsecureSSLSkipVerify c) \<and>
     env_bool e ''NOZZLE_DISABLEACCESSCONTROL'' (cfg_DisableAccessControl c0) (cfg_DisableAccessControl c) \<and>
     from_env_or 0 60 as_uint32 e ''NOZZLE_IDLETIMEOUTSECONDS'' (cfg_IdleTimeoutSeconds c0) (cfg_IdleTimeoutSeconds c) \<and>
     from_env_or 0 10 as_uint32 e ''NOZZLE_WORKERTIMEOUTSECONDS'' (cfg_WorkerTimeoutSeconds c0) (cfg_WorkerTimeoutSeconds c) \<and>
     env_string e ''NOZZLE_ENVIRONMENT_NAME'' (cfg_EnvironmentName c0) (cfg_EnvironmentName c) \<and>
     env_bool e ''NOZZLE_ENABLE_METADATA_COLLECTION'' (cfg_EnableMetadataCollection c0) (cfg_EnableMetadataCollection c) \<and>
     env_bool e ''NOZZLE_ENABLE_APPLICATION_LOGS'' (cfg_EnableApplicationLogs c0) (cfg_EnableApplicationLogs c) \<and>
     env_strings e ''NOZZLE_METADATA_KEYS_WHITELIST'' (cfg_MetadataKeysWhitelistPatterns c0)
       (cfg_MetadataKeysWhitelistPatterns c) \<and>
     env_strings e ''NOZZLE_METADATA_KEYS_BLACKLIST'' (cfg_MetadataKeysBlacklistPatterns c0)
       (cfg_MetadataKeysBlacklistPatterns c) \<and>
     env_bool e ''NOZZLE_DCA_ENABLED'' (cfg_DCAEnabled c0) (cfg_DCAEnabled c) \<and>
     env_string e ''NOZZLE_DCA_URL'' (cfg_DCAUrl c0) (cfg_DCAUrl c) \<and>
     env_string e ''NOZZLE_DCA_TOKEN'' (cfg_DCAToken c0) (cfg_DCAToken c) \<and>
     env_bool e ''NOZZLE_DCA_ADVANCED_TAGGING'' (cfg_EnableAdvancedTagging c0) (cfg_EnableAdvancedTagging c)"

text \<open>The settings that no variable overrides.\<close>

definition file_only :: "Config \<Rightarrow> Config \<Rightarrow> bool" where
  "file_only c0 c \<longleftrightarrow>
     cfg_DataDogAdditionalEndpoints c = cfg_DataDogAdditionalEndpoints c0 \<and>
     cfg_DataDogAdditionalLogIntakeEndpoints c = cfg_DataDogAdditionalLogIntakeEndpoints c0 \<and>
     cfg_CloudControllerEndpoint c = cfg_CloudControllerEndpoint c0 \<and> cfg_AppMetrics c = cfg_AppMetrics c0 \<and>
     cfg_CustomTags c = cfg_CustomTags c0 \<and>
     cfg_EnableMetadataAppMetricsPrefix c = cfg_EnableMetadataAppMetricsPrefix c0 \<and>
     cfg_BoshTagsConfig c = cfg_BoshTagsConfig c0"

lemma from_envI:
  "overrideWithEnvVar e n v = Ret v' \<Longrightarrow> from_env Some e n v v'"
  "overrideWithEnvUint32 e n w = Ret w' \<Longrightarrow> from_env as_uint32 e n w w'"
  "overrideWithEnvInt e n i = Ret i' \<Longrightarrow> from_env atoi e n i i'"
  "overrideWithEnvBool e n b = Ret b' \<Longrightarrow> from_env parse_bool e n b b'"
  "overrideWithEnvSliceStrings e n l = Ret l' \<Longrightarrow> from_env (\<lambda>s. Some (split_char (CHR '','') s)) e n l l'"
  by (auto simp: from_env_def as_uint32_def dest!: env_var.Ret_cases env_uint32.Ret_cases env_int.Ret_cases
      env_bool.Ret_cases env_slice.Ret_cases)

lemma run_step_on_field:
  "run_steps (on_field f get upd # ss) c = Ret c' \<longleftrightarrow> (\<exists>v. f (get c) = Ret v \<and> run_steps ss (upd (\<lambda>_. v) c) = Ret c')"
  by (auto simp: on_field_def bind_outcome_Ret_iff)

lemma from_env_orI: "from_env decode e n v u \<Longrightarrow> from_env_or zero d decode e n v (default_to zero d u)"
  by (auto simp: from_env_or_def default_to_def)

lemma env_steps_settings:
  assumes "run_steps (env_steps e) c0 = Ret c1" and "apply_defaults (c1\<lparr>cfg_MetadataKeysWhitelist := wl, cfg_MetadataKeysBlacklist := bl\<rparr>) = Inr c2"
  shows "settings_of e c0 c2 \<and> file_only c0 c2 \<and> cfg_MetadataKeysWhitelistPatterns c2 = cfg_MetadataKeysWhitelistPatterns c1 \<and>
    cfg_MetadataKeysBlacklistPatterns c2 = cfg_MetadataKeysBlacklistPatterns c1 \<and>
    cfg_MetadataKeysWhitelist c2 = wl \<and> cfg_MetadataKeysBlacklist c2 = bl \<and>
    cfg_MetadataKeysWhitelist c1 = cfg_MetadataKeysWhitelist c0 \<and> cfg_MetadataKeysBlacklist c1 = cfg_MetadataKeysBlacklist c0 \<and>
    cfg_NumWorkers c2 = default_to 0 4 (cfg_NumWorkers c0) \<and> cfg_NumCacheWorkers c2 = default_to 0 4 (cfg_NumCacheWorkers c0)"
  using assms
  unfolding env_steps_def Let_def run_step_on_field
  by - (elim exE conjE, (drule from_envI)+, simp add: apply_defaults_def Let_def split: if_split_asm, hypsubst,
      simp add: settings_of_def file_only_def from_env_orI)

section \<open>Properties of the logged form\<close>

text \<open>Two endpoint maps with the same URLs and the same number of keys under each.\<close>

definition endpoint_shape :: "(string, string list option) gomap \<Rightarrow> (string \<times> nat option) list" where
  "endpoint_shape m = map (\<lambda>(k, v). (k, map_option length v)) m"

definition endpoint_json :: "string list option \<Rightarrow> json" where
  "endpoint_json v = (case v of None \<Rightarrow> JNull | Some ks \<Rightarrow> JStrs ks)"

lemma mask_keys_cons:
  "mask_keys ((k, endpoint_json v) # es) =
     (case map_option length v of None \<Rightarrow> Panic
      | Some n \<Rightarrow> bind_outcome (mask_keys es) (\<lambda>es'. Ret ((k, JArr (replicate n masked)) # es')))"
  by (cases v) (simp_all add: endpoint_json_def map_replicate_const comp_def)

lemma mask_keys_shape:
  "endpoint_shape a = endpoint_shape b \<Longrightarrow>
   mask_keys (map (\<lambda>(k, v). (k, endpoint_json v)) a) = mask_keys (map (\<lambda>(k, v). (k, endpoint_json v)) b)"
proof (induction a arbitrary: b)
  case Nil
  then show ?case by (simp add: endpoint_shape_def)
next
  case (Cons x a)
  then obtain y b' where b: "b = y # b'" by (cases b) (auto simp: endpoint_shape_def)
  obtain k v where x: "x = (k, v)" by fastforce
  obtain k' v' where y: "y = (k', v')" by fastforce
  have eqs: "k = k'" "map_option length v = map_option length v'" and tl: "endpoint_shape a = endpoint_shape b'"
    using Cons.prems b x y by (auto simp: endpoint_shape_def)
  show ?case
    unfolding x y b list.map prod.case mask_keys_cons eqs Cons.IH [OF tl] by (rule refl)
qed

lemma mask_attr_eq: "gget m attr \<noteq> None \<Longrightarrow> mask_attr attr m = gput attr masked m"
  by (auto simp: mask_attr_def)

text \<open>The decoded map of the log after the first two masks, with the secrets gone.\<close>

definition masked_json :: "Config \<Rightarrow> (string \<times> json) list" where
  "masked_json c = gput ''DataDogAPIKey'' masked (gput ''ClientSecret'' masked (config_json c))"

lemma masked_json_endpoints:
  "gget (masked_json c) ''DataDogAdditionalEndpoints'' = Some (json_endpoints (cfg_DataDogAdditionalEndpoints c))"
  by (simp add: masked_json_def gget_gput config_json_def)

lemma masked_json_step:
  "mask_attr ''DataDogAPIKey'' (mask_attr ''ClientSecret'' (config_json c)) = masked_json c"
proof -
  have "gget (config_json c) ''ClientSecret'' \<noteq> None" by (simp add: config_json_def)
  moreover have "gget (gput ''ClientSecret'' masked (config_json c)) ''DataDogAPIKey'' \<noteq> None"
    by (simp add: gget_gput config_json_def)
  ultimately show ?thesis by (simp add: mask_attr_eq masked_json_def)
qed

lemma AsLogString_eq:
  "AsLogString c =
     (case cfg_DataDogAdditionalEndpoints c of
        None \<Rightarrow> Ret (sort_key fst (masked_json c))
      | Some m \<Rightarrow> bind_outcome (mask_keys (map (\<lambda>(k, v). (k, endpoint_json v)) m))
          (\<lambda>es. Ret (sort_key fst (gput ''DataDogAdditionalEndpoints'' (JObj es) (masked_json c)))))"
proof (cases "cfg_DataDogAdditionalEndpoints c")
  case None
  then show ?thesis
    by (simp add: AsLogString_def masked_json_step masked_json_endpoints json_endpoints_def)
next
  case (Some m)
  let ?es = "map (\<lambda>(k, v). (k, endpoint_json v)) m"
  have "gget (masked_json c) ''DataDogAdditionalEndpoints'' = Some (JObj ?es)"
    using Some by (simp add: masked_json_endpoints json_endpoints_def endpoint_json_def)
  with Some show ?thesis
    by (cases "mask_keys ?es") (simp_all add: AsLogString_def masked_json_step)
qed

text \<open>The map without the endpoints does not depend on the two masked attributes.\<close>

lemma masked_json_secret:
  "masked_json (c\<lparr>cfg_ClientSecret := s, cfg_DataDogAPIKey := k\<rparr>) = masked_json c"
  by (simp add: masked_json_def config_json_def)

lemma gput_endpoints_masked_json:
  "gput ''DataDogAdditionalEndpoints'' j (masked_json (c\<lparr>cfg_DataDogAdditionalEndpoints := e\<rparr>)) =
   gput ''DataDogAdditionalEndpoints'' j (masked_json c)"
  by (simp add: masked_json_def config_json_def)

lemma Parse_gives_valid:
  assumes "Parse bytes unmarshal e compile = Ret (Inr c)"
  shows "valid_Config c"
  using assms
proof (rule Parse_OkE)
  fix c1 wl bl c2
  assume d: "apply_defaults (c1\<lparr>cfg_MetadataKeysWhitelist := cfg_MetadataKeysWhitelist c1 @ wl,
      cfg_MetadataKeysBlacklist := cfg_MetadataKeysBlacklist c1 @ bl\<rparr>) = Inr c2"
    and w: "run_steps (worker_steps e) c2 = Ret c"
  from d have "valid_Config c2" by (rule apply_defaults_valid)
  moreover obtain n m where "c = c2\<lparr>cfg_NumWorkers := n, cfg_NumCacheWorkers := m\<rparr>"
    using worker_steps_frame [OF w] by blast
  ultimately show ?thesis by (simp add: valid_Config_def)
qed

section \<open>The component's properties\<close>

text \<open>
  C28: A configuration that \<^verbatim>\<open>Parse\<close> accepts, from any file and any environment, has a batch
  size between 100 and 5000, a metric prefix, and no zero interval or timeout among those
  that have a default.
\<close>

theorem Parse_valid:
  assumes "Parse bytes unmarshal e compile = Ret (Inr c)"
  shows "valid_Config c"
  by (rule Parse_gives_valid [OF assms])

lemma Parse_zero_Config:
  "Parse (Some []) (\<lambda>_. Some zero_Config) (\<lambda>_. []) (\<lambda>_. None) =
     Ret (Inr (zero_Config\<lparr>cfg_MetricPrefix := ''cloudfoundry.nozzle.'', cfg_GrabInterval := 10,
       cfg_NumWorkers := 4, cfg_NumCacheWorkers := 4, cfg_IdleTimeoutSeconds := 60,
       cfg_WorkerTimeoutSeconds := 10, cfg_CloudControllerAPIBatchSize := 500,
       cfg_OrgDataCollectionInterval := 600\<rparr>))"
  by (simp add: Parse_def run_env_steps_no_env run_worker_steps_no_env)
    (simp add: apply_defaults_def default_to_def zero_Config_def run_worker_steps_no_env)

theorem Parse_valid_witness:
  "valid_Config (zero_Config\<lparr>cfg_MetricPrefix := ''cloudfoundry.nozzle.'', cfg_GrabInterval := 10,
     cfg_NumWorkers := 4, cfg_NumCacheWorkers := 4, cfg_IdleTimeoutSeconds := 60,
     cfg_WorkerTimeoutSeconds := 10, cfg_CloudControllerAPIBatchSize := 500,
     cfg_OrgDataCollectionInterval := 600\<rparr>)"
  by (rule Parse_valid [OF Parse_zero_Config])

text \<open>
  \<^verbatim>\<open>Parse\<close> panics only on the environment: some variable is set to a text that is not
  a number or not a boolean. No file makes it panic.
\<close>

lemma Parse_panic_env:
  assumes "Parse bytes unmarshal e compile = Panic"
  shows "undecodable e"
proof (rule ccontr)
  assume ok: "\<not> undecodable e"
  have "\<exists>c'. run_steps (env_steps e) c = Ret c'" for c
    using ok run_steps_Panic [of "env_steps e" c] env_steps_Panic [of _ e]
    by (cases "run_steps (env_steps e) c") auto
  moreover have "\<exists>c'. run_steps (worker_steps e) c = Ret c'" for c
    using ok run_steps_Panic [of "worker_steps e" c] worker_steps_Panic [of _ e]
    by (cases "run_steps (worker_steps e) c") auto
  ultimately have ex: "run_steps (env_steps e) c \<noteq> Panic" "run_steps (worker_steps e) c \<noteq> Panic" for c
    by (metis outcome.distinct(1))+
  obtain b c0 where b: "bytes = Some b" "unmarshal b = Some c0"
    using assms by (cases bytes) (auto simp: Parse_def split: option.splits)
  obtain c1 where c1: "run_steps (env_steps e) c0 = Ret c1"
    using ex(1) [of c0] by (cases "run_steps (env_steps e) c0") auto
  show False
    using assms b c1 ex(2)
    by (cases "compile_all compile (cfg_MetadataKeysWhitelistPatterns c1)";
        cases "compile_all compile (cfg_MetadataKeysBlacklistPatterns c1)")
      (simp_all add: Parse_def bind_outcome_Panic_iff split: sum.split_asm)
qed

lemma Parse_panic_env_witness:
  "undecodable (\<lambda>n. if n = ''NOZZLE_FLUSHMAXBYTES'' then ''1k'' else [])"
proof (rule Parse_panic_env [of "Some []" "\<lambda>_. Some zero_Config" _ "\<lambda>_. None"])
  have "atoi ''1k'' = None" by (simp add: atoi_def is_digit_def)
  then show "Parse (Some []) (\<lambda>_. Some zero_Config)
      (\<lambda>n. if n = ''NOZZLE_FLUSHMAXBYTES'' then ''1k'' else []) (\<lambda>_. None) = Panic"
    by (simp add: Parse_def env_steps_def on_field_def overrideWithEnvVar_def overrideWithEnvUint32_def Let_def)
qed

text \<open>
  C29: Where each setting of an accepted configuration comes from. It is that of its environment variable when
  this is set, whatever the file says, decoded as its type asks (an integer cut to 32 bits, a list split at
  commas), and else that of the file. The batch size, the prefix and the intervals and time-outs that have
  a default get it when the result is zero or empty. The two worker counts get their default when the file has
  none, but their variables come after it, so that these can set them to zero. The lists of patterns are
  compiled one by one, after what they held before. All other settings are those of the file.
\<close>

theorem Parse_settings:
  assumes "Parse (Some b) unmarshal e compile = Ret (Inr c)" and "unmarshal b = Some c0"
  shows "settings_of e c0 c \<and> file_only c0 c \<and>
    from_env atoi e ''NOZZLE_NUM_WORKERS'' (if cfg_NumWorkers c0 = 0 then 4 else cfg_NumWorkers c0) (cfg_NumWorkers c) \<and>
    from_env atoi e ''NOZZLE_NUM_CACHE_WORKERS'' (if cfg_NumCacheWorkers c0 = 0 then 4 else cfg_NumCacheWorkers c0)
      (cfg_NumCacheWorkers c) \<and>
    (\<exists>wl. map compile (cfg_MetadataKeysWhitelistPatterns c) = map Some wl \<and>
       cfg_MetadataKeysWhitelist c = cfg_MetadataKeysWhitelist c0 @ wl) \<and>
    (\<exists>bl. map compile (cfg_MetadataKeysBlacklistPatterns c) = map Some bl \<and>
       cfg_MetadataKeysBlacklist c = cfg_MetadataKeysBlacklist c0 @ bl)"
  using assms(1)
proof (rule Parse_OkE)
  fix b' c0' c1 wl bl c2
  assume "Some b = Some b'" "unmarshal b' = Some c0'" and run: "run_steps (env_steps e) c0' = Ret c1"
    and wl: "compile_all compile (cfg_MetadataKeysWhitelistPatterns c1) = Inr wl"
    and bl: "compile_all compile (cfg_MetadataKeysBlacklistPatterns c1) = Inr bl"
    and d: "apply_defaults (c1\<lparr>cfg_MetadataKeysWhitelist := cfg_MetadataKeysWhitelist c1 @ wl,
      cfg_MetadataKeysBlacklist := cfg_MetadataKeysBlacklist c1 @ bl\<rparr>) = Inr c2"
    and w: "run_steps (worker_steps e) c2 = Ret c"
  then have c0: "c0' = c0" using assms(2) by simp
  obtain n m where c: "c = c2\<lparr>cfg_NumWorkers := n, cfg_NumCacheWorkers := m\<rparr>"
    "from_env atoi e ''NOZZLE_NUM_WORKERS'' (cfg_NumWorkers c2) n"
    "from_env atoi e ''NOZZLE_NUM_CACHE_WORKERS'' (cfg_NumCacheWorkers c2) m"
    using w unfolding worker_steps_def run_step_on_field by - (elim exE conjE, (drule from_envI)+, simp, blast)
  have settings: "settings_of e c0 c = settings_of e c0 c2" "file_only c0 c = file_only c0 c2"
    by (simp_all add: c(1) settings_of_def file_only_def)
  from env_steps_settings [OF run d] c compile_all_ok [OF wl] compile_all_ok [OF bl] show ?thesis
    unfolding settings c0 by (simp add: default_to_def)
qed

text \<open>In the witness the file and the environment both set the workers, and neither sets the refresh interval.\<close>

theorem Parse_settings_witness:
  "\<exists>c. Parse (Some []) (\<lambda>_. Some (zero_Config\<lparr>cfg_NumWorkers := 7\<rparr>)) (\<lambda>n. if n = ''NOZZLE_NUM_WORKERS'' then ''0'' else [])
     (\<lambda>_. None) = Ret (Inr c) \<and> cfg_NumWorkers c = 0 \<and> cfg_GrabInterval c = 10"
proof -
  let ?e = "\<lambda>n. if n = ''NOZZLE_NUM_WORKERS'' then ''0'' else []" and ?f = "zero_Config\<lparr>cfg_NumWorkers := 7\<rparr>"
  have env: "run_steps (env_steps ?e) ?f = Ret ?f" by (rule run_env_steps_unset) simp
  have zero: "atoi ''0'' = Some 0" by (simp add: atoi_def is_digit_def digits_value_def)
  then have ws: "\<exists>c. run_steps (worker_steps ?e) d = Ret c" for d
    by (simp add: worker_steps_def on_field_def overrideWithEnvInt_def)
  obtain d where d: "apply_defaults ?f = Inr d" by (simp add: apply_defaults_def default_to_def zero_Config_def)
  obtain c where w: "run_steps (worker_steps ?e) d = Ret c" using ws by blast
  have pats: "cfg_MetadataKeysWhitelistPatterns ?f = []" "cfg_MetadataKeysBlacklistPatterns ?f = []"
    "?f\<lparr>cfg_MetadataKeysWhitelist := cfg_MetadataKeysWhitelist ?f @ [], cfg_MetadataKeysBlacklist := cfg_MetadataKeysBlacklist ?f @ []\<rparr> = ?f"
    by (simp_all add: zero_Config_def)
  have c: "Parse (Some []) (\<lambda>_. Some ?f) ?e (\<lambda>_. None) = Ret (Inr c)"
    by (simp add: Parse_def env pats(1,2) d pats(3) [simplified] w del: run_steps.simps)
  from Parse_settings [OF c refl] have "from_env atoi ?e ''NOZZLE_NUM_WORKERS'' 7 (cfg_NumWorkers c)"
    "from_env_or 0 10 atoi ?e ''NOZZLE_GRAB_INTERVAL'' 0 (cfg_GrabInterval c)"
    by (simp_all add: settings_of_def zero_Config_def)
  with c zero show ?thesis by (intro exI [of _ c]) (simp add: from_env_def from_env_or_def)
qed

text \<open>
  The worker counts are the exception: the environment overrides them after the
  defaults, so \<^verbatim>\<open>NOZZLE_NUM_WORKERS=0\<close> is accepted and the nozzle runs without workers.
\<close>

lemma Parse_zero_workers:
  assumes "e ''NOZZLE_NUM_WORKERS'' = ''0''" and "Parse bytes unmarshal e compile = Ret (Inr c)"
  shows "cfg_NumWorkers c = 0"
  using assms(2)
proof (rule Parse_OkE)
  fix c2 assume w: "run_steps (worker_steps e) c2 = Ret c"
  have "atoi ''0'' = Some 0" by (simp add: atoi_def is_digit_def digits_value_def)
  then show ?thesis
    using w assms(1) by (auto simp: worker_steps_def on_field_def bind_outcome_Ret_iff overrideWithEnvInt_def)
qed

lemma Parse_zero_workers_witness:
  "\<exists>c. Parse (Some []) (\<lambda>_. Some zero_Config) (\<lambda>n. if n = ''NOZZLE_NUM_WORKERS'' then ''0'' else [])
     (\<lambda>_. None) = Ret (Inr c) \<and> cfg_NumWorkers c = 0"
proof -
  let ?e = "\<lambda>n. if n = ''NOZZLE_NUM_WORKERS'' then ''0'' else []"
  have env: "run_steps (env_steps ?e) zero_Config = Ret zero_Config"
    by (rule run_env_steps_unset) simp
  have "atoi ''0'' = Some 0" by (simp add: atoi_def is_digit_def digits_value_def)
  then have ws: "\<exists>c. run_steps (worker_steps ?e) d = Ret c" for d
    by (simp add: worker_steps_def on_field_def overrideWithEnvInt_def)
  obtain d where d: "apply_defaults zero_Config = Inr d"
    by (simp add: apply_defaults_def default_to_def zero_Config_def)
  obtain c where w: "run_steps (worker_steps ?e) d = Ret c" using ws by blast
  have pats: "cfg_MetadataKeysWhitelistPatterns zero_Config = []" "cfg_MetadataKeysBlacklistPatterns zero_Config = []"
    by (simp_all add: zero_Config_def)
  have c: "Parse (Some []) (\<lambda>_. Some zero_Config) ?e (\<lambda>_. None) = Ret (Inr c)"
    by (simp add: Parse_def env pats d w del: run_steps.simps)
  from c Parse_zero_workers [OF _ c] show ?thesis by (intro exI [of _ c]) simp
qed

text \<open>
  C31: The logged form does not depend on the client secret, on the API key or on the keys of the additional
  endpoints, whether there are any or not: configurations that differ in these only (with the same URLs and the
  same number of keys under each) are logged alike, or both panic because a list of keys is null. What is
  logged for the two attributes is the mask.
\<close>

theorem AsLogString_hides_secrets:
  assumes "map_option endpoint_shape es = map_option endpoint_shape es'"
  shows "AsLogString (c\<lparr>cfg_ClientSecret := s, cfg_DataDogAPIKey := k, cfg_DataDogAdditionalEndpoints := es\<rparr>)
       = AsLogString (c\<lparr>cfg_ClientSecret := s', cfg_DataDogAPIKey := k', cfg_DataDogAdditionalEndpoints := es'\<rparr>) \<and>
    (\<forall>m v. AsLogString c = Ret m \<and> ((''ClientSecret'', v) \<in> set m \<or> (''DataDogAPIKey'', v) \<in> set m) \<longrightarrow> v = JStr ''*****'')"
proof
  have same: "gput ''DataDogAdditionalEndpoints'' j
      (masked_json (c\<lparr>cfg_ClientSecret := s, cfg_DataDogAPIKey := k, cfg_DataDogAdditionalEndpoints := e\<rparr>)) =
    gput ''DataDogAdditionalEndpoints'' j (masked_json c)" for j s k e
    using gput_endpoints_masked_json [of j e "c\<lparr>cfg_ClientSecret := s, cfg_DataDogAPIKey := k\<rparr>"]
    by (simp add: masked_json_secret)
  have none: "masked_json (c\<lparr>cfg_ClientSecret := s, cfg_DataDogAPIKey := k, cfg_DataDogAdditionalEndpoints := None\<rparr>) =
      masked_json (c\<lparr>cfg_DataDogAdditionalEndpoints := None\<rparr>)" for s k
    by (simp add: masked_json_def config_json_def)
  show "AsLogString (c\<lparr>cfg_ClientSecret := s, cfg_DataDogAPIKey := k, cfg_DataDogAdditionalEndpoints := es\<rparr>)
       = AsLogString (c\<lparr>cfg_ClientSecret := s', cfg_DataDogAPIKey := k', cfg_DataDogAdditionalEndpoints := es'\<rparr>)"
  proof (cases es)
    case None
    with assms show ?thesis by (simp add: AsLogString_eq none)
  next
    case (Some m)
    with assms obtain m' where "es' = Some m'" "endpoint_shape m = endpoint_shape m'" by (cases es') auto
    with Some mask_keys_shape [of m m'] show ?thesis by (simp add: AsLogString_eq same)
  qed
  have "v = JStr ''*****''" if "(x, v) \<in> set (gput ''DataDogAdditionalEndpoints'' j (masked_json c)) \<or> (x, v) \<in> set (masked_json c)"
    "x \<in> {''ClientSecret'', ''DataDogAPIKey''}" for x j v
    using that by (auto simp: masked_json_def config_json_def masked_def)
  then show "\<forall>m v. AsLogString c = Ret m \<and> ((''ClientSecret'', v) \<in> set m \<or> (''DataDogAPIKey'', v) \<in> set m) \<longrightarrow> v = JStr ''*****''"
    by (fastforce simp: AsLogString_eq bind_outcome_Ret_iff split: option.splits)
qed

theorem AsLogString_hides_secrets_witness:
  "AsLogString (zero_Config\<lparr>cfg_ClientSecret := ''a'', cfg_DataDogAPIKey := ''key1'', cfg_DataDogAdditionalEndpoints := None\<rparr>)
     = AsLogString (zero_Config\<lparr>cfg_ClientSecret := ''b'', cfg_DataDogAPIKey := ''key2'', cfg_DataDogAdditionalEndpoints := None\<rparr>) \<and>
   AsLogString (zero_Config\<lparr>cfg_ClientSecret := ''a'', cfg_DataDogAPIKey := ''key1'',
       cfg_DataDogAdditionalEndpoints := Some [(''https://x'', Some [''k1'', ''k2''])]\<rparr>)
     = AsLogString (zero_Config\<lparr>cfg_ClientSecret := ''b'', cfg_DataDogAPIKey := ''key2'',
       cfg_DataDogAdditionalEndpoints := Some [(''https://x'', Some [''k3'', ''k4''])]\<rparr>)"
  by (intro conjI; rule AsLogString_hides_secrets [THEN conjunct1]; simp add: endpoint_shape_def)

text \<open>
  The token of the Datadog Cluster Agent is not among the masked attributes: whenever
  the configuration is logged, the log holds the token as it is.
\<close>

lemma AsLogString_shows_DCAToken:
  assumes "AsLogString c = Ret m"
  shows "(''DCAToken'', JStr (cfg_DCAToken c)) \<in> set m"
proof -
  have base: "(''DCAToken'', JStr (cfg_DCAToken c)) \<in> set (masked_json c)"
    and ends: "(''DCAToken'', JStr (cfg_DCAToken c)) \<in> set (gput ''DataDogAdditionalEndpoints'' j (masked_json c))" for j
    by (simp_all add: masked_json_def config_json_def)
  show ?thesis
    using assms base ends by (auto simp: AsLogString_eq bind_outcome_Ret_iff split: option.splits)
qed

lemma AsLogString_shows_DCAToken_witness:
  "\<exists>m. AsLogString (zero_Config\<lparr>cfg_DCAToken := ''s3cret''\<rparr>) = Ret m \<and>
     (''DCAToken'', JStr ''s3cret'') \<in> set m"
proof -
  define c where "c = zero_Config\<lparr>cfg_DCAToken := ''s3cret''\<rparr>"
  have "AsLogString c = Ret (sort_key fst (masked_json c))"
    by (simp add: AsLogString_eq c_def zero_Config_def)
  from AsLogString_shows_DCAToken [OF this] this show ?thesis
    by (auto simp: c_def)
qed

end
