(* ===== verification/Go_Path.thy ===== *)
theory Go_Path
  imports Go_Strings
begin

text \<open>
  \<^verbatim>\<open>path.Clean\<close> and \<^verbatim>\<open>path.Join\<close> of two elements: the lexical path that the client appends
  the endpoint of an API to. The components are kept on a stack, the last one first.
\<close>

definition clean_step :: "bool \<Rightarrow> string list \<Rightarrow> string \<Rightarrow> string list" where
  "clean_step rooted stack c =
     (if c = [] \<or> c = ''.'' then stack
      else if c = ''..'' then
        (case stack of
           d # rest \<Rightarrow> if d = ''..'' then ''..'' # stack else rest
         | [] \<Rightarrow> if rooted then [] else [''..''])
      else c # stack)"

definition path_clean :: "string \<Rightarrow> string" where
  "path_clean p =
     (if p = [] then ''.''
      else let rooted = (hd p = CHR ''/'');
               s = join ''/'' (rev (foldl (clean_step rooted) [] (split_char (CHR ''/'') p)))
           in if rooted then ''/'' @ s else if s = [] then ''.'' else s)"

definition path_join :: "string \<Rightarrow> string \<Rightarrow> string" where
  "path_join a b =
     (if a = [] \<and> b = [] then []
      else path_clean (if a = [] then b else if b = [] then a else a @ ''/'' @ b))"

lemma join_append:
  "xs \<noteq> [] \<Longrightarrow> ys \<noteq> [] \<Longrightarrow> join sep (xs @ ys) = join sep xs @ sep @ join sep ys"
  by (induction sep xs rule: join.induct) (auto simp: neq_Nil_conv)

text \<open>Ordinary components at the end of the path are kept as they are.\<close>

definition ordinary :: "string \<Rightarrow> bool" where
  "ordinary c \<longleftrightarrow> c \<noteq> [] \<and> c \<noteq> ''.'' \<and> c \<noteq> ''..'' \<and> CHR ''/'' \<notin> set c"

lemma foldl_clean_ordinary:
  "list_all ordinary cs \<Longrightarrow> foldl (clean_step rooted) st cs = rev cs @ st"
  by (induction cs arbitrary: st) (auto simp: clean_step_def ordinary_def)

lemma split_char_join_append:
  assumes "list_all ordinary cs" and "cs \<noteq> []"
  shows "split_char (CHR ''/'') (a @ ''/'' @ join ''/'' cs) = split_char (CHR ''/'') a @ cs"
proof (induction a)
  case Nil
  then show ?case
    using split_char_join [of cs "CHR ''/''"] assms by (simp add: list_all_iff ordinary_def)
next
  case (Cons x a)
  obtain f fs where f: "split_char (CHR ''/'') a = f # fs" by (metis neq_Nil_conv split_char_nonempty)
  with Cons show ?case by simp
qed

lemma path_join_ordinary:
  assumes "list_all ordinary cs" and "cs \<noteq> []"
  shows "\<exists>pre. path_join a (join ''/'' cs) = pre @ join ''/'' cs"
proof -
  have ne: "join ''/'' cs \<noteq> []" using assms by (cases cs; cases "tl cs") (auto simp: ordinary_def)
  have split: "split_char (CHR ''/'') (join ''/'' cs) = cs"
    using split_char_join [of cs "CHR ''/''"] assms by (simp add: list_all_iff ordinary_def)
  have stack: "\<exists>pre. join ''/'' (rev (rev cs @ st)) = pre @ join ''/'' cs" for st
    using join_append [of "rev st" cs "''/''"] assms(2) by (cases "st = []") auto
  show ?thesis
  proof (cases "a = []")
    case True
    then have "path_join a (join ''/'' cs) = path_clean (join ''/'' cs)" using ne by (simp add: path_join_def)
    with ne split show ?thesis by (auto simp: path_clean_def Let_def foldl_clean_ordinary [OF assms(1)])
  next
    case False
    let ?st = "foldl (clean_step (hd a = CHR ''/'')) [] (split_char (CHR ''/'') a)"
    have "path_join a (join ''/'' cs) = path_clean (a @ ''/'' @ join ''/'' cs)"
      using False ne by (simp add: path_join_def)
    also have "\<dots> = (let s = join ''/'' (rev (rev cs @ ?st)) in
        if hd a = CHR ''/'' then ''/'' @ s else if s = [] then ''.'' else s)"
      using False unfolding path_clean_def split_char_join_append [OF assms] foldl_append
        foldl_clean_ordinary [OF assms(1)]
      by (simp add: Let_def)
    finally have eq: "path_join a (join ''/'' cs) = (let s = join ''/'' (rev (rev cs @ ?st)) in
        if hd a = CHR ''/'' then ''/'' @ s else if s = [] then ''.'' else s)" .
    obtain pre where pre: "join ''/'' (rev (rev cs @ ?st)) = pre @ join ''/'' cs" using stack by blast
    show ?thesis unfolding eq pre Let_def using ne by (auto intro: exI [of _ "''/'' @ pre"])
  qed
qed

end
