(* ===== verification/Go_Http.thy ===== *)
theory Go_Http
  imports Go_Strings
begin

text \<open>
  What the clients use of \<^verbatim>\<open>net/http\<close> and \<^verbatim>\<open>net/url\<close>: the requests they make and what comes
  back, and the encoding of a form. The network is a parameter of the model: a function from
  requests to replies.
\<close>

section \<open>Requests and replies\<close>

record Request =
  rq_Method :: string
  rq_URL :: string
  rq_Header :: "(string \<times> string) list"
  rq_Body :: string

text \<open>
  A request cannot be made (its URL does not parse), has no response, or has one: a status and the
  body, unless reading it fails.
\<close>

datatype reply = NotARequest | NoReply | Reply int "string option"

section \<open>Forms\<close>

text \<open>\<^verbatim>\<open>url.QueryEscape\<close>: a blank becomes a plus, all but unreserved characters are in hexadecimal.\<close>

definition upper_hex :: "nat \<Rightarrow> char" where
  "upper_hex n = (if n < 10 then char_of (48 + n) else char_of (55 + n))"

definition unreserved :: "char \<Rightarrow> bool" where
  "unreserved c \<longleftrightarrow>
     (let n = (of_char c :: nat) in 48 \<le> n \<and> n \<le> 57 \<or> 65 \<le> n \<and> n \<le> 90 \<or> 97 \<le> n \<and> n \<le> 122 \<or>
        n = 45 \<or> n = 95 \<or> n = 46 \<or> n = 126)"

definition escape_char :: "char \<Rightarrow> string" where
  "escape_char c =
     (if unreserved c then [c]
      else if c = CHR '' '' then ''+''
      else let n = (of_char c :: nat) in [CHR ''%'', upper_hex (n div 16), upper_hex (n mod 16)])"

definition query_escape :: "string \<Rightarrow> string" where
  "query_escape s = concat (map escape_char s)"

text \<open>\<^verbatim>\<open>url.Values.Encode\<close> of values with one element each, given in the order of their keys.\<close>

definition encode_form :: "(string \<times> string) list \<Rightarrow> string" where
  "encode_form kvs = join ''&'' (map (\<lambda>(k, v). query_escape k @ ''='' @ query_escape v) kvs)"

text \<open>Reading an escaped string back, as a server does.\<close>

definition hex_value :: "char \<Rightarrow> nat" where
  "hex_value c = (let n = of_char c in if n \<le> 57 then n - 48 else n - 55)"

fun query_unescape :: "string \<Rightarrow> string" where
  "query_unescape [] = []"
| "query_unescape (c # s) =
     (if c = CHR ''+'' then CHR '' '' # query_unescape s
      else if c = CHR ''%'' then
        (case s of
           a # b # t \<Rightarrow> char_of (hex_value a * 16 + hex_value b) # query_unescape t
         | _ \<Rightarrow> [])
      else c # query_unescape s)"

definition decode_form :: "string \<Rightarrow> (string \<times> string) list" where
  "decode_form body =
     map (\<lambda>p. case split_char (CHR ''='') p of
            [k, v] \<Rightarrow> (query_unescape k, query_unescape v) | _ \<Rightarrow> ([], []))
       (split_char (CHR ''&'') body)"

section \<open>Facts\<close>

lemma hex_value_upper_hex: "n < 16 \<Longrightarrow> hex_value (upper_hex n) = n"
  by (simp add: upper_hex_def hex_value_def)

lemma of_char_lt: "(of_char c :: nat) < 256"
  using nat_of_char_less_256 [of c] by simp

lemma hex_digits_lt: "(of_char c :: nat) div 16 < 16 \<and> (of_char c :: nat) mod 16 < 16"
  using of_char_lt [of c] by (simp add: less_mult_imp_div_less)

lemma query_unescape_escape_char: "query_unescape (escape_char c @ s) = c # query_unescape s"
proof (cases "unreserved c")
  case True
  then have "c \<noteq> CHR ''+''" "c \<noteq> CHR ''%''" by (auto simp: unreserved_def Let_def)
  with True show ?thesis by (simp add: escape_char_def)
next
  case False
  with hex_digits_lt [of c] show ?thesis
    by (simp add: escape_char_def Let_def hex_value_upper_hex mult.commute)
qed

lemma query_unescape_escape: "query_unescape (query_escape s) = s"
  by (induction s) (simp_all add: query_escape_def query_unescape_escape_char)

lemma upper_hex_chars: "n < 16 \<Longrightarrow> 48 \<le> (of_char (upper_hex n) :: nat) \<and> (of_char (upper_hex n) :: nat) \<noteq> 61"
  by (auto simp: upper_hex_def)

lemma query_escape_chars: "c \<in> set (query_escape s) \<Longrightarrow> c \<noteq> CHR ''='' \<and> c \<noteq> CHR ''&''"
proof -
  have hex: "upper_hex n \<noteq> CHR ''='' \<and> upper_hex n \<noteq> CHR ''&''" if "n < 16" for n
    using upper_hex_chars [OF that] by auto
  assume "c \<in> set (query_escape s)"
  then obtain d where d: "c \<in> set (escape_char d)" by (auto simp: query_escape_def)
  with hex hex_digits_lt [of d] show ?thesis
    by (auto simp: escape_char_def Let_def unreserved_def split: if_splits)
qed

text \<open>A form can be read back.\<close>

lemma decode_encode_form:
  assumes "kvs \<noteq> []"
  shows "decode_form (encode_form kvs) = kvs"
proof -
  let ?p = "\<lambda>(k, v). query_escape k @ ''='' @ query_escape v"
  have "\<forall>p\<in>set (map ?p kvs). CHR ''&'' \<notin> set p" using query_escape_chars by (fastforce split: prod.splits)
  then have "split_char (CHR ''&'') (encode_form kvs) = map ?p kvs"
    unfolding encode_form_def using assms by (intro split_char_join) auto
  moreover have "split_char (CHR ''='') (?p kv) = [query_escape (fst kv), query_escape (snd kv)]" for kv
  proof -
    have "CHR ''='' \<notin> set (query_escape s)" for s using query_escape_chars by blast
    then show ?thesis by (simp add: split_def split_char_append split_char_no_sep)
  qed
  ultimately show ?thesis by (simp add: decode_form_def query_unescape_escape comp_def)
qed

end
