(* ===== verification/DD_Client.thy ===== *)
theory DD_Client
  imports Formatter Config Go_Path Go_Http
begin

text \<open>
  The client of the Datadog API, \<^verbatim>\<open>internal/client/datadog/client.go\<close>.

  The retrying HTTP client (\<^verbatim>\<open>go-retryablehttp\<close>) is a parameter: what it returns for
  the \<open>n\<close>-th request. Parsed URLs are values of a parameter type with the operations of
  \<^verbatim>\<open>net/url\<close> that the client calls.
\<close>

section \<open>Data\<close>

record Proxy =
  px_HTTP :: string
  px_HTTPS :: string
  px_NoProxy :: "string list"

record Client =
  dd_apiURL :: string
  dd_logIntakeURL :: string
  dd_apiKey :: string
  dd_prefix :: string
  dd_deployment :: string
  dd_ip :: string
  dd_customTags :: "string list"
  dd_maxPostBytes :: uint32
  dd_Timeout :: int
  dd_Proxy :: "Proxy option"
  dd_RetryWaitMin :: int
  dd_RetryWaitMax :: int
  dd_RetryMax :: int

text \<open>Durations are in nanoseconds; dividing them truncates towards zero.\<close>

definition duration_of :: "uint32 \<Rightarrow> int" where
  "duration_of seconds = uint seconds * 1000000000"

definition New ::
  "string \<Rightarrow> string \<Rightarrow> string \<Rightarrow> string \<Rightarrow> string \<Rightarrow> string \<Rightarrow> int \<Rightarrow> int \<Rightarrow> uint32 \<Rightarrow> string list
     \<Rightarrow> Proxy option \<Rightarrow> Client" where
  "New apiURL logIntakeURL apiKey prefix deployment ip writeTimeout flushDuration maxPostBytes customTags proxy =
     \<lparr>dd_apiURL = apiURL, dd_logIntakeURL = logIntakeURL, dd_apiKey = apiKey, dd_prefix = prefix,
      dd_deployment = deployment, dd_ip = ip, dd_customTags = customTags, dd_maxPostBytes = maxPostBytes,
      dd_Timeout = writeTimeout, dd_Proxy = proxy, dd_RetryWaitMin = trunc_div flushDuration 7,
      dd_RetryWaitMax = trunc_div flushDuration 2, dd_RetryMax = 3\<rparr>"

definition new_client :: "Config \<Rightarrow> string \<Rightarrow> Proxy option \<Rightarrow> string \<Rightarrow> string \<Rightarrow> string \<Rightarrow> Client" where
  "new_client config ip proxy endpoint logIntake key =
     New endpoint logIntake key (cfg_MetricPrefix config) (cfg_Deployment config) ip
       (duration_of (cfg_DataDogTimeoutSeconds config)) (duration_of (cfg_FlushDurationSeconds config))
       (cfg_FlushMaxBytes config) (cfg_CustomTags config) proxy"

text \<open>
  The additional endpoints, in the order in which the map is visited: the log intake
  endpoints are given out in that order, one per endpoint, until there are no more.
\<close>

fun additional_clients ::
  "Config \<Rightarrow> string \<Rightarrow> Proxy option \<Rightarrow> nat \<Rightarrow> (string, string list) gomap \<Rightarrow> Client list" where
  "additional_clients config ip proxy i [] = []"
| "additional_clients config ip proxy i ((endpoint, keys) # endpoints) =
     (let logIntakes = cfg_DataDogAdditionalLogIntakeEndpoints config;
          logIntake = (if 0 < length logIntakes \<and> i < length logIntakes then logIntakes ! i else []);
          i' = (if 0 < length logIntakes \<and> i < length logIntakes then i + 1 else i)
      in map (\<lambda>key. new_client config ip proxy endpoint logIntake key) keys
         @ additional_clients config ip proxy i' endpoints)"

definition proxy_of :: "Config \<Rightarrow> Proxy option" where
  "proxy_of config =
     (if cfg_HTTPProxyURL config \<noteq> [] \<or> cfg_HTTPSProxyURL config \<noteq> [] then
        Some \<lparr>px_HTTP = cfg_HTTPProxyURL config, px_HTTPS = cfg_HTTPSProxyURL config,
              px_NoProxy = cfg_NoProxy config\<rparr>
      else None)"

text \<open>\<open>localIP\<close> is the address found, if any; \<open>endpoints\<close> the additional endpoints as visited.\<close>

definition NewClients :: "string option \<Rightarrow> (string, string list) gomap \<Rightarrow> Config \<Rightarrow> Client list outcome" where
  "NewClients localIP endpoints config =
     (case localIP of
        None \<Rightarrow> Panic
      | Some ip \<Rightarrow>
          let proxy = proxy_of config
          in Ret (new_client config ip proxy (cfg_DataDogURL config) (cfg_DataDogLogIntakeURL config)
                    (cfg_DataDogAPIKey config)
                  # additional_clients config ip proxy 0 endpoints))"

section \<open>The endpoints\<close>

record 'u url_ops =
  url_Parse :: "string \<Rightarrow> 'u option"
  url_EscapedPath :: "'u \<Rightarrow> string"
  url_Path :: "'u \<Rightarrow> string"
  url_setPath :: "'u \<Rightarrow> string \<Rightarrow> 'u"
  url_String :: "'u \<Rightarrow> string"

datatype post_error = BadURL | BadRequest | SendError | BadStatus int

definition logsURL :: "'u url_ops \<Rightarrow> Client \<Rightarrow> post_error + string" where
  "logsURL U c =
     (case url_Parse U (dd_logIntakeURL c) of
        None \<Rightarrow> Inl BadURL
      | Some u \<Rightarrow>
          let u' = (if \<not> contains (url_EscapedPath U u) ''api/v2/logs''
                    then url_setPath U u (path_join (url_Path U u) ''api/v2/logs'') else u)
          in Inr (url_String U u'))"

definition seriesURL :: "'u url_ops \<Rightarrow> Client \<Rightarrow> post_error + string" where
  "seriesURL U c =
     (case url_Parse U (dd_apiURL c) of
        None \<Rightarrow> Inl BadURL
      | Some u \<Rightarrow>
          let u' = (if \<not> contains (url_EscapedPath U u) ''api/v1/series''
                    then url_setPath U u (path_join (url_Path U u) ''api/v1/series'') else u)
          in Inr (url_String U u'))"

section \<open>Posting\<close>

datatype http_result = NoRequest | NoResponse | Response int

text \<open>
  What the client's library does with the \<open>n\<close>-th request: it cannot be made, it fails (even
  after the retries), or there is a response with a status code.
\<close>

type_synonym transport = "nat \<Rightarrow> Request \<Rightarrow> http_result"

definition request_for :: "Client \<Rightarrow> string \<Rightarrow> string \<Rightarrow> Request" where
  "request_for c url body =
     \<lparr>rq_Method = ''POST'', rq_URL = url,
      rq_Header = [(''Content-Type'', ''application/json''), (''Content-Encoding'', ''deflate''),
                   (''DD-API-KEY'', dd_apiKey c)],
      rq_Body = body\<rparr>"

definition post_to :: "transport \<Rightarrow> nat \<Rightarrow> Client \<Rightarrow> post_error + string \<Rightarrow> string \<Rightarrow> post_error option" where
  "post_to http n c target body =
     (case target of
        Inl e \<Rightarrow> Some e
      | Inr url \<Rightarrow>
          (case http n (request_for c url body) of
             NoRequest \<Rightarrow> Some BadRequest
           | NoResponse \<Rightarrow> Some SendError
           | Response status \<Rightarrow> if 300 \<le> status \<or> status < 200 then Some (BadStatus status) else None))"

definition postLogs :: "'u url_ops \<Rightarrow> transport \<Rightarrow> nat \<Rightarrow> Client \<Rightarrow> string \<Rightarrow> post_error option" where
  "postLogs U http n c logsBytes = post_to http n c (logsURL U c) logsBytes"

definition postMetrics :: "'u url_ops \<Rightarrow> transport \<Rightarrow> nat \<Rightarrow> Client \<Rightarrow> string \<Rightarrow> post_error option" where
  "postMetrics U http n c seriesBytes = post_to http n c (seriesURL U c) seriesBytes"

text \<open>
  The two loops over the payloads. In the loop of the metrics a payload without data counts
  as one unsent metric.
\<close>

fun logs_loop :: "(nat \<Rightarrow> string \<Rightarrow> post_error option) \<Rightarrow> nat \<Rightarrow> uint64 \<Rightarrow> FormatData list \<Rightarrow> uint64" where
  "logs_loop post n unsentLogs [] = unsentLogs"
| "logs_loop post n unsentLogs (entry # logsData) =
     (case post n (fd_data entry) of
        Some err \<Rightarrow> logs_loop post (n + 1) (unsentLogs + fd_nbrItems entry) logsData
      | None \<Rightarrow> logs_loop post (n + 1) unsentLogs logsData)"

fun metrics_loop :: "(nat \<Rightarrow> string \<Rightarrow> post_error option) \<Rightarrow> nat \<Rightarrow> uint64 \<Rightarrow> FormatData list \<Rightarrow> uint64" where
  "metrics_loop post n unsentMetrics [] = unsentMetrics"
| "metrics_loop post n unsentMetrics (entry # seriesData) =
     (if fd_data entry = [] then metrics_loop post n (unsentMetrics + 1) seriesData
      else case post n (fd_data entry) of
        Some err \<Rightarrow> metrics_loop post (n + 1) (unsentMetrics + fd_nbrItems entry) seriesData
      | None \<Rightarrow> metrics_loop post (n + 1) unsentMetrics seriesData)"

text \<open>The log line shows the last four characters of the key: a shorter key panics.\<close>

definition PostLogs ::
  "compressor \<Rightarrow> 'u url_ops \<Rightarrow> transport \<Rightarrow> Client \<Rightarrow> LogMessage list \<Rightarrow> uint64 outcome" where
  "PostLogs compress U http c msgs =
     (if length (dd_apiKey c) < 4 then Panic
      else Ret (logs_loop (\<lambda>n. postLogs U http n c) 0 0 (FormatLogs compress (dd_maxPostBytes c) msgs)))"

definition PostMetrics ::
  "compressor \<Rightarrow> (nat list \<Rightarrow> MetricsMap \<Rightarrow> MetricsMap) \<Rightarrow> 'u url_ops \<Rightarrow> transport \<Rightarrow> Client \<Rightarrow> MetricsMap
     \<Rightarrow> uint64 outcome" where
  "PostMetrics compress rng U http c metrics =
     (if length (dd_apiKey c) < 4 then Panic
      else Ret (metrics_loop (\<lambda>n. postMetrics U http n c) 0 0
                  (FormatMetrics compress rng (dd_prefix c) (dd_maxPostBytes c) [] metrics)))"

text \<open>The slice of tags is sorted in place by the hash, before the value is built.\<close>

definition MakeInternalMetric :: "Client \<Rightarrow> string \<Rightarrow> string \<Rightarrow> uint64 \<Rightarrow> int \<Rightarrow> MetricKey \<times> MetricValue" where
  "MakeInternalMetric c name type value timestamp =
     (let point = \<lparr>pt_Timestamp = timestamp, pt_Value = f64_of_uint64 value\<rparr>;
          tags = [''deployment:'' @ dd_deployment c, ''ip:'' @ dd_ip c] @ dd_customTags c;
          h = HashTags tags
      in (\<lparr>mk_Name = name, mk_TagsHash = snd h\<rparr>,
          \<lparr>mv_Tags = fst h, mv_Points = [point], mv_Host = [], mv_Type = type\<rparr>))"

section \<open>The proxy\<close>






section \<open>Facts\<close>

text \<open>Counting the items of the payloads: one per entry of the batch.\<close>

definition items :: "FormatData list \<Rightarrow> nat" where
  "items ds = (\<Sum>d\<leftarrow>ds. unat (fd_nbrItems d))"

lemma items_payloads:
  assumes "list_all2 (payload_of encode limit) ds yss" and "length (concat yss) < 2 ^ 64"
  shows "items ds = length (concat yss)"
  using assms
proof (induction ds yss rule: list_all2_induct)
  case (Cons d ds ys yss)
  then show ?case by (simp add: items_def payload_of_def unat_of_nat)
qed (simp add: items_def)

text \<open>What either loop counts: the items of the payloads that were not posted.\<close>

lemma unat_plus_le: "unat (a + b :: uint64) \<le> unat a + unat b"
  by (simp add: unat_word_ariths)

lemma logs_loop_le: "unat (logs_loop post n acc ds) \<le> unat acc + items ds"
proof (induction post n acc ds rule: logs_loop.induct)
  case (2 post n acc entry ds)
  show ?case
    using "2.IH" unat_plus_le [of acc "fd_nbrItems entry"]
    by (cases "post n (fd_data entry)") (fastforce simp: items_def)+
qed simp

lemma metrics_loop_le:
  "(\<forall>d\<in>set ds. fd_nbrItems d \<noteq> 0) \<Longrightarrow> unat (metrics_loop post n acc ds) \<le> unat acc + items ds"
proof (induction post n acc ds rule: metrics_loop.induct)
  case (2 post n acc entry ds)
  have "1 \<le> unat (fd_nbrItems entry)" using "2.prems" by (simp add: unat_eq_zero Suc_le_eq unat_gt_0)
  moreover have "unat (acc + 1) \<le> unat acc + 1" using unat_plus_le [of acc 1] by simp
  ultimately show ?case
    using 2 unat_plus_le [of acc "fd_nbrItems entry"]
    by (cases "fd_data entry = []"; cases "post n (fd_data entry)") (fastforce simp: items_def)+
qed simp

lemma logs_loop_sent: "(\<And>k b. post k b = None) \<Longrightarrow> logs_loop post n acc ds = acc"
  by (induction ds arbitrary: n) simp_all

lemma metrics_loop_sent:
  "(\<And>k b. post k b = None) \<Longrightarrow> (\<forall>d\<in>set ds. fd_data d \<noteq> []) \<Longrightarrow> metrics_loop post n acc ds = acc"
  by (induction ds arbitrary: n) simp_all

lemma logs_loop_unsent:
  assumes "\<And>k b. post k b \<noteq> None"
  shows "logs_loop post n acc ds = acc + (\<Sum>d\<leftarrow>ds. fd_nbrItems d)"
proof (induction ds arbitrary: n acc)
  case (Cons d ds)
  obtain e where "post n (fd_data d) = Some e" using assms by blast
  with Cons show ?case by (simp add: add.assoc)
qed simp

lemma metrics_loop_unsent:
  assumes "\<And>k b. post k b \<noteq> None" and "\<forall>d\<in>set ds. fd_data d \<noteq> []"
  shows "metrics_loop post n acc ds = acc + (\<Sum>d\<leftarrow>ds. fd_nbrItems d)"
  using assms(2)
proof (induction ds arbitrary: n acc)
  case (Cons d ds)
  obtain e where "post n (fd_data d) = Some e" using assms(1) by blast
  with Cons show ?case by (simp add: add.assoc)
qed simp

lemma sum_payloads:
  "list_all2 (payload_of encode limit) ds yss \<Longrightarrow> (\<Sum>d\<leftarrow>ds. fd_nbrItems d) = of_nat (length (concat yss))"
  by (induction ds yss rule: list_all2_induct) (simp_all add: payload_of_def)

lemma payload_nonzero: "payload_of encode limit d ys \<Longrightarrow> length ys < 2 ^ 64 \<Longrightarrow> fd_nbrItems d \<noteq> 0"
  by (auto simp: payload_of_def unat_of_nat dest!: arg_cong [where f = unat])




lemma list_all2_left: "list_all2 R xs ys \<Longrightarrow> x \<in> set xs \<Longrightarrow> \<exists>y\<in>set ys. R x y"
  by (induction xs ys rule: list_all2_induct) auto

lemma PostMetrics_payloads:
  assumes "wf_gomap metrics"
  obtains yss where
    "list_all2 (payload_of (\<lambda>(p :: nat list) m. formatMetrics compress (dd_prefix c) (range_order (rng (0 # p)) m)) (dd_maxPostBytes c))
       (FormatMetrics compress rng (dd_prefix c) (dd_maxPostBytes c) [] metrics) yss"
    "mset (concat yss) \<subseteq># mset metrics"
  using metrics.payloads_part [OF assms] by blast

lemma PostLogs_payloads:
  obtains yss where
    "list_all2 (payload_of (\<lambda>_ :: unit. formatLogs compress) (dd_maxPostBytes c))
       (FormatLogs compress (dd_maxPostBytes c) msgs) yss"
    "mset (concat yss) \<subseteq># mset msgs"
  using log_messages.payloads_part [OF TrueI] by blast

lemma PostMetrics_le:
  assumes "4 \<le> length (dd_apiKey c)" and "wf_gomap metrics" and "length metrics < 2 ^ 64"
  shows "\<exists>unsent. PostMetrics compress rng U http c metrics = Ret unsent \<and> unat unsent \<le> length metrics"
proof -
  obtain yss where yss:
    "list_all2 (payload_of (\<lambda>(p :: nat list) m. formatMetrics compress (dd_prefix c) (range_order (rng (0 # p)) m)) (dd_maxPostBytes c))
       (FormatMetrics compress rng (dd_prefix c) (dd_maxPostBytes c) [] metrics) yss"
    "mset (concat yss) \<subseteq># mset metrics"
    by (rule PostMetrics_payloads [OF assms(2)])
  have len: "length (concat yss) \<le> length metrics" using size_mset_mono [OF yss(2)] by simp
  have nz: "\<forall>d\<in>set (FormatMetrics compress rng (dd_prefix c) (dd_maxPostBytes c) [] metrics). fd_nbrItems d \<noteq> 0"
  proof
    fix d assume "d \<in> set (FormatMetrics compress rng (dd_prefix c) (dd_maxPostBytes c) [] metrics)"
    then obtain ys where ys: "ys \<in> set yss"
      "payload_of (\<lambda>(p :: nat list) m. formatMetrics compress (dd_prefix c) (range_order (rng (0 # p)) m)) (dd_maxPostBytes c) d ys"
      using list_all2_left [OF yss(1)] by blast
    then have "length ys \<le> length (concat yss)" by (auto simp: length_concat intro: member_le_sum_list)
    with len assms(3) show "fd_nbrItems d \<noteq> 0" by (intro payload_nonzero [OF ys(2)]) simp
  qed
  have "unat (metrics_loop (\<lambda>n. postMetrics U http n c) 0 0
      (FormatMetrics compress rng (dd_prefix c) (dd_maxPostBytes c) [] metrics)) \<le> length (concat yss)"
    using metrics_loop_le [OF nz, of "\<lambda>n. postMetrics U http n c" 0 0]
    by (simp only: items_payloads [OF yss(1) le_less_trans [OF len assms(3)], symmetric]) simp
  with len assms(1) show ?thesis by (simp add: PostMetrics_def)
qed

section \<open>What a post counts\<close>

text \<open>When a payload is accepted: the endpoint's URL is one, and the request gets a success status.\<close>

definition accepted :: "transport \<Rightarrow> nat \<Rightarrow> Client \<Rightarrow> post_error + string \<Rightarrow> string \<Rightarrow> bool" where
  "accepted http i c endpoint body \<longleftrightarrow>
     (\<exists>url status. endpoint = Inr url \<and> 200 \<le> status \<and> status < 300 \<and>
        http i \<lparr>rq_Method = ''POST'', rq_URL = url,
          rq_Header = [(''Content-Type'', ''application/json''), (''Content-Encoding'', ''deflate''), (''DD-API-KEY'', dd_apiKey c)],
          rq_Body = body\<rparr> = Response status)"

lemma post_to_accepted: "post_to http i c endpoint body = None \<longleftrightarrow> accepted http i c endpoint body"
  by (auto simp: post_to_def accepted_def request_for_def split: sum.split http_result.split)

lemma logs_loop_sum:
  "logs_loop post n acc ds = acc + (\<Sum>(i, d)\<leftarrow>enumerate n ds. if post i (fd_data d) = None then 0 else fd_nbrItems d)"
  by (induction ds arbitrary: n acc) (auto split: option.split)

lemma metrics_loop_sum:
  "\<forall>d\<in>set ds. fd_data d \<noteq> [] \<Longrightarrow>
   metrics_loop post n acc ds = acc + (\<Sum>(i, d)\<leftarrow>enumerate n ds. if post i (fd_data d) = None then 0 else fd_nbrItems d)"
  by (induction ds arbitrary: n acc) (auto split: option.split)

lemma FormatMetrics_data:
  assumes "\<And>str. compress str \<noteq> Some []" and "wf_gomap m"
  shows "\<forall>d\<in>set (FormatMetrics compress rng (dd_prefix c) (dd_maxPostBytes c) [] m). fd_data d \<noteq> []"
proof
  fix d assume d: "d \<in> set (FormatMetrics compress rng (dd_prefix c) (dd_maxPostBytes c) [] m)"
  obtain yss where
    "list_all2 (payload_of (\<lambda>(p :: nat list) m. formatMetrics compress (dd_prefix c) (range_order (rng (0 # p)) m)) (dd_maxPostBytes c))
       (FormatMetrics compress rng (dd_prefix c) (dd_maxPostBytes c) [] m) yss"
    using PostMetrics_payloads [OF assms(2)] by metis
  from list_all2_left [OF this d] obtain es where "formatMetrics compress (dd_prefix c) es = Inr (fd_data d)"
    by (auto simp: payload_of_def)
  then show "fd_data d \<noteq> []" using assms(1) by (auto simp: formatMetrics_def split: option.splits)
qed

section \<open>The component's properties\<close>

definition some_client :: Client where
  "some_client = New ''https://api'' ''https://logs'' ''0123456789'' ''cf.'' ''d'' ''10.0.0.1'' 0 0 4096 [] None"

definition plain_urls :: "string url_ops" where
  "plain_urls = \<lparr>url_Parse = Some, url_EscapedPath = (\<lambda>u. u), url_Path = (\<lambda>u. u), url_setPath = (\<lambda>u p. p),
     url_String = (\<lambda>u. u)\<rparr>"

lemma some_client_key: "4 \<le> length (dd_apiKey some_client)"
  by (simp add: some_client_def New_def)

text \<open>
  C10: What a post counts as unsent. The payloads of a batch are posted one after the other, each in a request of
  its own, and the result is exactly the number of entries in the payloads whose request was not accepted:
  there was no valid URL, no request, no response, or a status outside the 200s. So a failed payload does not
  keep the later ones from being posted, nor does it change what is counted for them. This is if the API key
  has at least four characters and the compressor never gives an empty text. (What the formatter leaves out,
  such as an entry over the limit, is in no payload and not counted.)
\<close>

theorem posts_count_unsent:
  assumes "4 \<le> length (dd_apiKey c)" and "\<And>str. compress str \<noteq> Some []" and "wf_gomap m"
  shows "PostMetrics compress rng U http c m =
      Ret (\<Sum>(i, d)\<leftarrow>enumerate 0 (FormatMetrics compress rng (dd_prefix c) (dd_maxPostBytes c) [] m).
        if accepted http i c (seriesURL U c) (fd_data d) then 0 else fd_nbrItems d) \<and>
    PostLogs compress U http c msgs =
      Ret (\<Sum>(i, d)\<leftarrow>enumerate 0 (FormatLogs compress (dd_maxPostBytes c) msgs).
        if accepted http i c (logsURL U c) (fd_data d) then 0 else fd_nbrItems d)"
  using assms(1) metrics_loop_sum [OF FormatMetrics_data [OF assms(2,3), where rng = rng and c = c], of "\<lambda>n. postMetrics U http n c" 0 0]
    logs_loop_sum [of "\<lambda>n. postLogs U http n c" 0 0]
  by (simp add: PostMetrics_def PostLogs_def postMetrics_def postLogs_def post_to_accepted)

text \<open>In the witness there is a payload for each of two logs, and only the first is accepted.\<close>

theorem posts_count_unsent_witness:
  "PostLogs (\<lambda>str. Some (if str = json_array [json_log empty_LogMessage] then ''x'' else ''xy'')) plain_urls
     (\<lambda>i _. Response (if i = 0 then 202 else 500)) (some_client\<lparr>dd_maxPostBytes := 1\<rparr>) [empty_LogMessage, empty_LogMessage] = Ret 1"
proof -
  let ?z = "\<lambda>str. Some (if str = json_array [json_log empty_LogMessage] then ''x'' else ''xy'')"
  let ?c = "some_client\<lparr>dd_maxPostBytes := 1\<rparr>"
  have "json_array [json_log empty_LogMessage, json_log empty_LogMessage] \<noteq> json_array [json_log empty_LogMessage]"
    by (simp add: json_array_def json_log_def empty_LogMessage_def)
  then have two: "FormatLogs ?z 1 [empty_LogMessage, empty_LogMessage] =
      [\<lparr>fd_data = ''x'', fd_nbrItems = 1\<rparr>, \<lparr>fd_data = ''x'', fd_nbrItems = 1\<rparr>]"
    by (simp add: FormatLogs.simps formatLogs_def splitLogs_def)
  have key: "4 \<le> length (dd_apiKey ?c)" using some_client_key by simp
  obtain u where url: "logsURL plain_urls ?c = Inr u" by (simp add: logsURL_def plain_urls_def)
  have "accepted (\<lambda>i _. Response (if i = 0 then 202 else 500)) i ?c (logsURL plain_urls ?c) b \<longleftrightarrow> i = 0" for i b
    using url by (auto simp: accepted_def)
  with posts_count_unsent [OF key, of ?z "[]" "\<lambda>_. rev" plain_urls "\<lambda>i _. Response (if i = 0 then 202 else 500)"
      "[empty_LogMessage, empty_LogMessage]"] two
  show ?thesis by (simp add: wf_gomap_def)
qed

text \<open>
  With an API key of at least four characters posting a batch of logs does not panic, and the number
  of unsent logs it reports is at most the size of the batch.
\<close>

lemma PostLogs_unsent_le:
  assumes "4 \<le> length (dd_apiKey c)" and "length msgs < 2 ^ 64"
  shows "\<exists>unsent. PostLogs compress U http c msgs = Ret unsent \<and> unat unsent \<le> length msgs"
proof -
  obtain yss where yss: "list_all2 (payload_of (\<lambda>_ :: unit. formatLogs compress) (dd_maxPostBytes c))
       (FormatLogs compress (dd_maxPostBytes c) msgs) yss" "mset (concat yss) \<subseteq># mset msgs"
    by (rule PostLogs_payloads)
  have len: "length (concat yss) \<le> length msgs" using size_mset_mono [OF yss(2)] by simp
  have "unat (logs_loop (\<lambda>n. postLogs U http n c) 0 0 (FormatLogs compress (dd_maxPostBytes c) msgs)) \<le> length (concat yss)"
    using logs_loop_le [of "\<lambda>n. postLogs U http n c" 0 0]
    by (simp only: items_payloads [OF yss(1) le_less_trans [OF len assms(2)], symmetric]) simp
  with len assms(1) show ?thesis by (simp add: PostLogs_def)
qed

lemma PostLogs_unsent_le_witness:
  "\<exists>unsent. PostLogs Some plain_urls (\<lambda>_ _. NoResponse) some_client [empty_LogMessage] = Ret unsent \<and>
     unat unsent \<le> length [empty_LogMessage]"
  by (rule PostLogs_unsent_le [OF some_client_key]) simp

text \<open>
  The number of unsent logs is right when it matters: if compressing works and every log fits
  alone, it is 0 when every request gets a success status, and the size of the batch when none does.
\<close>

lemma PostLogs_counts:
  assumes "4 \<le> length (dd_apiKey c)" and "\<And>s. compress s \<noteq> None"
    and "\<And>l b. l \<in> set msgs \<Longrightarrow> formatLogs compress [l] = Inr b \<Longrightarrow> of_nat (length b) \<le> dd_maxPostBytes c"
    and "logsURL U c = Inr url"
  shows "((\<forall>n r. \<exists>s. http n r = Response s \<and> 200 \<le> s \<and> s < 300) \<longrightarrow> PostLogs compress U http c msgs = Ret 0) \<and>
    ((\<forall>n r. \<not> (\<exists>s. http n r = Response s \<and> 200 \<le> s \<and> s < 300)) \<longrightarrow>
       PostLogs compress U http c msgs = Ret (of_nat (length msgs)))"
proof (intro conjI impI)
  assume ok: "\<forall>n r. \<exists>s. http n r = Response s \<and> 200 \<le> s \<and> s < 300"
  have "postLogs U http k c b = None" for k b
  proof -
    obtain s where "http k (request_for c url b) = Response s" "200 \<le> s" "s < 300" using ok by blast
    then show ?thesis using assms(4) by (simp add: postLogs_def post_to_def)
  qed
  then show "PostLogs compress U http c msgs = Ret 0"
    using assms(1) by (simp add: PostLogs_def logs_loop_sent)
next
  assume h: "\<forall>n r. \<not> (\<exists>s. http n r = Response s \<and> 200 \<le> s \<and> s < 300)"
  then have fails: "postLogs U http k c b \<noteq> None" for k b
    using assms(4) by (auto simp: postLogs_def post_to_def not_less split: http_result.split)
  obtain yss where yss: "list_all2 (payload_of (\<lambda>_ :: unit. formatLogs compress) (dd_maxPostBytes c))
      (FormatLogs compress (dd_maxPostBytes c) msgs) yss" "mset (concat yss) = mset msgs"
    using log_payloads_all [of compress msgs "dd_maxPostBytes c"] assms(2,3) by blast
  have "length (concat yss) = length msgs" using yss(2) by (metis size_mset)
  then show "PostLogs compress U http c msgs = Ret (of_nat (length msgs))"
    using assms(1) logs_loop_unsent [where post = "\<lambda>n. postLogs U http n c" and n = 0 and acc = 0, OF fails] sum_payloads [OF yss(1)] by (simp add: PostLogs_def)
qed

lemma PostLogs_counts_witness:
  "PostLogs (\<lambda>_. Some ''xy'') plain_urls (\<lambda>_ _. Response 202) some_client [empty_LogMessage] = Ret 0 \<and>
   PostLogs (\<lambda>_. Some ''xy'') plain_urls (\<lambda>_ _. Response 403) some_client [empty_LogMessage] = Ret 1"
proof -
  have small: "\<And>l b. l \<in> set [empty_LogMessage] \<Longrightarrow> formatLogs (\<lambda>_. Some ''xy'') [l] = Inr b \<Longrightarrow>
      of_nat (length b) \<le> dd_maxPostBytes some_client"
    by (auto simp: formatLogs_def some_client_def New_def)
  have url: "\<exists>u. logsURL plain_urls some_client = Inr u"
    by (simp add: logsURL_def plain_urls_def)
  then obtain u where u: "logsURL plain_urls some_client = Inr u" by blast
  show ?thesis
    using PostLogs_counts [where compress = "\<lambda>_. Some ''xy''" and msgs = "[empty_LogMessage]"
        and http = "\<lambda>_ _. Response 202", OF some_client_key _ small u]
      PostLogs_counts [where compress = "\<lambda>_. Some ''xy''" and msgs = "[empty_LogMessage]"
        and http = "\<lambda>_ _. Response 403", OF some_client_key _ small u]
    by simp
qed

text \<open>
  A metric that is too big is lost without being counted: a batch of one metric whose payload
  is over the limit is reported as sent in full, whatever the API answers.
\<close>

lemma PostMetrics_oversize_uncounted:
  assumes "4 \<le> length (dd_apiKey c)" and "formatMetrics compress (dd_prefix c) [e] = Inr b"
    and "dd_maxPostBytes c < of_nat (length b)"
  shows "FormatMetrics compress rng (dd_prefix c) (dd_maxPostBytes c) [] [e] = [] \<and>
    PostMetrics compress rng U http c [e] = Ret 0"
proof -
  have "FormatMetrics compress rng (dd_prefix c) (dd_maxPostBytes c) [] [e] = []"
    using assms by (subst FormatMetrics.simps) simp
  with assms(1) show ?thesis by (simp add: PostMetrics_def)
qed

lemma PostMetrics_oversize_uncounted_witness:
  "PostMetrics (\<lambda>_. Some ''xyz'') (\<lambda>_. rev) plain_urls (\<lambda>_ _. NoResponse) (some_client\<lparr>dd_maxPostBytes := 2\<rparr>)
     [(key1, empty_MetricValue)] = Ret 0"
proof (rule PostMetrics_oversize_uncounted [THEN conjunct2])
  show "4 \<le> length (dd_apiKey (some_client\<lparr>dd_maxPostBytes := 2\<rparr>))"
    using some_client_key by simp
  show "formatMetrics (\<lambda>_. Some ''xyz'') (dd_prefix (some_client\<lparr>dd_maxPostBytes := 2\<rparr>)) [(key1, empty_MetricValue)] =
      Inr ''xyz''"
    by (simp add: formatMetrics_def empty_MetricValue_def removeNANs_def Let_def json_payload_def json_series_def)
qed simp


text \<open>
  The path of the metrics endpoint always holds \<^verbatim>\<open>api/v1/series\<close>: a URL without it gets it at
  the end of its path, cleaned; one that has it is left alone.
\<close>

lemma seriesURL_endpoint:
  assumes "url_Parse U (dd_apiURL c) = Some u"
  shows "\<exists>u'. seriesURL U c = Inr (url_String U u') \<and>
    (u' = u \<and> contains (url_EscapedPath U u) ''api/v1/series'' \<or>
     \<not> contains (url_EscapedPath U u) ''api/v1/series'' \<and>
       (\<exists>pre. u' = url_setPath U u (pre @ ''api/v1/series'')))"
proof -
  have "list_all ordinary [''api'', ''v1'', ''series'']" by (simp add: ordinary_def)
  from path_join_ordinary [OF this, of "url_Path U u"] obtain pre
    where "path_join (url_Path U u) ''api/v1/series'' = pre @ ''api/v1/series''" by auto
  with assms show ?thesis by (auto simp: seriesURL_def Let_def)
qed

lemma seriesURL_endpoint_witness:
  "\<exists>pre. seriesURL plain_urls (some_client\<lparr>dd_apiURL := ''/x/..//y''\<rparr>) = Inr (pre @ ''api/v1/series'')"
proof -
  have "url_Parse plain_urls (dd_apiURL (some_client\<lparr>dd_apiURL := ''/x/..//y''\<rparr>)) = Some ''/x/..//y''"
    by (simp add: plain_urls_def)
  from seriesURL_endpoint [OF this] show ?thesis by (auto simp: plain_urls_def has_prefix_def)
qed

text \<open>
  The accounts: the primary endpoint comes first, then every key of every additional endpoint
  has a client of its own; all clients share the prefix, limits, tags and proxy of the configuration.
\<close>

lemma NewClients_accounts:
  "\<exists>cs. NewClients (Some ip) endpoints config = Ret cs \<and>
     map (\<lambda>c. (dd_apiURL c, dd_apiKey c)) cs =
       (cfg_DataDogURL config, cfg_DataDogAPIKey config) #
         concat (map (\<lambda>(endpoint, keys). map (\<lambda>key. (endpoint, key)) keys) endpoints) \<and>
     list_all (\<lambda>c. dd_prefix c = cfg_MetricPrefix config \<and> dd_maxPostBytes c = cfg_FlushMaxBytes config \<and>
        dd_customTags c = cfg_CustomTags config \<and> dd_Proxy c = proxy_of config \<and> dd_ip c = ip) cs"
proof -
  have "map (\<lambda>c. (dd_apiURL c, dd_apiKey c)) (additional_clients config ip p i es) =
      concat (map (\<lambda>(endpoint, keys). map (\<lambda>key. (endpoint, key)) keys) es)" for p i es
    by (induction config ip p i es rule: additional_clients.induct)
      (auto simp: new_client_def New_def Let_def comp_def)
  moreover have "list_all (\<lambda>c. dd_prefix c = cfg_MetricPrefix config \<and>
      dd_maxPostBytes c = cfg_FlushMaxBytes config \<and> dd_customTags c = cfg_CustomTags config \<and>
      dd_Proxy c = p \<and> dd_ip c = ip) (additional_clients config ip p i es)" for p i es
    by (induction config ip p i es rule: additional_clients.induct)
      (auto simp: new_client_def New_def Let_def list_all_iff)
  ultimately show ?thesis by (simp add: NewClients_def Let_def) (simp add: new_client_def New_def)
qed

end
