(* ===== verification/Infra_Parser.thy ===== *)
theory Infra_Parser
  imports Config
begin

text \<open>
  \<^verbatim>\<open>internal/processor/parser/util.go\<close> and \<^verbatim>\<open>infra.go\<close>: tags and host of an envelope, the
  filter on metadata keys, and the parser of infrastructure envelopes into metric packages
  and log messages. The global \<^verbatim>\<open>config.NozzleConfig\<close> is an argument. A compiled regular
  expression of the parser is represented by its \<^verbatim>\<open>ReplaceAllString(s, "")\<close>.
\<close>

section \<open>Helpers (util.go)\<close>

definition parseHost :: "Envelope \<Rightarrow> string" where
  "parseHost envelope =
     (case gget (ev_Tags envelope) ''index'' of
        Some index \<Rightarrow>
          if index \<noteq> [] then index
          else (case gget (ev_Tags envelope) ''origin'' of
                  Some origin \<Rightarrow> if origin \<noteq> [] then origin else []
                | None \<Rightarrow> [])
      | None \<Rightarrow>
          (case gget (ev_Tags envelope) ''origin'' of
             Some origin \<Rightarrow> if origin \<noteq> [] then origin else []
           | None \<Rightarrow> []))"

definition appendTagIfNotEmpty :: "string list \<Rightarrow> string \<Rightarrow> string \<Rightarrow> string list" where
  "appendTagIfNotEmpty tags key value = (if value \<noteq> [] then tags @ [tag key value] else tags)"

fun any_match :: "(string \<Rightarrow> bool) list \<Rightarrow> string \<Rightarrow> bool" where
  "any_match [] key = False"
| "any_match (re # res) key = (if re key then True else any_match res key)"

definition isMetadataKeyAllowed :: "Config \<Rightarrow> string \<Rightarrow> bool" where
  "isMetadataKeyAllowed cfg key =
     (let allowed0 = (cfg_MetadataKeysWhitelist cfg = []);
          allowed1 = (if any_match (cfg_MetadataKeysWhitelist cfg) key then True else allowed0)
      in if any_match (cfg_MetadataKeysBlacklist cfg) key then False else allowed1)"

definition autodiscoveryTagsMetaPrefix :: string where
  "autodiscoveryTagsMetaPrefix = ''tags.datadoghq.com/''"

fun appendMetadataTags :: "Config \<Rightarrow> string list \<Rightarrow> (string, string) gomap \<Rightarrow> string \<Rightarrow> string list" where
  "appendMetadataTags cfg tags [] keyPrefix = tags"
| "appendMetadataTags cfg tags ((key, v) # metadata) keyPrefix =
     (if has_prefix key autodiscoveryTagsMetaPrefix then
        appendMetadataTags cfg
          (appendTagIfNotEmpty tags (trim_prefix key autodiscoveryTagsMetaPrefix) v) metadata keyPrefix
      else if cfg_EnableMetadataCollection cfg \<and> isMetadataKeyAllowed cfg key then
        appendMetadataTags cfg (appendTagIfNotEmpty tags (keyPrefix @ key) v) metadata keyPrefix
      else appendMetadataTags cfg tags metadata keyPrefix)"

definition getContainerInstanceID :: "Gauge option \<Rightarrow> string \<Rightarrow> string" where
  "getContainerInstanceID gauge instanceID =
     (case gauge of
        None \<Rightarrow> []
      | Some g \<Rightarrow> (case gget g ''instance_index'' of
          Some (Some i) \<Rightarrow> itoa (trunc_int (gv_Value i))
        | _ \<Rightarrow> instanceID))"

section \<open>Tags of an envelope (infra.go)\<close>

record InfraParser =
  ip_Environment :: string
  ip_DeploymentUUIDRegex :: "string \<Rightarrow> string"
  ip_JobPartitionUUIDRegex :: "string \<Rightarrow> string"
  ip_CustomTags :: "string list"

definition NewInfraParser ::
  "string \<Rightarrow> (string \<Rightarrow> string) \<Rightarrow> (string \<Rightarrow> string) \<Rightarrow> string list \<Rightarrow> InfraParser" where
  "NewInfraParser environment deploymentUUIDRegex jobPartitionUUIDRegex customTags =
     \<lparr>ip_Environment = environment, ip_DeploymentUUIDRegex = deploymentUUIDRegex,
      ip_JobPartitionUUIDRegex = jobPartitionUUIDRegex, ip_CustomTags = customTags\<rparr>"

definition parseTags ::
  "Envelope \<Rightarrow> string \<Rightarrow> (string \<Rightarrow> string) \<Rightarrow> (string \<Rightarrow> string) \<Rightarrow> string list" where
  "parseTags envelope environment deploymentUUIDRegex jobPartitionUUIDRegex =
     (let et = ev_Tags envelope;
          t0 = foldl (\<lambda>tags (tname, tvalue). appendTagIfNotEmpty tags tname tvalue) [] et;
          t1 = (case gget et ''origin'' of Some origin \<Rightarrow> appendTagIfNotEmpty t0 ''name'' origin | None \<Rightarrow> t0);
          t2 = appendTagIfNotEmpty t1 ''instance_id'' (ev_InstanceId envelope);
          t3 = appendTagIfNotEmpty t2 ''source_id'' (ev_SourceId envelope);
          t4 = appendTagIfNotEmpty t3 ''container_id'' (gget_str et ''process_instance_id'');
          t5 = appendTagIfNotEmpty t4 ''env'' environment;
          t6 = (case gget et ''deployment'' of
                  Some deployment \<Rightarrow>
                    (let newDeploymentTag = deploymentUUIDRegex deployment;
                         u = (if environment \<noteq> []
                              then appendTagIfNotEmpty t5 ''deployment'' (newDeploymentTag @ ''_'' @ environment)
                              else t5)
                     in if newDeploymentTag \<noteq> deployment
                        then appendTagIfNotEmpty u ''deployment'' newDeploymentTag else u)
                | None \<Rightarrow> t5)
      in (case gget et ''job'' of
            Some job \<Rightarrow>
              (let newJobTag = jobPartitionUUIDRegex job
               in if newJobTag \<noteq> job then appendTagIfNotEmpty t6 ''job'' newJobTag else t6)
          | None \<Rightarrow> t6))"

section \<open>Metrics\<close>

datatype parse_error =
    NotInfraMetric
  | NotLogEnvelope
  | AppMetricsNotConfigured
  | NotAppMetric
  | CacheNotReady
  | AppLookupError

text \<open>Reading the value of a nil gauge entry panics.\<close>

fun gauge_values :: "Gauge \<Rightarrow> (string, float64) gomap outcome" where
  "gauge_values [] = Ret []"
| "gauge_values ((k, v) # g) =
     (case v of
        None \<Rightarrow> Panic
      | Some gv \<Rightarrow> bind_outcome (gauge_values g) (\<lambda>vs. Ret ((k, gv_Value gv) # vs)))"

fun getValues :: "message \<Rightarrow> (string, float64) gomap outcome" where
  "getValues (Envelope_Gauge g) = gauge_values g"
| "getValues (Envelope_Counter c) = Ret [(ct_Name c, f64_of_uint64 (ct_Total c))]"
| "getValues _ = Panic"

definition metric_names :: "Envelope \<Rightarrow> string \<Rightarrow> string list" where
  "metric_names envelope name =
     [name]
     @ (case gget (ev_Tags envelope) ''origin'' of Some origin \<Rightarrow> [origin @ ''.'' @ name] | None \<Rightarrow> [])
     @ (if has_prefix name ''bosh-hm-forwarder''
        then [replace_first name ''bosh-hm-forwarder'' ''bosh.healthmonitor''] else [])"

definition value_packages :: "Envelope \<Rightarrow> string \<Rightarrow> string list \<Rightarrow> string \<times> float64 \<Rightarrow> MetricPackage list" where
  "value_packages envelope tagsHash tags nv =
     (let metricValues = \<lparr>mv_Tags = tags,
            mv_Points = [\<lparr>pt_Timestamp = trunc_div (ev_Timestamp envelope) 1000000000, pt_Value = snd nv\<rparr>],
            mv_Host = parseHost envelope, mv_Type = []\<rparr>
      in map (\<lambda>n. \<lparr>mp_Key = \<lparr>mk_Name = n, mk_TagsHash = tagsHash\<rparr>, mp_Value = metricValues\<rparr>)
           (metric_names envelope (fst nv)))"

definition ParseMetrics :: "InfraParser \<Rightarrow> Envelope \<Rightarrow> (parse_error + MetricPackage list) outcome" where
  "ParseMetrics p envelope =
     (let go =
        (let tags0 = parseTags envelope (ip_Environment p) (ip_DeploymentUUIDRegex p) (ip_JobPartitionUUIDRegex p)
               @ ip_CustomTags p;
             (tags, tagsHash) = HashTags tags0
         in bind_outcome (getValues (ev_Message envelope))
              (\<lambda>values. Ret (Inr (concat (map (value_packages envelope tagsHash tags) values)))))
      in case ev_Message envelope of
           Envelope_Counter _ \<Rightarrow> go
         | Envelope_Gauge _ \<Rightarrow> if \<not> IsContainerMetric (ev_Message envelope) then go else Ret (Inl NotInfraMetric)
         | _ \<Rightarrow> Ret (Inl NotInfraMetric))"

section \<open>Logs\<close>

definition ParseLog :: "Config \<Rightarrow> InfraParser \<Rightarrow> Envelope \<Rightarrow> LogMessage \<times> parse_error option" where
  "ParseLog cfg p envelope =
     (case ev_Message envelope of
        Envelope_Log payload \<Rightarrow>
          (let envTags = parseTags envelope (ip_Environment p) (ip_DeploymentUUIDRegex p)
                 (ip_JobPartitionUUIDRegex p) @ ip_CustomTags p;
               boshCfg = cfg_BoshTagsConfig cfg;
               meta = ExtractMetadataFromEnvelope envelope;
               allTags = (if bt_Enabled boshCfg then envTags @ GenerateBoshTags boshCfg meta else envTags);
               host = (if bt_Enabled boshCfg then GenerateHostname boshCfg meta else parseHost envelope)
           in (empty_LogMessage\<lparr>lm_Hostname := host, lm_Tags := join '','' allTags, lm_Message := payload\<rparr>, None))
      | _ \<Rightarrow> (empty_LogMessage, Some NotLogEnvelope))"

section \<open>Facts about the helpers\<close>

lemma any_match_iff: "any_match res key \<longleftrightarrow> (\<exists>re\<in>set res. re key)"
  by (induction res) auto

lemma isMetadataKeyAllowed_iff:
  "isMetadataKeyAllowed cfg key \<longleftrightarrow>
     (\<forall>re\<in>set (cfg_MetadataKeysBlacklist cfg). \<not> re key) \<and>
     (cfg_MetadataKeysWhitelist cfg = [] \<or> (\<exists>re\<in>set (cfg_MetadataKeysWhitelist cfg). re key))"
  by (auto simp: isMetadataKeyAllowed_def any_match_iff Let_def)

text \<open>A tag proper: a key and a value that is not empty, with a colon between them.\<close>

definition proper_tag :: "string \<Rightarrow> bool" where
  "proper_tag t \<longleftrightarrow> (\<exists>k v. t = tag k v \<and> v \<noteq> [])"

lemma proper_tag_colon: "proper_tag t \<Longrightarrow> CHR '':'' \<in> set t"
  by (auto simp: proper_tag_def tag_def)

lemma proper_appendTag [simp]:
  "list_all proper_tag (appendTagIfNotEmpty tags k v) \<longleftrightarrow> list_all proper_tag tags"
  by (auto simp: appendTagIfNotEmpty_def proper_tag_def)

lemma appendTag_prefix: "\<exists>more. appendTagIfNotEmpty tags k v = tags @ more"
  by (simp add: appendTagIfNotEmpty_def)

lemma proper_appendMetadataTags [simp]:
  "list_all proper_tag (appendMetadataTags cfg tags m pre) \<longleftrightarrow> list_all proper_tag tags"
  by (induction cfg tags m pre rule: appendMetadataTags.induct) auto

lemma appendMetadataTags_prefix: "\<exists>more. appendMetadataTags cfg tags m pre = tags @ more"
proof (induction cfg tags m pre rule: appendMetadataTags.induct)
  case (2 cfg tags key v metadata keyPrefix)
  then show ?case
    using appendTag_prefix [of tags "trim_prefix key autodiscoveryTagsMetaPrefix" v]
      appendTag_prefix [of tags "keyPrefix @ key" v]
    by (auto split: if_splits)
qed simp

text \<open>What a metadata entry adds: its tag, under the autodiscovery prefix or when it is allowed.\<close>

definition metadata_tag :: "Config \<Rightarrow> string \<Rightarrow> string \<times> string \<Rightarrow> string list" where
  "metadata_tag cfg pre kv =
     (if snd kv = [] then []
      else if has_prefix (fst kv) autodiscoveryTagsMetaPrefix
      then [tag (trim_prefix (fst kv) autodiscoveryTagsMetaPrefix) (snd kv)]
      else if cfg_EnableMetadataCollection cfg \<and> isMetadataKeyAllowed cfg (fst kv)
      then [tag (pre @ fst kv) (snd kv)] else [])"

lemma appendMetadataTags_eq:
  "appendMetadataTags cfg tags m pre = tags @ concat (map (metadata_tag cfg pre) m)"
  by (induction cfg tags m pre rule: appendMetadataTags.induct)
    (auto simp: metadata_tag_def appendTagIfNotEmpty_def)

lemma foldl_appendTag:
  "foldl (\<lambda>tags (k, v). appendTagIfNotEmpty tags k v) ts m =
     ts @ map (\<lambda>(k, v). tag k v) (filter (\<lambda>(k, v). v \<noteq> []) m)"
  by (induction m arbitrary: ts) (auto simp: appendTagIfNotEmpty_def)

lemma proper_parseTags: "list_all proper_tag (parseTags envelope env d j)"
proof -
  have "list_all proper_tag (foldl (\<lambda>tags (k, v). appendTagIfNotEmpty tags k v) [] m)" for m
    by (auto simp: foldl_appendTag list_all_iff proper_tag_def)
  then show ?thesis by (simp add: parseTags_def Let_def split: option.split)
qed

lemma gauge_values_Ret:
  "gauge_values g = Ret vs \<Longrightarrow> map fst vs = map fst g"
  by (induction g arbitrary: vs) (auto simp: bind_outcome_Ret_iff split: option.splits)

lemma gauge_values_Panic_iff: "gauge_values g = Panic \<longleftrightarrow> None \<in> snd ` set g"
  by (induction g) (force simp: bind_outcome_Panic_iff split: option.splits)+


section \<open>The component's properties\<close>


definition infra_metric :: "message \<Rightarrow> bool" where
  "infra_metric m \<longleftrightarrow> (case m of Envelope_Counter _ \<Rightarrow> True | Envelope_Gauge _ \<Rightarrow> \<not> IsContainerMetric m | _ \<Rightarrow> False)"

definition has_nil_value :: "message \<Rightarrow> bool" where
  "has_nil_value m \<longleftrightarrow> (case m of Envelope_Gauge g \<Rightarrow> None \<in> snd ` set g | _ \<Rightarrow> False)"

lemma getValues_Panic: "infra_metric m \<Longrightarrow> getValues m = Panic \<longleftrightarrow> has_nil_value m"
  by (cases m) (simp_all add: infra_metric_def has_nil_value_def gauge_values_Panic_iff)



lemma ParseMetrics_unfold:
  "ParseMetrics p e =
     (if \<not> infra_metric (ev_Message e) then Ret (Inl NotInfraMetric)
      else let t = HashTags (parseTags e (ip_Environment p) (ip_DeploymentUUIDRegex p) (ip_JobPartitionUUIDRegex p)
             @ ip_CustomTags p)
           in bind_outcome (getValues (ev_Message e))
                (\<lambda>values. Ret (Inr (concat (map (value_packages e (snd t) (fst t)) values)))))"
  by (cases "ev_Message e") (simp_all add: ParseMetrics_def infra_metric_def Let_def split_def)

lemma ParseMetrics_total:
  "infra_metric (ev_Message e) \<Longrightarrow> \<not> has_nil_value (ev_Message e) \<Longrightarrow> \<exists>ps. ParseMetrics p e = Ret (Inr ps)"
  using getValues_Panic [of "ev_Message e"]
  by (cases "getValues (ev_Message e)") (auto simp: ParseMetrics_unfold Let_def)


text \<open>The deployment's UUID: a dash and twenty hexadecimal digits at the end are cut off.\<close>

lemma dash_not_hex: "\<not> is_hex (CHR ''-'')"
  by (simp add: is_hex_def is_digit_def)

lemma strip_uuids_end:
  assumes "length h = 20" and "list_all is_hex h" and "\<And>a b. d = a @ b \<Longrightarrow> \<not> uuid_match ''-'' b"
  shows "strip_uuids ''-'' (d @ CHR ''-'' # h) = d"
  using assms(3)
proof (induction d)
  case Nil
  have "uuid_match ''-'' (CHR ''-'' # h)" using assms(1,2) by (simp add: uuid_match_def has_prefix_def)
  then show ?case using assms(1) by (simp add: strip_uuids_match)
next
  case (Cons c d)
  have no: "\<not> uuid_match ''-'' (c # d @ CHR ''-'' # h)"
  proof
    assume m: "uuid_match ''-'' (c # d @ CHR ''-'' # h)"
    then have c: "c = CHR ''-''" and hex: "list_all is_hex (take 20 (d @ CHR ''-'' # h))"
      by (auto simp: uuid_match_def has_prefix_def)
    show False
    proof (cases "20 \<le> length d")
      case True
      then have "uuid_match ''-'' (c # d)" using c hex by (simp add: uuid_match_def has_prefix_def)
      then show False using Cons.prems [of "[]" "c # d"] by simp
    next
      case False
      then have "CHR ''-'' \<in> set (take 20 (d @ CHR ''-'' # h))" by (simp add: take_Cons')
      with hex dash_not_hex show False by (auto simp: list_all_iff)
    qed
  qed
  have "strip_uuids ''-'' (d @ CHR ''-'' # h) = d"
  proof (rule Cons.IH)
    fix a b assume "d = a @ b"
    then show "\<not> uuid_match ''-'' b" using Cons.prems [of "c # a" b] by simp
  qed
  with no show ?case by (simp add: strip_uuids_skip)
qed

lemma set_appendTag:
  "set (appendTagIfNotEmpty tags k v) = (if v \<noteq> [] then insert (tag k v) (set tags) else set tags)"
  by (simp add: appendTagIfNotEmpty_def)

text \<open>
  The deployment of an envelope whose name ends in a UUID (and has no other) is tagged with its
  name as it is, without the UUID, and without the UUID but with the environment.
\<close>

lemma parseTags_deployment:
  assumes "wf_gomap (ev_Tags e)" and "gget (ev_Tags e) ''deployment'' = Some (d @ CHR ''-'' # h)"
    and "length h = 20" and "list_all is_hex h" and "d \<noteq> []" and "\<And>a b. d = a @ b \<Longrightarrow> \<not> uuid_match ''-'' b"
  shows "tag ''deployment'' (d @ CHR ''-'' # h) \<in> set (parseTags e env (strip_uuids ''-'') j) \<and>
    tag ''deployment'' d \<in> set (parseTags e env (strip_uuids ''-'') j) \<and>
    (env = [] \<or> tag ''deployment'' (d @ ''_'' @ env) \<in> set (parseTags e env (strip_uuids ''-'') j))"
proof -
  have strip: "strip_uuids ''-'' (d @ CHR ''-'' # h) = d" by (rule strip_uuids_end [OF assms(3,4,6)])
  let ?t0 = "foldl (\<lambda>tags (tname, tvalue). appendTagIfNotEmpty tags tname tvalue) [] (ev_Tags e)"
  have "(''deployment'', d @ CHR ''-'' # h) \<in> set (ev_Tags e)" by (rule gget_in_set [OF assms(2)])
  then have "tag ''deployment'' (d @ CHR ''-'' # h) \<in> set ?t0"
    unfolding foldl_appendTag by (fastforce simp: image_iff)
  moreover define t1 where "t1 = (case gget (ev_Tags e) ''origin'' of
      Some origin \<Rightarrow> appendTagIfNotEmpty ?t0 ''name'' origin | None \<Rightarrow> ?t0)"
  ultimately have "tag ''deployment'' (d @ CHR ''-'' # h) \<in> set t1"
    by (simp add: set_appendTag split: option.split)
  moreover define t5 where "t5 = appendTagIfNotEmpty (appendTagIfNotEmpty (appendTagIfNotEmpty (appendTagIfNotEmpty
      t1 ''instance_id'' (ev_InstanceId e)) ''source_id'' (ev_SourceId e))
      ''container_id'' (gget_str (ev_Tags e) ''process_instance_id'')) ''env'' env"
  ultimately have t5: "tag ''deployment'' (d @ CHR ''-'' # h) \<in> set t5" by (simp add: set_appendTag)
  define u where "u = (if env \<noteq> [] then appendTagIfNotEmpty t5 ''deployment'' (d @ ''_'' @ env) else t5)"
  have "parseTags e env (strip_uuids ''-'') j =
      (let t6 = appendTagIfNotEmpty u ''deployment'' d
       in case gget (ev_Tags e) ''job'' of
            Some job \<Rightarrow> if j job \<noteq> job then appendTagIfNotEmpty t6 ''job'' (j job) else t6
          | None \<Rightarrow> t6)"
    unfolding parseTags_def Let_def t1_def [symmetric] t5_def [symmetric] assms(2) option.case strip u_def by simp
  then have "set (appendTagIfNotEmpty u ''deployment'' d) \<subseteq> set (parseTags e env (strip_uuids ''-'') j)"
    by (auto simp: Let_def set_appendTag split: option.split)
  moreover have "tag ''deployment'' (d @ CHR ''-'' # h) \<in> set u" "env = [] \<or> tag ''deployment'' (d @ ''_'' @ env) \<in> set u"
    using t5 by (auto simp: u_def set_appendTag)
  ultimately show ?thesis using assms(5) by (auto simp: set_appendTag)
qed

definition uuid_envelope :: Envelope where
  "uuid_envelope = \<lparr>ev_Timestamp = 0, ev_SourceId = [], ev_InstanceId = [],
     ev_Tags = [(''deployment'', ''cf-0123456789abcdef0123'')], ev_Message = Envelope_None\<rparr>"

lemma parseTags_deployment_witness:
  "tag ''deployment'' ''cf'' \<in> set (parseTags uuid_envelope ''prod'' (strip_uuids ''-'') (\<lambda>j. j)) \<and>
   tag ''deployment'' ''cf_prod'' \<in> set (parseTags uuid_envelope ''prod'' (strip_uuids ''-'') (\<lambda>j. j))"
proof -
  have "\<not> uuid_match ''-'' b" if "''cf'' = a @ b" for a b
  proof -
    have "length b \<le> 2" using arg_cong [OF that, of length] by simp
    then show ?thesis by (auto simp: uuid_match_def Let_def)
  qed
  then show ?thesis
    using parseTags_deployment [of uuid_envelope "''cf''" "''0123456789abcdef0123''" "''prod''" "\<lambda>j. j"]
    by (simp add: uuid_envelope_def wf_gomap_def is_hex_def is_digit_def)
qed

end
