(* ===== verification/CF_Types.thy ===== *)
theory CF_Types
  imports Config
begin

text \<open>
  The data of \<^verbatim>\<open>internal/client/cloudfoundry/client.go\<close> and the functions that fill an
  application from the v2 and v3 resources. The resource types of the \<^verbatim>\<open>go-cfclient\<close> package
  (\<^verbatim>\<open>App\<close>, \<^verbatim>\<open>Process\<close>, \<^verbatim>\<open>V3Organization\<close>) are records of the fields the code reads, the nested
  structs flattened.

  A nil map is \<open>None\<close>: reading and ranging over it is fine, writing to it panics.
\<close>

section \<open>Data\<close>

record CFSidecar =
  sc_Name :: string
  sc_GUID :: string

record CFApplication =
  cf_GUID :: string
  cf_Name :: string
  cf_SpaceGUID :: string
  cf_SpaceName :: string
  cf_OrgName :: string
  cf_OrgGUID :: string
  cf_Instances :: int
  cf_Buildpacks :: "string list"
  cf_DiskQuota :: int
  cf_TotalDiskQuota :: int
  cf_Memory :: int
  cf_TotalMemory :: int
  cf_Labels :: "(string, string) gomap option"
  cf_Annotations :: "(string, string) gomap option"
  cf_Sidecars :: "CFSidecar list option"

definition zero_CFApplication :: CFApplication where
  "zero_CFApplication = \<lparr>cf_GUID = [], cf_Name = [], cf_SpaceGUID = [], cf_SpaceName = [],
     cf_OrgName = [], cf_OrgGUID = [], cf_Instances = 0, cf_Buildpacks = [], cf_DiskQuota = 0,
     cf_TotalDiskQuota = 0, cf_Memory = 0, cf_TotalMemory = 0, cf_Labels = None,
     cf_Annotations = None, cf_Sidecars = None\<rparr>"

record CFOrgQuota =
  oq_GUID :: string
  oq_MemoryLimit :: int

record V2App =
  v2_Guid :: string
  v2_Name :: string
  v2_Instances :: int
  v2_DiskQuota :: int
  v2_Memory :: int
  v2_Buildpack :: string
  v2_DetectedBuildpack :: string
  v2_SpaceGuid :: string
  v2_SpaceName :: string
  v2_OrgName :: string
  v2_OrgGuid :: string

record v3AppResource =
  v3a_GUID :: string
  v3a_Name :: string
  v3a_SpaceGUID :: string
  v3a_BuildPacks :: "string list"
  v3a_Labels :: "(string, string) gomap option"
  v3a_Annotations :: "(string, string) gomap option"

record v3SpaceResource =
  v3s_GUID :: string
  v3s_Name :: string
  v3s_OrganizationGUID :: string
  v3s_Labels :: "(string, string) gomap option"
  v3s_Annotations :: "(string, string) gomap option"

record v3OrgResource =
  v3o_GUID :: string
  v3o_Name :: string
  v3o_Suspended :: bool
  v3o_QuotaGUID :: string
  v3o_Labels :: "(string, string) gomap option"
  v3o_Annotations :: "(string, string) gomap option"

record Process =
  pr_AppHref :: string
  pr_Instances :: int
  pr_DiskInMB :: int
  pr_MemoryInMB :: int

text \<open>The entries of a map that may be nil.\<close>

definition entries :: "('k, 'v) gomap option \<Rightarrow> ('k, 'v) gomap" where
  "entries m = (case m of None \<Rightarrow> [] | Some es \<Rightarrow> es)"

section \<open>Filling an application\<close>

definition setV2AppData :: "CFApplication \<Rightarrow> V2App \<Rightarrow> CFApplication" where
  "setV2AppData a data =
     a\<lparr>cf_GUID := v2_Guid data, cf_Name := v2_Name data,
       cf_SpaceGUID := v2_SpaceGuid data, cf_SpaceName := v2_SpaceName data,
       cf_OrgName := v2_OrgName data, cf_OrgGUID := v2_OrgGuid data,
       cf_Instances := v2_Instances data, cf_DiskQuota := v2_DiskQuota data,
       cf_Memory := v2_Memory data,
       cf_TotalDiskQuota := wrap_int (v2_DiskQuota data * v2_Instances data),
       cf_TotalMemory := wrap_int (v2_Memory data * v2_Instances data),
       cf_Buildpacks := (if v2_Buildpack data \<noteq> [] then [v2_Buildpack data]
                         else if v2_DetectedBuildpack data \<noteq> [] then [v2_DetectedBuildpack data] else [])\<rparr>"

definition setV3AppData :: "CFApplication \<Rightarrow> v3AppResource \<Rightarrow> CFApplication" where
  "setV3AppData a data =
     a\<lparr>cf_GUID := v3a_GUID data, cf_Name := v3a_Name data, cf_SpaceGUID := v3a_SpaceGUID data,
       cf_Buildpacks := v3a_BuildPacks data,
       cf_Annotations := Some (entries (v3a_Annotations data)),
       cf_Labels := Some (entries (v3a_Labels data))\<rparr>"

text \<open>The totals over the processes of an app, in the order of the loop's variables.\<close>

record process_totals =
  pt_instances :: int
  pt_diskConfigured :: int
  pt_diskProvisioned :: int
  pt_memoryConfigured :: int
  pt_memoryProvisioned :: int

definition add_process :: "process_totals \<Rightarrow> Process \<Rightarrow> process_totals" where
  "add_process t p =
     (let instances = pr_Instances p;
          diskInMbConfigured = pr_DiskInMB p;
          diskInMbProvisioned = wrap_int (instances * diskInMbConfigured);
          memoryInMbConfigured = pr_MemoryInMB p;
          memoryInMbProvisioned = wrap_int (instances * memoryInMbConfigured)
      in \<lparr>pt_instances = wrap_int (pt_instances t + instances),
          pt_diskConfigured = wrap_int (pt_diskConfigured t + diskInMbConfigured),
          pt_diskProvisioned = wrap_int (pt_diskProvisioned t + diskInMbProvisioned),
          pt_memoryConfigured = wrap_int (pt_memoryConfigured t + memoryInMbConfigured),
          pt_memoryProvisioned = wrap_int (pt_memoryProvisioned t + memoryInMbProvisioned)\<rparr>)"

definition zero_totals :: process_totals where
  "zero_totals = \<lparr>pt_instances = 0, pt_diskConfigured = 0, pt_diskProvisioned = 0,
     pt_memoryConfigured = 0, pt_memoryProvisioned = 0\<rparr>"

definition setV3ProcessData :: "CFApplication \<Rightarrow> Process list \<Rightarrow> CFApplication" where
  "setV3ProcessData a data =
     (if data = [] then a
      else let t = foldl add_process zero_totals data
           in a\<lparr>cf_Instances := pt_instances t, cf_DiskQuota := pt_diskConfigured t,
                cf_Memory := pt_memoryConfigured t, cf_TotalDiskQuota := pt_diskProvisioned t,
                cf_TotalMemory := pt_memoryProvisioned t\<rparr>)"

text \<open>
  \<^verbatim>\<open>for key, value := range src { if _, ok := dst[key]; !ok { dst[key] = value } }\<close>: entries
  that are not overridden. A write to the nil map panics.
\<close>

fun inherit :: "('k, 'v) gomap option \<Rightarrow> ('k, 'v) gomap \<Rightarrow> ('k, 'v) gomap option outcome" where
  "inherit dst [] = Ret dst"
| "inherit dst ((key, value) # src) =
     (case dst of
        None \<Rightarrow> Panic
      | Some m \<Rightarrow> (case gget m key of
          Some _ \<Rightarrow> inherit (Some m) src
        | None \<Rightarrow> inherit (Some (gput key value m)) src))"

definition setV3SpaceData :: "CFApplication \<Rightarrow> v3SpaceResource \<Rightarrow> CFApplication outcome" where
  "setV3SpaceData a data =
     bind_outcome (inherit (cf_Annotations a) (entries (v3s_Annotations data))) (\<lambda>an.
       bind_outcome (inherit (cf_Labels a) (entries (v3s_Labels data))) (\<lambda>la.
         Ret (a\<lparr>cf_SpaceName := v3s_Name data, cf_OrgGUID := v3s_OrganizationGUID data,
                cf_Annotations := an, cf_Labels := la\<rparr>)))"

definition setV3OrgData :: "CFApplication \<Rightarrow> v3OrgResource \<Rightarrow> CFApplication outcome" where
  "setV3OrgData a data =
     bind_outcome (inherit (cf_Annotations a) (entries (v3o_Annotations data))) (\<lambda>an.
       bind_outcome (inherit (cf_Labels a) (entries (v3o_Labels data))) (\<lambda>la.
         Ret (a\<lparr>cf_OrgName := v3o_Name data, cf_Annotations := an, cf_Labels := la\<rparr>)))"

section \<open>Facts\<close>

lemma inherit_Some: "\<exists>m'. inherit (Some m) src = Ret (Some m')"
  by (induction "Some m" src arbitrary: m rule: inherit.induct) (auto split: option.split)

lemma inherit_lookup:
  assumes "inherit (Some m) src = Ret (Some m')"
  shows "gget m' k = (case gget m k of Some v \<Rightarrow> Some v | None \<Rightarrow> gget src k)"
  using assms
proof (induction src arbitrary: m)
  case (Cons e src)
  obtain key v where e: "e = (key, v)" by fastforce
  show ?case
  proof (cases "gget m key")
    case None
    then have "inherit (Some (gput key v m)) src = Ret (Some m')" using Cons.prems e by simp
    from Cons.IH [OF this] None show ?thesis by (auto simp: e gget_gput split: option.split)
  next
    case (Some w)
    then have "inherit (Some m) src = Ret (Some m')" using Cons.prems e by simp
    from Cons.IH [OF this] Some show ?thesis by (auto simp: e split: option.split)
  qed
qed (simp split: option.split)

lemma inherit_wf: "inherit (Some m) src = Ret (Some m') \<Longrightarrow> wf_gomap m \<Longrightarrow> wf_gomap m'"
proof (induction src arbitrary: m)
  case (Cons e src)
  obtain key v where e: "e = (key, v)" by fastforce
  show ?case
    using Cons.IH [of m] Cons.IH [of "gput key v m"] Cons.prems
    by (cases "gget m key") (simp_all add: e wf_gput)
qed simp

lemma setV3SpaceData_Ret:
  assumes "cf_Annotations a = Some an" and "cf_Labels a = Some la"
  obtains an' la' where
    "setV3SpaceData a s = Ret (a\<lparr>cf_SpaceName := v3s_Name s, cf_OrgGUID := v3s_OrganizationGUID s,
       cf_Annotations := Some an', cf_Labels := Some la'\<rparr>)"
    "inherit (Some an) (entries (v3s_Annotations s)) = Ret (Some an')"
    "inherit (Some la) (entries (v3s_Labels s)) = Ret (Some la')"
proof -
  obtain an' la' where "inherit (Some an) (entries (v3s_Annotations s)) = Ret (Some an')"
    "inherit (Some la) (entries (v3s_Labels s)) = Ret (Some la')"
    using inherit_Some by meson
  with that show ?thesis by (simp add: setV3SpaceData_def assms)
qed

lemma setV3OrgData_Ret:
  assumes "cf_Annotations a = Some an" and "cf_Labels a = Some la"
  obtains an' la' where
    "setV3OrgData a s = Ret (a\<lparr>cf_OrgName := v3o_Name s, cf_Annotations := Some an', cf_Labels := Some la'\<rparr>)"
    "inherit (Some an) (entries (v3o_Annotations s)) = Ret (Some an')"
    "inherit (Some la) (entries (v3o_Labels s)) = Ret (Some la')"
proof -
  obtain an' la' where "inherit (Some an) (entries (v3o_Annotations s)) = Ret (Some an')"
    "inherit (Some la) (entries (v3o_Labels s)) = Ret (Some la')"
    using inherit_Some by meson
  with that show ?thesis by (simp add: setV3OrgData_def assms)
qed

text \<open>Wrapping at each step of a sum is wrapping the sum.\<close>

lemma wrap_int_add: "wrap_int (wrap_int a + b) = wrap_int (a + b)"
  by (simp add: wrap_int_def mod_simps algebra_simps)

lemma foldl_wrap_sum:
  "foldl (\<lambda>acc p. wrap_int (acc + f p)) (wrap_int a) ps = wrap_int (a + sum_list (map f ps))"
  by (induction ps arbitrary: a) (simp_all add: wrap_int_add add.assoc)

lemma wrap_int_add_right: "wrap_int (a + wrap_int b) = wrap_int (a + b)"
  using wrap_int_add [of b a] by (simp add: add.commute)

lemma foldl_add_process:
  "foldl add_process
     \<lparr>pt_instances = wrap_int a, pt_diskConfigured = wrap_int b, pt_diskProvisioned = wrap_int c,
      pt_memoryConfigured = wrap_int d, pt_memoryProvisioned = wrap_int e\<rparr> ps =
   \<lparr>pt_instances = wrap_int (a + sum_list (map pr_Instances ps)),
    pt_diskConfigured = wrap_int (b + sum_list (map pr_DiskInMB ps)),
    pt_diskProvisioned = wrap_int (c + sum_list (map (\<lambda>p. pr_Instances p * pr_DiskInMB p) ps)),
    pt_memoryConfigured = wrap_int (d + sum_list (map pr_MemoryInMB ps)),
    pt_memoryProvisioned = wrap_int (e + sum_list (map (\<lambda>p. pr_Instances p * pr_MemoryInMB p) ps))\<rparr>"
  by (induction ps arbitrary: a b c d e)
    (simp_all add: add_process_def Let_def wrap_int_add wrap_int_add_right add.assoc)

lemma zero_totals_eq:
  "zero_totals = \<lparr>pt_instances = wrap_int 0, pt_diskConfigured = wrap_int 0,
     pt_diskProvisioned = wrap_int 0, pt_memoryConfigured = wrap_int 0, pt_memoryProvisioned = wrap_int 0\<rparr>"
  by (simp add: zero_totals_def wrap_int_def)

text \<open>
  The quotas of an application with processes are the sums over its processes, the provisioned ones
  weighted by the number of instances, all modulo the width of an int.
\<close>

lemma setV3ProcessData_eq:
  assumes "ps \<noteq> []"
  shows "setV3ProcessData a ps =
    a\<lparr>cf_Instances := wrap_int (\<Sum>p\<leftarrow>ps. pr_Instances p),
      cf_DiskQuota := wrap_int (\<Sum>p\<leftarrow>ps. pr_DiskInMB p),
      cf_Memory := wrap_int (\<Sum>p\<leftarrow>ps. pr_MemoryInMB p),
      cf_TotalDiskQuota := wrap_int (\<Sum>p\<leftarrow>ps. pr_Instances p * pr_DiskInMB p),
      cf_TotalMemory := wrap_int (\<Sum>p\<leftarrow>ps. pr_Instances p * pr_MemoryInMB p)\<rparr>"
  using assms foldl_add_process [of 0 0 0 0 0 ps]
  by (simp add: setV3ProcessData_def zero_totals_eq Let_def)

section \<open>The component's properties\<close>

text \<open>
  Space data, then organization data, never panic on an application built from a v3
  resource, and a label of the app wins over one of the space, which wins over one of the
  organization. The same holds for annotations.
\<close>

lemma v3_metadata_precedence:
  "\<exists>a1 a2 labels annotations.
     setV3SpaceData (setV3AppData a app) space = Ret a1 \<and> setV3OrgData a1 org = Ret a2 \<and>
     cf_Labels a2 = Some labels \<and> cf_Annotations a2 = Some annotations \<and>
     (\<forall>k. gget labels k =
       (case gget (entries (v3a_Labels app)) k of Some v \<Rightarrow> Some v | None \<Rightarrow>
         (case gget (entries (v3s_Labels space)) k of Some v \<Rightarrow> Some v | None \<Rightarrow>
           gget (entries (v3o_Labels org)) k))) \<and>
     (\<forall>k. gget annotations k =
       (case gget (entries (v3a_Annotations app)) k of Some v \<Rightarrow> Some v | None \<Rightarrow>
         (case gget (entries (v3s_Annotations space)) k of Some v \<Rightarrow> Some v | None \<Rightarrow>
           gget (entries (v3o_Annotations org)) k)))"
proof -
  let ?a = "setV3AppData a app"
  have "cf_Annotations ?a = Some (entries (v3a_Annotations app))" "cf_Labels ?a = Some (entries (v3a_Labels app))"
    by (simp_all add: setV3AppData_def)
  then obtain an la where s: "setV3SpaceData ?a space = Ret (?a\<lparr>cf_SpaceName := v3s_Name space,
       cf_OrgGUID := v3s_OrganizationGUID space, cf_Annotations := Some an, cf_Labels := Some la\<rparr>)"
    and i1: "inherit (Some (entries (v3a_Annotations app))) (entries (v3s_Annotations space)) = Ret (Some an)"
    and i2: "inherit (Some (entries (v3a_Labels app))) (entries (v3s_Labels space)) = Ret (Some la)"
    by (rule setV3SpaceData_Ret)
  let ?b = "?a\<lparr>cf_SpaceName := v3s_Name space, cf_OrgGUID := v3s_OrganizationGUID space,
      cf_Annotations := Some an, cf_Labels := Some la\<rparr>"
  obtain an' la' where o: "setV3OrgData ?b org = Ret (?b\<lparr>cf_OrgName := v3o_Name org,
       cf_Annotations := Some an', cf_Labels := Some la'\<rparr>)"
    and i3: "inherit (Some an) (entries (v3o_Annotations org)) = Ret (Some an')"
    and i4: "inherit (Some la) (entries (v3o_Labels org)) = Ret (Some la')"
    by (rule setV3OrgData_Ret [of ?b an la]) simp_all
  show ?thesis
    by (rule exI [of _ ?b], rule exI [of _ "?b\<lparr>cf_OrgName := v3o_Name org,
       cf_Annotations := Some an', cf_Labels := Some la'\<rparr>"], rule exI [of _ la'], rule exI [of _ an'])
      (simp add: s o inherit_lookup [OF i1] inherit_lookup [OF i2] inherit_lookup [OF i3]
        inherit_lookup [OF i4] split: option.split)
qed

end
