(* ===== verification/CF_Client.thy ===== *)
theory CF_Client
  imports CF_Types
begin

text \<open>
  The Cloud Controller client, \<^verbatim>\<open>internal/client/cloudfoundry/client.go\<close>.

  A page of an API is what requesting, reading and decoding it gives: one of the three
  errors, or its resources and the total number of pages. The remote API is the function
  from page numbers to pages; the functions that follow pages may not return, when the
  API announces more pages for ever: they return an option.
\<close>

section \<open>Data\<close>

datatype cf_error =
    RequestError
  | ReadError
  | UnmarshalError
  | SidecarsError cf_error
  | StatusError int
  | FirstPageError cf_error
  | EndpointMissing
  | SetupError

datatype 'a page =
    PageRequestError
  | PageReadError
  | PageUnmarshalError
  | Page "'a list" int

record CFClient =
  cc_ApiVersion :: int
  cc_NumWorkers :: int
  cc_apiBatchSize :: uint32
  cc_advancedTagging :: bool

definition maxResultsPerPageV2 :: uint32 where
  "maxResultsPerPageV2 = 100"

text \<open>\<^verbatim>\<open>NewClient\<close>: \<open>setup\<close> is whether the library's client could be set up.\<close>

definition NewClient :: "Config \<Rightarrow> bool \<Rightarrow> cf_error + CFClient" where
  "NewClient config setup =
     (if cfg_CloudControllerEndpoint config = [] then Inl EndpointMissing
      else if \<not> setup then Inl SetupError
      else Inr \<lparr>cc_ApiVersion = 0, cc_NumWorkers = cfg_NumWorkers config,
                cc_apiBatchSize = cfg_CloudControllerAPIBatchSize config,
                cc_advancedTagging = cfg_EnableAdvancedTagging config\<rparr>)"

text \<open>The page size asked of the v2 API.\<close>

definition v2_page_size :: "CFClient \<Rightarrow> uint32" where
  "v2_page_size cfc = min maxResultsPerPageV2 (cc_apiBatchSize cfc)"

section \<open>The v3 API\<close>

text \<open>The loop that the v3 processes, spaces and organizations share.\<close>

partial_function (option) paginate ::
  "(int \<Rightarrow> 'a page) \<Rightarrow> int \<Rightarrow> 'a list \<Rightarrow> (cf_error + 'a list) option" where
  "paginate fetch page acc =
     (case fetch page of
        PageRequestError \<Rightarrow> Some (Inl RequestError)
      | PageReadError \<Rightarrow> Some (Inl ReadError)
      | PageUnmarshalError \<Rightarrow> Some (Inl UnmarshalError)
      | Page resources totalPages \<Rightarrow>
          if totalPages \<le> page then Some (Inr (acc @ resources))
          else paginate fetch (page + 1) (acc @ resources))"

definition getV3Processes :: "(int \<Rightarrow> Process page) \<Rightarrow> (cf_error + Process list) option" where
  "getV3Processes fetch = paginate fetch 1 []"

definition getV3Spaces :: "(int \<Rightarrow> v3SpaceResource page) \<Rightarrow> (cf_error + v3SpaceResource list) option" where
  "getV3Spaces fetch = paginate fetch 1 []"

definition getV3Orgs :: "(int \<Rightarrow> v3OrgResource page) \<Rightarrow> (cf_error + v3OrgResource list) option" where
  "getV3Orgs fetch = paginate fetch 1 []"

text \<open>The sidecars of an app: the loop checks the status code as well.\<close>

partial_function (option) sidecars_loop ::
  "(int \<Rightarrow> int \<times> CFSidecar page) \<Rightarrow> int \<Rightarrow> CFSidecar list \<Rightarrow> (cf_error + CFSidecar list) option" where
  "sidecars_loop fetch page acc =
     (case fetch page of (status, p) \<Rightarrow>
       (case p of
          PageRequestError \<Rightarrow> Some (Inl RequestError)
        | PageReadError \<Rightarrow> if status \<noteq> 200 then Some (Inl (StatusError status)) else Some (Inl ReadError)
        | PageUnmarshalError \<Rightarrow> if status \<noteq> 200 then Some (Inl (StatusError status)) else Some (Inl UnmarshalError)
        | Page resources totalPages \<Rightarrow>
            if status \<noteq> 200 then Some (Inl (StatusError status))
            else if totalPages \<le> page then Some (Inr (acc @ resources))
            else sidecars_loop fetch (page + 1) (acc @ resources)))"

definition getCFSidecars ::
  "(string \<Rightarrow> int \<Rightarrow> int \<times> CFSidecar page) \<Rightarrow> string \<Rightarrow> (cf_error + CFSidecar list) option" where
  "getCFSidecars sidecarPages appGUID = sidecars_loop (sidecarPages appGUID) 1 []"

text \<open>
  The apps of a page, with their sidecars when advanced tagging is on. A nil slice of
  sidecars (no resources on any page) stays nil.
\<close>

definition app_with_sidecars ::
  "CFClient \<Rightarrow> (string \<Rightarrow> (cf_error + CFSidecar list) option) \<Rightarrow> CFApplication
     \<Rightarrow> (cf_error + CFApplication) option" where
  "app_with_sidecars cfc sidecars cfapp =
     (if cc_advancedTagging cfc then
        (case sidecars (cf_GUID cfapp) of
           None \<Rightarrow> None
         | Some (Inl e) \<Rightarrow> Some (Inl (SidecarsError e))
         | Some (Inr sc) \<Rightarrow> Some (Inr (cfapp\<lparr>cf_Sidecars := (if sc = [] then None else Some sc)\<rparr>)))
      else Some (Inr cfapp))"

fun v3_apps_of_page ::
  "CFClient \<Rightarrow> (string \<Rightarrow> (cf_error + CFSidecar list) option) \<Rightarrow> v3AppResource list
     \<Rightarrow> (cf_error + CFApplication list) option" where
  "v3_apps_of_page cfc sidecars [] = Some (Inr [])"
| "v3_apps_of_page cfc sidecars (app # appResources) =
     (case app_with_sidecars cfc sidecars (setV3AppData zero_CFApplication app) of
        None \<Rightarrow> None
      | Some (Inl e) \<Rightarrow> Some (Inl e)
      | Some (Inr cfapp) \<Rightarrow>
          (case v3_apps_of_page cfc sidecars appResources of
             None \<Rightarrow> None
           | Some (Inl e) \<Rightarrow> Some (Inl e)
           | Some (Inr rest) \<Rightarrow> Some (Inr (cfapp # rest))))"

partial_function (option) v3_apps_loop ::
  "CFClient \<Rightarrow> (int \<Rightarrow> v3AppResource page) \<Rightarrow> (string \<Rightarrow> (cf_error + CFSidecar list) option)
     \<Rightarrow> int \<Rightarrow> CFApplication list \<Rightarrow> (cf_error + CFApplication list) option" where
  "v3_apps_loop cfc fetch sidecars page acc =
     (case fetch page of
        PageRequestError \<Rightarrow> Some (Inl RequestError)
      | PageReadError \<Rightarrow> Some (Inl ReadError)
      | PageUnmarshalError \<Rightarrow> Some (Inl UnmarshalError)
      | Page resources totalPages \<Rightarrow>
          (case v3_apps_of_page cfc sidecars resources of
             None \<Rightarrow> None
           | Some (Inl e) \<Rightarrow> Some (Inl e)
           | Some (Inr apps) \<Rightarrow>
               if totalPages \<le> page then Some (Inr (acc @ apps))
               else v3_apps_loop cfc fetch sidecars (page + 1) (acc @ apps)))"

definition getV3Apps ::
  "CFClient \<Rightarrow> (int \<Rightarrow> v3AppResource page) \<Rightarrow> (string \<Rightarrow> int \<Rightarrow> int \<times> CFSidecar page)
     \<Rightarrow> (cf_error + CFApplication list) option" where
  "getV3Apps cfc fetch sidecarPages = v3_apps_loop cfc fetch (getCFSidecars sidecarPages) 1 []"

text \<open>
  Joining. \<^verbatim>\<open>parts[len(parts)-1]\<close> of the link's path is the app of a process. The three maps
  are grouped in the order of the lists; a later space or organization with the same GUID
  replaces an earlier one.
\<close>

definition process_app :: "Process \<Rightarrow> string" where
  "process_app p = last (split_char (CHR ''/'') (pr_AppHref p))"

definition group_processes :: "Process list \<Rightarrow> (string, Process list) gomap" where
  "group_processes ps =
     foldl (\<lambda>m p. case gget m (process_app p) of
                    Some appProcesses \<Rightarrow> gput (process_app p) (appProcesses @ [p]) m
                  | None \<Rightarrow> gput (process_app p) [p] m) [] ps"

definition index_by :: "('a \<Rightarrow> string) \<Rightarrow> 'a list \<Rightarrow> (string, 'a) gomap" where
  "index_by key xs = foldl (\<lambda>m x. gput (key x) x m) [] xs"

definition populate ::
  "(string, Process list) gomap \<Rightarrow> (string, v3SpaceResource) gomap \<Rightarrow> (string, v3OrgResource) gomap
     \<Rightarrow> CFApplication \<Rightarrow> CFApplication outcome" where
  "populate processesPerApp spacesPerGUID orgsPerGUID cfapp =
     (let a1 = (case gget processesPerApp (cf_GUID cfapp) of
                  Some processes \<Rightarrow> setV3ProcessData cfapp processes | None \<Rightarrow> cfapp)
      in bind_outcome (case gget spacesPerGUID (cf_SpaceGUID cfapp) of
                         Some space \<Rightarrow> setV3SpaceData a1 space | None \<Rightarrow> Ret a1)
           (\<lambda>a2. case gget orgsPerGUID (cf_OrgGUID a2) of
                   Some org \<Rightarrow> setV3OrgData a2 org | None \<Rightarrow> Ret a2))"

fun map_outcome :: "('a \<Rightarrow> 'b outcome) \<Rightarrow> 'a list \<Rightarrow> 'b list outcome" where
  "map_outcome f [] = Ret []"
| "map_outcome f (x # xs) = bind_outcome (f x) (\<lambda>y. bind_outcome (map_outcome f xs) (\<lambda>ys. Ret (y # ys)))"

text \<open>
  The four requests run at the same time and send their errors to a channel; the last error
  to arrive is returned. \<open>arrival\<close> is the order in which the errors arrive.
\<close>

definition sum_error :: "'e + 'a \<Rightarrow> 'e list" where
  "sum_error r = (case r of Inl e \<Rightarrow> [e] | Inr _ \<Rightarrow> [])"

definition join_v3 ::
  "(cf_error list \<Rightarrow> cf_error list) \<Rightarrow> cf_error + CFApplication list \<Rightarrow> cf_error + Process list
     \<Rightarrow> cf_error + v3SpaceResource list \<Rightarrow> cf_error + v3OrgResource list
     \<Rightarrow> (cf_error + CFApplication list) outcome" where
  "join_v3 arrival apps processes spaces orgs =
     (let errs = arrival (sum_error apps @ sum_error processes @ sum_error spaces @ sum_error orgs)
      in if errs \<noteq> [] then Ret (Inl (last errs))
         else case (apps, processes, spaces, orgs) of
                (Inr cfapps, Inr ps, Inr ss, Inr os) \<Rightarrow>
                  bind_outcome
                    (map_outcome (populate (group_processes ps) (index_by v3s_GUID ss) (index_by v3o_GUID os)) cfapps)
                    (\<lambda>results. Ret (Inr results))
              | _ \<Rightarrow> Ret (Inr []))"

definition getV3Applications ::
  "(cf_error list \<Rightarrow> cf_error list) \<Rightarrow> (cf_error + CFApplication list) option \<Rightarrow> (cf_error + Process list) option
     \<Rightarrow> (cf_error + v3SpaceResource list) option \<Rightarrow> (cf_error + v3OrgResource list) option
     \<Rightarrow> (cf_error + CFApplication list) outcome option" where
  "getV3Applications arrival apps processes spaces orgs =
     (case (apps, processes, spaces, orgs) of
        (Some a, Some p, Some s, Some os) \<Rightarrow> Some (join_v3 arrival a p s os)
      | _ \<Rightarrow> None)"

section \<open>The v2 API\<close>

definition v2_apps_of_page :: "V2App list \<Rightarrow> CFApplication list" where
  "v2_apps_of_page appResources = map (setV2AppData zero_CFApplication) appResources"

definition getV2ApplicationsByPage :: "(int \<Rightarrow> V2App page) \<Rightarrow> int \<Rightarrow> cf_error + CFApplication list \<times> int" where
  "getV2ApplicationsByPage fetch page =
     (case fetch page of
        PageRequestError \<Rightarrow> Inl RequestError
      | PageReadError \<Rightarrow> Inl ReadError
      | PageUnmarshalError \<Rightarrow> Inl UnmarshalError
      | Page resources pages \<Rightarrow> Inr (v2_apps_of_page resources, pages))"

text \<open>
  The page ranges \<open>(start, end)\<close> of the workers; page 1 has been fetched already. The code computes
  minimum and ceiling in \<^verbatim>\<open>float64\<close>, which is exact for page numbers below \<open>2 ^ 53\<close>.
\<close>

definition ceil_div :: "int \<Rightarrow> int \<Rightarrow> int" where
  "ceil_div a b = - ((- a) div b)"

definition numWorkersFor :: "int \<Rightarrow> int \<Rightarrow> int" where
  "numWorkersFor workers pages = min workers pages"

definition pagesPerWorkerFor :: "int \<Rightarrow> int \<Rightarrow> int" where
  "pagesPerWorkerFor numWorkers pages = (if 0 < pages - 1 then ceil_div (pages - 1) numWorkers else 0)"

definition worker_range :: "int \<Rightarrow> int \<Rightarrow> int \<Rightarrow> int \<times> int" where
  "worker_range pagesPerWorker pages worker =
     (worker * pagesPerWorker + 2, min ((worker + 1) * pagesPerWorker + 2) (pages + 1))"

definition range_pages :: "int \<times> int \<Rightarrow> int list" where
  "range_pages r = [fst r..snd r - 1]"

definition worker_pages :: "int \<Rightarrow> int \<Rightarrow> int list list" where
  "worker_pages workers pages =
     (let numWorkers = numWorkersFor workers pages;
          pagesPerWorker = pagesPerWorkerFor numWorkers pages
      in map (\<lambda>worker. range_pages (worker_range pagesPerWorker pages worker)) [0..numWorkers - 1])"

text \<open>
  The workers append their pages to the results as they come; \<open>schedule\<close> is the order in
  which the pages of all workers complete. A page that fails is skipped.
\<close>

definition page_apps :: "(int \<Rightarrow> V2App page) \<Rightarrow> int \<Rightarrow> CFApplication list" where
  "page_apps fetch page = (case getV2ApplicationsByPage fetch page of Inl _ \<Rightarrow> [] | Inr (apps, _) \<Rightarrow> apps)"

definition getV2Applications ::
  "CFClient \<Rightarrow> (int \<Rightarrow> V2App page) \<Rightarrow> (int list list \<Rightarrow> int list) \<Rightarrow> cf_error + CFApplication list" where
  "getV2Applications cfc fetch schedule =
     (case getV2ApplicationsByPage fetch 1 of
        Inl e \<Rightarrow> Inl (FirstPageError e)
      | Inr (results, pages) \<Rightarrow>
          Inr (results @ concat (map (page_apps fetch) (schedule (worker_pages (cc_NumWorkers cfc) pages)))))"

section \<open>Choosing the version\<close>

text \<open>
  \<^verbatim>\<open>GetApplications\<close>, given what the two versions would return, and the client's new state.
\<close>

definition GetApplications ::
  "CFClient \<Rightarrow> (cf_error + CFApplication list) \<Rightarrow> (cf_error + CFApplication list)
     \<Rightarrow> (cf_error + CFApplication list) \<times> CFClient" where
  "GetApplications cfc v3 v2 =
     (if cc_ApiVersion cfc = 2 then (v2, cfc)
      else if cc_ApiVersion cfc = 3 then (v3, cfc)
      else case v3 of
             Inl _ \<Rightarrow>
               (case v2 of
                  Inl e \<Rightarrow> (Inl e, cfc)
                | Inr results \<Rightarrow>
                    let cfc' = cfc\<lparr>cc_ApiVersion := 2\<rparr>
                    in (Inr results, cfc'\<lparr>cc_ApiVersion := 3\<rparr>))
           | Inr results \<Rightarrow> (Inr results, cfc\<lparr>cc_ApiVersion := 3\<rparr>))"

text \<open>
  What the Cloud Controller answers at one time: the pages of each listing, the sidecars of each app, and
  the orders in which the errors of the v3 listings arrive and the v2 pages complete. \<open>collect_apps\<close> is
  \<^verbatim>\<open>GetApplications\<close> on them; the v3 listings are not asked when the version is 2.
\<close>

record cc_api =
  cca_v3Apps :: "int \<Rightarrow> v3AppResource page"
  cca_sidecars :: "string \<Rightarrow> int \<Rightarrow> int \<times> CFSidecar page"
  cca_processes :: "int \<Rightarrow> Process page"
  cca_spaces :: "int \<Rightarrow> v3SpaceResource page"
  cca_orgs :: "int \<Rightarrow> v3OrgResource page"
  cca_v2Apps :: "int \<Rightarrow> V2App page"
  cca_arrival :: "cf_error list \<Rightarrow> cf_error list"
  cca_schedule :: "int list list \<Rightarrow> int list"

definition v3_apps_at :: "CFClient \<Rightarrow> cc_api \<Rightarrow> (cf_error + CFApplication list) outcome option" where
  "v3_apps_at cfc api =
     getV3Applications (cca_arrival api) (getV3Apps cfc (cca_v3Apps api) (cca_sidecars api))
       (getV3Processes (cca_processes api)) (getV3Spaces (cca_spaces api)) (getV3Orgs (cca_orgs api))"

definition v2_apps_at :: "CFClient \<Rightarrow> cc_api \<Rightarrow> cf_error + CFApplication list" where
  "v2_apps_at cfc api = getV2Applications cfc (cca_v2Apps api) (cca_schedule api)"

definition collect_apps :: "CFClient \<Rightarrow> cc_api \<Rightarrow> ((cf_error + CFApplication list) \<times> CFClient) outcome option" where
  "collect_apps cfc api =
     (if cc_ApiVersion cfc = 2 then Some (Ret (v2_apps_at cfc api, cfc))
      else case v3_apps_at cfc api of
             None \<Rightarrow> None
           | Some r \<Rightarrow> Some (bind_outcome r (\<lambda>v3. Ret (GetApplications cfc v3 (v2_apps_at cfc api)))))"

definition GetApplication :: "(string \<Rightarrow> cf_error + V2App) \<Rightarrow> string \<Rightarrow> cf_error + CFApplication" where
  "GetApplication getAppByGuid guid =
     (case getAppByGuid guid of Inl e \<Rightarrow> Inl e | Inr app \<Rightarrow> Inr (setV2AppData zero_CFApplication app))"

definition GetV2OrgQuotas :: "(cf_error + (string \<times> int) list) \<Rightarrow> cf_error + CFOrgQuota list" where
  "GetV2OrgQuotas quotas =
     (case quotas of Inl e \<Rightarrow> Inl e
      | Inr qs \<Rightarrow> Inr (map (\<lambda>(guid, limit). \<lparr>oq_GUID = guid, oq_MemoryLimit = limit\<rparr>) qs))"

section \<open>Following pages\<close>

text \<open>
  The contract of a loop that follows pages: \<open>step\<close> is what one page gives (nothing when
  reading it does not return, an error, or its items and the announced total of pages).
\<close>

locale page_loop =
  fixes loop :: "int \<Rightarrow> 'b list \<Rightarrow> (cf_error + 'b list) option"
    and step :: "int \<Rightarrow> (cf_error + 'b list \<times> int) option"
  assumes loop_step: "loop p acc =
    (case step p of
       None \<Rightarrow> None
     | Some (Inl e) \<Rightarrow> Some (Inl e)
     | Some (Inr (xs, t)) \<Rightarrow> if t \<le> p then Some (Inr (acc @ xs)) else loop (p + 1) (acc @ xs))"
begin

text \<open>Bounded totals make the loop return, whatever the pages hold.\<close>

lemma loop_returns:
  assumes "\<And>k. step k \<noteq> None" and "\<And>k xs t. step k = Some (Inr (xs, t)) \<Longrightarrow> t \<le> B"
  shows "\<exists>r. loop p acc = Some r"
proof (induction "nat (B - p)" arbitrary: p acc rule: less_induct)
  case less
  obtain r where r: "step p = Some r" using assms(1) [of p] by auto
  show ?case
  proof (cases r)
    case (Inl e)
    then show ?thesis by (subst loop_step) (simp add: r)
  next
    case (Inr b)
    obtain xs t where b: "b = (xs, t)" by fastforce
    have "t \<le> B" using assms(2) r Inr b by blast
    show ?thesis
    proof (cases "t \<le> p")
      case True
      then show ?thesis by (subst loop_step) (simp add: r Inr b)
    next
      case False
      with \<open>t \<le> B\<close> have "nat (B - (p + 1)) < nat (B - p)" by simp
      from less [OF this, of "acc @ xs"] False show ?thesis
        by (subst loop_step) (simp add: r Inr b)
    qed
  qed
qed

text \<open>Pages \<open>p\<close> to \<open>q\<close> are read once each, in order; the first error ends the loop.\<close>

lemma loop_prefix:
  assumes "\<And>k. p \<le> k \<Longrightarrow> k < q \<Longrightarrow> \<exists>t. step k = Some (Inr (rs k, t)) \<and> k < t" and "p \<le> q"
  shows "loop p acc = loop q (acc @ concat (map rs [p..q - 1]))"
  using assms
proof (induction "nat (q - p)" arbitrary: p acc)
  case 0
  then show ?case by simp
next
  case (Suc n)
  then have pq: "p < q" by simp
  obtain t where "step p = Some (Inr (rs p, t))" "p < t" using Suc.prems(1) pq by blast
  then have "loop p acc = loop (p + 1) (acc @ rs p)" by (subst loop_step) simp
  also have "\<dots> = loop q ((acc @ rs p) @ concat (map rs [p + 1..q - 1]))"
    by (rule Suc.hyps(1)) (use Suc pq in auto)
  finally show ?case using pq by (simp add: upto_rec1 [of p "q - 1"])
qed

lemma loop_collects:
  assumes "\<And>k. p \<le> k \<Longrightarrow> k < q \<Longrightarrow> \<exists>t. step k = Some (Inr (rs k, t)) \<and> k < t" and "p \<le> q"
    and "step q = Some (Inr (rs q, t))" and "t \<le> q"
  shows "loop p acc = Some (Inr (acc @ concat (map rs [p..q])))"
  using assms(2-4) loop_prefix [OF assms(1,2)] loop_step [of q]
  by (simp add: upto_rec2 [of p q])

lemma loop_fails:
  assumes "\<And>k. p \<le> k \<Longrightarrow> k < q \<Longrightarrow> \<exists>t. step k = Some (Inr (rs k, t)) \<and> k < t" and "p \<le> q"
    and "step q = Some (Inl e)"
  shows "loop p acc = Some (Inl e)"
  using loop_prefix [OF assms(1,2)] loop_step [of q] assms(3) by simp

end

text \<open>What a page gives each of the three loops.\<close>

definition page_step :: "(int \<Rightarrow> 'a page) \<Rightarrow> int \<Rightarrow> (cf_error + 'a list \<times> int) option" where
  "page_step fetch page =
     Some (case fetch page of
             PageRequestError \<Rightarrow> Inl RequestError
           | PageReadError \<Rightarrow> Inl ReadError
           | PageUnmarshalError \<Rightarrow> Inl UnmarshalError
           | Page resources totalPages \<Rightarrow> Inr (resources, totalPages))"

definition sidecars_step :: "(int \<Rightarrow> int \<times> CFSidecar page) \<Rightarrow> int \<Rightarrow> (cf_error + CFSidecar list \<times> int) option" where
  "sidecars_step fetch page =
     (case fetch page of (status, p) \<Rightarrow>
        if p \<noteq> PageRequestError \<and> status \<noteq> 200 then Some (Inl (StatusError status))
        else page_step (\<lambda>_. p) page)"

definition v3_apps_step ::
  "CFClient \<Rightarrow> (int \<Rightarrow> v3AppResource page) \<Rightarrow> (string \<Rightarrow> (cf_error + CFSidecar list) option)
     \<Rightarrow> int \<Rightarrow> (cf_error + CFApplication list \<times> int) option" where
  "v3_apps_step cfc fetch sidecars page =
     (case page_step fetch page of
        None \<Rightarrow> None
      | Some (Inl e) \<Rightarrow> Some (Inl e)
      | Some (Inr (resources, totalPages)) \<Rightarrow>
          (case v3_apps_of_page cfc sidecars resources of
             None \<Rightarrow> None
           | Some (Inl e) \<Rightarrow> Some (Inl e)
           | Some (Inr apps) \<Rightarrow> Some (Inr (apps, totalPages))))"

interpretation resources: page_loop "paginate fetch" "page_step fetch" for fetch
  by unfold_locales (subst paginate.simps, simp add: page_step_def split: page.split)

interpretation sidecars: page_loop "sidecars_loop fetch" "sidecars_step fetch" for fetch
  by unfold_locales
    (subst sidecars_loop.simps, simp add: sidecars_step_def page_step_def split: page.split prod.split)

interpretation v3_apps: page_loop "v3_apps_loop cfc fetch sidecars" "v3_apps_step cfc fetch sidecars"
  for cfc fetch sidecars
  by unfold_locales
    (subst v3_apps_loop.simps, simp add: v3_apps_step_def page_step_def split: page.split option.split sum.split)

section \<open>Facts\<close>

lemma page_step_not_None: "page_step fetch k \<noteq> None"
  by (simp add: page_step_def)

lemma page_step_Inr: "page_step fetch k = Some (Inr (xs, t)) \<longleftrightarrow> fetch k = Page xs t"
  by (simp add: page_step_def split: page.split)

lemma sidecars_step_not_None: "sidecars_step fetch k \<noteq> None"
  by (simp add: sidecars_step_def page_step_def split: prod.split)

lemma sidecars_step_Inr: "sidecars_step fetch k = Some (Inr (xs, t)) \<longleftrightarrow> fetch k = (200, Page xs t)"
  by (cases "fetch k"; cases "snd (fetch k)") (auto simp: sidecars_step_def page_step_def)

text \<open>The apps of a page: with the sidecars at hand there is one app per resource, its metadata never nil.\<close>

definition v3_app_of :: "v3AppResource \<Rightarrow> CFApplication \<Rightarrow> bool" where
  "v3_app_of r a \<longleftrightarrow> (\<exists>sc. a = (setV3AppData zero_CFApplication r)\<lparr>cf_Sidecars := sc\<rparr>)"

lemma app_with_sidecars_Inr:
  "app_with_sidecars cfc sidecars (setV3AppData zero_CFApplication r) = Some (Inr a) \<Longrightarrow> v3_app_of r a"
  by (auto simp: app_with_sidecars_def v3_app_of_def setV3AppData_def zero_CFApplication_def
      split: if_splits option.splits sum.splits)

lemma app_with_sidecars_not_None: "sidecars (cf_GUID a) \<noteq> None \<Longrightarrow> app_with_sidecars cfc sidecars a \<noteq> None"
  by (auto simp: app_with_sidecars_def split: sum.split)

lemma v3_apps_of_page_Inr:
  "v3_apps_of_page cfc sidecars rs = Some (Inr apps) \<Longrightarrow> list_all2 v3_app_of rs apps"
proof (induction rs arbitrary: apps)
  case (Cons r rs)
  then show ?case by (auto dest: app_with_sidecars_Inr split: option.splits sum.splits)
qed simp

lemma v3_apps_of_page_not_None:
  assumes "\<And>g. sidecars g \<noteq> None"
  shows "v3_apps_of_page cfc sidecars rs \<noteq> None"
proof (induction rs)
  case (Cons r rs)
  have "app_with_sidecars cfc sidecars (setV3AppData zero_CFApplication r) \<noteq> None"
    by (rule app_with_sidecars_not_None) (rule assms)
  with Cons show ?case by (auto split: sum.split)
qed simp

lemma v3_apps_of_page_plain:
  "\<not> cc_advancedTagging cfc \<Longrightarrow>
   v3_apps_of_page cfc sidecars rs = Some (Inr (map (setV3AppData zero_CFApplication) rs))"
  by (induction rs) (simp_all add: app_with_sidecars_def)

text \<open>Applications whose metadata maps are not nil.\<close>

definition has_metadata :: "CFApplication \<Rightarrow> bool" where
  "has_metadata a \<longleftrightarrow> cf_Labels a \<noteq> None \<and> cf_Annotations a \<noteq> None"

lemma v3_app_of_has_metadata: "v3_app_of r a \<Longrightarrow> has_metadata a"
  by (auto simp: v3_app_of_def has_metadata_def setV3AppData_def)

lemma v3_apps_of_page_has_metadata:
  "v3_apps_of_page cfc sidecars rs = Some (Inr apps) \<Longrightarrow> list_all has_metadata apps"
  by (drule v3_apps_of_page_Inr)
    (auto simp: list_all2_conv_all_nth list_all_length intro: v3_app_of_has_metadata)

lemma v3_apps_loop_has_metadata:
  assumes "v3_apps_loop cfc fetch sidecars page acc = Some r"
  shows "list_all has_metadata acc \<longrightarrow> (\<forall>apps. r = Inr apps \<longrightarrow> list_all has_metadata apps)"
proof (rule v3_apps_loop.raw_induct [where P = "\<lambda>_ _ _ _ acc r.
    list_all has_metadata acc \<longrightarrow> (\<forall>apps. r = Inr apps \<longrightarrow> list_all has_metadata apps)", OF _ assms])
  fix loop cfc fetch sidecars page acc r
  assume IH: "\<And>cfc fetch sidecars page acc r. loop cfc fetch sidecars page acc = Some r \<Longrightarrow>
      list_all has_metadata acc \<longrightarrow> (\<forall>apps. r = Inr apps \<longrightarrow> list_all has_metadata apps)"
    and body: "(case fetch page of
        PageRequestError \<Rightarrow> Some (Inl RequestError)
      | PageReadError \<Rightarrow> Some (Inl ReadError)
      | PageUnmarshalError \<Rightarrow> Some (Inl UnmarshalError)
      | Page resources totalPages \<Rightarrow>
          (case v3_apps_of_page cfc sidecars resources of
             None \<Rightarrow> None
           | Some (Inl e) \<Rightarrow> Some (Inl e)
           | Some (Inr apps) \<Rightarrow>
               if totalPages \<le> page then Some (Inr (acc @ apps))
               else loop cfc fetch sidecars (page + 1) (acc @ apps))) = Some r"
  show "list_all has_metadata acc \<longrightarrow> (\<forall>apps. r = Inr apps \<longrightarrow> list_all has_metadata apps)"
  proof (intro impI allI)
    fix apps assume acc: "list_all has_metadata acc" and r: "r = Inr apps"
    then obtain resources t xs where "v3_apps_of_page cfc sidecars resources = Some (Inr xs)"
      and "(if t \<le> page then Some (Inr (acc @ xs)) else loop cfc fetch sidecars (page + 1) (acc @ xs)) = Some r"
      using body by (auto split: page.splits option.splits sum.splits)
    with acc r show "list_all has_metadata apps"
      using IH [of cfc fetch sidecars "page + 1" "acc @ xs" r]
      by (auto split: if_splits dest: v3_apps_of_page_has_metadata)
  qed
qed

lemma getV3Apps_has_metadata:
  "getV3Apps cfc fetch sidecarPages = Some (Inr apps) \<Longrightarrow> list_all has_metadata apps"
  unfolding getV3Apps_def using v3_apps_loop_has_metadata by fastforce

text \<open>Grouping and indexing.\<close>

definition processes_of :: "Process list \<Rightarrow> string \<Rightarrow> Process list" where
  "processes_of ps guid = filter (\<lambda>p. process_app p = guid) ps"

lemma group_processes_lookup:
  "gget (group_processes ps) g = (if processes_of ps g = [] then None else Some (processes_of ps g))"
  by (induction ps rule: rev_induct)
    (auto simp: group_processes_def processes_of_def gget_gput split: option.splits if_splits)

lemma index_by_lookup: "gget (index_by key xs) g = List.find (\<lambda>x. key x = g) (rev xs)"
  by (induction xs rule: rev_induct) (auto simp: index_by_def gget_gput)

text \<open>What populating keeps and sets, without a panic, on an app with metadata maps.\<close>

definition populated :: "Process list \<Rightarrow> CFApplication \<Rightarrow> CFApplication \<Rightarrow> bool" where
  "populated ps a b \<longleftrightarrow>
     cf_GUID b = cf_GUID a \<and> cf_Name b = cf_Name a \<and> cf_Sidecars b = cf_Sidecars a \<and>
     cf_Buildpacks b = cf_Buildpacks a \<and> has_metadata b \<and>
     (processes_of ps (cf_GUID a) \<noteq> [] \<longrightarrow>
        cf_Instances b = wrap_int (\<Sum>p\<leftarrow>processes_of ps (cf_GUID a). pr_Instances p) \<and>
        cf_TotalMemory b = wrap_int (\<Sum>p\<leftarrow>processes_of ps (cf_GUID a). pr_Instances p * pr_MemoryInMB p) \<and>
        cf_TotalDiskQuota b = wrap_int (\<Sum>p\<leftarrow>processes_of ps (cf_GUID a). pr_Instances p * pr_DiskInMB p))"

lemma setV3ProcessData_keeps:
  "cf_GUID (setV3ProcessData a ps) = cf_GUID a" "cf_Name (setV3ProcessData a ps) = cf_Name a"
  "cf_Sidecars (setV3ProcessData a ps) = cf_Sidecars a" "cf_Buildpacks (setV3ProcessData a ps) = cf_Buildpacks a"
  "cf_Labels (setV3ProcessData a ps) = cf_Labels a" "cf_Annotations (setV3ProcessData a ps) = cf_Annotations a"
  by (simp_all add: setV3ProcessData_def Let_def)

lemma populate_step:
  assumes "has_metadata a" and "populated ps c a"
  shows "\<exists>b. (case ms of Some space \<Rightarrow> setV3SpaceData a space | None \<Rightarrow> Ret a) = Ret b \<and> populated ps c b"
  using assms
  by (cases ms) (auto simp: has_metadata_def populated_def elim!: setV3SpaceData_Ret [of a _ _ "the ms"])

lemma populate_step2:
  assumes "has_metadata a" and "populated ps c a"
  shows "\<exists>b. (case mo of Some org \<Rightarrow> setV3OrgData a org | None \<Rightarrow> Ret a) = Ret b \<and> populated ps c b"
  using assms
  by (cases mo) (auto simp: has_metadata_def populated_def elim!: setV3OrgData_Ret [of a _ _ "the mo"])

lemma populate_Ret:
  assumes "has_metadata a"
  shows "\<exists>b. populate (group_processes ps) spaces orgs a = Ret b \<and> populated ps a b"
proof -
  let ?a1 = "case gget (group_processes ps) (cf_GUID a) of
    Some processes \<Rightarrow> setV3ProcessData a processes | None \<Rightarrow> a"
  have 1: "has_metadata ?a1" "populated ps a ?a1"
    using assms
    by (auto simp: group_processes_lookup populated_def has_metadata_def setV3ProcessData_keeps
        setV3ProcessData_eq)
  obtain b where b: "(case gget spaces (cf_SpaceGUID a) of Some space \<Rightarrow> setV3SpaceData ?a1 space | None \<Rightarrow> Ret ?a1) = Ret b"
    "populated ps a b"
    using populate_step [OF 1] by blast
  then have "has_metadata b" by (simp add: populated_def)
  from populate_step2 [OF this b(2)] show ?thesis by (simp add: populate_def Let_def b(1))
qed

lemma map_outcome_Ret:
  "(\<forall>x\<in>set xs. \<exists>y. f x = Ret y \<and> R x y) \<Longrightarrow> \<exists>ys. map_outcome f xs = Ret ys \<and> list_all2 R xs ys"
  by (induction xs) fastforce+

lemma join_v3_Inr:
  assumes "mset (arrival []) = mset []" and "list_all has_metadata cfapps"
  shows "\<exists>results. join_v3 arrival (Inr cfapps) (Inr ps) (Inr ss) (Inr os) = Ret (Inr results) \<and>
    list_all2 (populated ps) cfapps results"
proof -
  obtain results where "map_outcome (populate (group_processes ps) (index_by v3s_GUID ss) (index_by v3o_GUID os)) cfapps
      = Ret results" "list_all2 (populated ps) cfapps results"
    using assms(2) populate_Ret map_outcome_Ret [of cfapps _ "populated ps"] by (metis list_all_iff)
  then show ?thesis using assms(1) by (simp add: join_v3_def sum_error_def Let_def)
qed

lemma join_v3_error:
  assumes "\<And>es. mset (arrival es) = mset es"
    and "sum_error apps @ sum_error processes @ sum_error spaces @ sum_error orgs \<noteq> []"
  shows "\<exists>e. join_v3 arrival apps processes spaces orgs = Ret (Inl e) \<and>
    e \<in> set (sum_error apps @ sum_error processes @ sum_error spaces @ sum_error orgs)"
proof -
  let ?es = "sum_error apps @ sum_error processes @ sum_error spaces @ sum_error orgs"
  have ne: "arrival ?es \<noteq> []" using assms by (metis mset_zero_iff)
  then have "last (arrival ?es) \<in> set ?es" using assms(1) by (metis last_in_set mset_eq_setD)
  with ne show ?thesis by (simp add: join_v3_def Let_def)
qed

text \<open>The ranges of the workers.\<close>

lemma upto_glue:
  fixes a b x m :: int
  assumes "x \<le> a" and "a \<le> b"
  shows "[x..min a m - 1] @ [a..min b m - 1] = [x..min b m - 1]"
proof (cases "a \<le> m")
  case True
  show ?thesis
  proof (cases "a \<le> min b m - 1")
    case True
    then show ?thesis using \<open>a \<le> m\<close> \<open>x \<le> a\<close> upto_split1 [of x a "min b m - 1"] by (simp add: min_absorb1)
  next
    case False
    with assms True have "min b m = a" unfolding min_def by (auto split: if_splits)
    then show ?thesis using True by (simp add: min_absorb1)
  qed
next
  case False
  with assms show ?thesis by (simp add: min_absorb2)
qed

lemma concat_ranges:
  assumes "0 \<le> p" and "0 \<le> pages"
  shows "concat (map (\<lambda>k. range_pages (worker_range p pages k)) [0..int n - 1]) =
    [2..min (int n * p + 2) (pages + 1) - 1]"
proof (induction n)
  case 0
  then show ?case using assms by simp
next
  case (Suc n)
  have split: "[0..int (Suc n) - 1] = [0..int n - 1] @ [int n]" by (simp add: upto_rec2)
  have "concat (map (\<lambda>k. range_pages (worker_range p pages k)) [0..int (Suc n) - 1]) =
    [2..min (int n * p + 2) (pages + 1) - 1] @ [int n * p + 2..min ((int n + 1) * p + 2) (pages + 1) - 1]"
    unfolding split by (simp only: map_append concat_append Suc) (simp add: range_pages_def worker_range_def)
  also have "\<dots> = [2..min ((int n + 1) * p + 2) (pages + 1) - 1]"
    by (rule upto_glue) (use assms in \<open>simp_all add: algebra_simps\<close>)
  finally show ?case by (simp add: add.commute)
qed

lemma ceil_div_le:
  assumes "0 < b"
  shows "a \<le> b * ceil_div a b"
  using mult_div_mod_eq [of b "- a"] pos_mod_sign [OF assms, of "- a"] unfolding ceil_div_def mult_minus_right
  by linarith

lemma ceil_div_nonneg: "0 < b \<Longrightarrow> 0 \<le> a \<Longrightarrow> 0 \<le> ceil_div a b"
  by (simp add: ceil_div_def div_nonpos_pos_le0)

lemma worker_pages_all:
  assumes "1 \<le> workers"
  shows "concat (worker_pages workers pages) = [2..pages]"
proof (cases "1 \<le> pages")
  case True
  let ?n = "min workers pages" and ?p = "pagesPerWorkerFor (min workers pages) pages"
  have n: "0 < ?n" using assms True by simp
  have p: "0 \<le> ?p" "pages - 1 \<le> ?n * ?p"
    using ceil_div_le [OF n, of "pages - 1"] ceil_div_nonneg [OF n, of "pages - 1"] True
    by (auto simp: pagesPerWorkerFor_def)
  have "concat (worker_pages workers pages) = [2..min (?n * ?p + 2) (pages + 1) - 1]"
    using concat_ranges [of ?p pages "nat ?n"] p(1) n True
    by (simp add: worker_pages_def numWorkersFor_def Let_def)
  also have "min (?n * ?p + 2) (pages + 1) = pages + 1" using p(2) by simp
  finally show ?thesis by simp
qed (use assms in \<open>simp add: worker_pages_def numWorkersFor_def Let_def\<close>)

lemma worker_pages_none: "workers \<le> 0 \<Longrightarrow> worker_pages workers pages = []"
  by (simp add: worker_pages_def numWorkersFor_def Let_def)

lemma resources_return: "(\<And>k rs t. fetch k = Page rs t \<Longrightarrow> t \<le> B) \<Longrightarrow> \<exists>r. paginate fetch 1 [] = Some r"
  by (rule resources.loop_returns [of fetch B, OF page_step_not_None]) (auto simp: page_step_Inr)

section \<open>The component's properties\<close>

text \<open>
  C22: The ranges of the workers cover the pages 2 to \<open>pages\<close>, each exactly once and in
  order, for any positive number of workers (one worker, more workers than pages, a number of
  pages that the workers do not divide).
\<close>

theorem worker_pages_partition:
  assumes "1 \<le> workers"
  shows "concat (worker_pages workers pages) = [2..pages] \<and>
    length (worker_pages workers pages) = nat (min workers pages)"
  using worker_pages_all [OF assms] by (simp add: worker_pages_def Let_def numWorkersFor_def)

theorem worker_pages_partition_witness:
  "worker_pages 4 10 = [[2, 3, 4], [5, 6, 7], [8, 9, 10], []] \<and> concat (worker_pages 4 10) = [2..10]"
  using worker_pages_partition [of 4 10] by (simp, code_simp)

text \<open>
  C21: Whatever the order in which the workers' pages complete, the v2 warm-up returns the apps
  of all the announced pages that can be read, each page once; with no workers it returns
  those of the first page only.
\<close>

theorem getV2Applications_complete:
  assumes "\<And>ws. mset (completion ws) = mset (concat ws)"
    and "getV2ApplicationsByPage fetch 1 = Inr (first, pages)"
  shows "\<exists>apps. getV2Applications cfc fetch completion = Inr apps \<and>
    mset apps = mset (first @ (if 1 \<le> cc_NumWorkers cfc then concat (map (page_apps fetch) [2..pages]) else []))"
proof -
  have flat: "mset (concat (map f xs)) = (\<Sum>x\<in>#mset xs. mset (f x))" for f :: "int \<Rightarrow> CFApplication list" and xs
    by (induction xs) simp_all
  have "concat (worker_pages (cc_NumWorkers cfc) pages) = (if 1 \<le> cc_NumWorkers cfc then [2..pages] else [])"
    using worker_pages_all worker_pages_none by simp
  then show ?thesis
    using assms by (simp add: getV2Applications_def flat)
qed

definition v2_app_named :: "string \<Rightarrow> V2App" where
  "v2_app_named n = \<lparr>v2_Guid = n, v2_Name = n, v2_Instances = 1, v2_DiskQuota = 1, v2_Memory = 1,
     v2_Buildpack = [], v2_DetectedBuildpack = [], v2_SpaceGuid = [], v2_SpaceName = [],
     v2_OrgName = [], v2_OrgGuid = []\<rparr>"

definition two_pages :: "int \<Rightarrow> V2App page" where
  "two_pages k = Page [v2_app_named (if k = 1 then ''a'' else ''b'')] 2"

definition two_workers :: CFClient where
  "two_workers = \<lparr>cc_ApiVersion = 0, cc_NumWorkers = 2, cc_apiBatchSize = 50, cc_advancedTagging = False\<rparr>"

lemma two_workers_version: "cc_ApiVersion two_workers = 0"
  by (simp add: two_workers_def)

theorem getV2Applications_complete_witness:
  "\<exists>apps. getV2Applications two_workers two_pages concat = Inr apps \<and>
     mset (map cf_GUID apps) = {#''a'', ''b''#}"
proof -
  have first: "getV2ApplicationsByPage two_pages 1 = Inr ([setV2AppData zero_CFApplication (v2_app_named ''a'')], 2)"
    by (simp add: getV2ApplicationsByPage_def two_pages_def v2_apps_of_page_def)
  obtain apps where "getV2Applications two_workers two_pages concat = Inr apps"
    "mset apps = {#setV2AppData zero_CFApplication (v2_app_named ''a''), setV2AppData zero_CFApplication (v2_app_named ''b'')#}"
    using getV2Applications_complete [OF _ first, of concat two_workers]
    by (auto simp: two_workers_def page_apps_def getV2ApplicationsByPage_def two_pages_def v2_apps_of_page_def)
  then show ?thesis by (auto simp: setV2AppData_def v2_app_named_def)
qed

text \<open>
  Following the pages of the v3 API. When every page can be read and announces the same
  total, the result is the resources of the pages 1 to the total (page 1 is always read), in
  order; when page \<open>q\<close> is the first that cannot be read, its error is the result.
\<close>

lemma getV3Spaces_pages:
  "((\<forall>k. fetch k = Page (rs k) n) \<longrightarrow> getV3Spaces fetch = Some (Inr (concat (map rs [1..max 1 n])))) \<and>
   ((\<forall>k. 1 \<le> k \<and> k < q \<longrightarrow> (\<exists>t>k. fetch k = Page (rs k) t)) \<and> 1 \<le> q \<and> page_step fetch q = Some (Inl e)
     \<longrightarrow> getV3Spaces fetch = Some (Inl e))"
proof (intro conjI impI)
  assume all: "\<forall>k. fetch k = Page (rs k) n"
  have "paginate fetch 1 [] = Some (Inr ([] @ concat (map rs [1..max 1 n])))"
    by (rule resources.loop_collects [where t = n]) (use all in \<open>auto simp: page_step_Inr\<close>)
  then show "getV3Spaces fetch = Some (Inr (concat (map rs [1..max 1 n])))" by (simp add: getV3Spaces_def)
next
  assume a: "(\<forall>k. 1 \<le> k \<and> k < q \<longrightarrow> (\<exists>t>k. fetch k = Page (rs k) t)) \<and> 1 \<le> q \<and> page_step fetch q = Some (Inl e)"
  have "paginate fetch 1 [] = Some (Inl e)"
    by (rule resources.loop_fails [where rs = rs]) (use a in \<open>auto simp: page_step_Inr\<close>)
  then show "getV3Spaces fetch = Some (Inl e)" by (simp add: getV3Spaces_def)
qed

definition space_page :: "int \<Rightarrow> v3SpaceResource page" where
  "space_page k = (if k \<le> 3 then Page [\<lparr>v3s_GUID = ''s'', v3s_Name = ''n'', v3s_OrganizationGUID = ''o'',
     v3s_Labels = None, v3s_Annotations = None\<rparr>] 4 else PageReadError)"

lemma getV3Spaces_pages_witness:
  "getV3Spaces (\<lambda>k. Page [] 7) = Some (Inr []) \<and> getV3Spaces space_page = Some (Inl ReadError)"
  using getV3Spaces_pages [of "\<lambda>k. Page [] 7" "\<lambda>_. []" 7 1 RequestError]
    getV3Spaces_pages [of space_page "\<lambda>_. [\<lparr>v3s_GUID = ''s'', v3s_Name = ''n'', v3s_OrganizationGUID = ''o'',
       v3s_Labels = None, v3s_Annotations = None\<rparr>]" 0 4 ReadError]
  by (auto simp: space_page_def page_step_def)

text \<open>
  Collecting the apps of the v3 API returns (apps or an error) as soon as the totals that
  the API announces are bounded, the nested loop over the sidecars of each app included.
\<close>

lemma getV3Apps_returns:
  assumes "\<And>k rs t. fetch k = Page rs t \<Longrightarrow> t \<le> B"
    and "\<And>g k rs t. sidecarPages g k = (200, Page rs t) \<Longrightarrow> t \<le> B'"
  shows "\<exists>r. getV3Apps cfc fetch sidecarPages = Some r"
proof -
  have "getCFSidecars sidecarPages g \<noteq> None" for g
    using sidecars.loop_returns [of "sidecarPages g" B' 1 "[]", OF sidecars_step_not_None] assms(2)
    by (auto simp: getCFSidecars_def sidecars_step_Inr)
  then have pages: "\<And>rs. v3_apps_of_page cfc (getCFSidecars sidecarPages) rs \<noteq> None"
    by (rule v3_apps_of_page_not_None)
  have "v3_apps_step cfc fetch (getCFSidecars sidecarPages) k \<noteq> None" for k
    by (cases "fetch k")
      (use pages in \<open>auto simp: v3_apps_step_def page_step_def split: sum.split option.split\<close>)
  moreover have "t \<le> B" if "v3_apps_step cfc fetch (getCFSidecars sidecarPages) k = Some (Inr (xs, t))" for k xs t
    using that assms(1) by (auto simp: v3_apps_step_def page_step_Inr split: option.splits sum.splits)
  ultimately show ?thesis unfolding getV3Apps_def by (rule v3_apps.loop_returns)
qed

lemma getV3Apps_returns_witness:
  "\<exists>r. getV3Apps two_workers (\<lambda>k. Page [] 3) (\<lambda>g k. (500, PageReadError)) = Some r"
  by (rule getV3Apps_returns [where B = 3 and B' = 0]) simp_all

lemma getV3Applications_total:
  assumes "\<And>es. mset (arrival es) = mset es" and "getV3Apps cfc fetch sidecarPages = Some apps"
  shows "\<exists>r. getV3Applications arrival (Some apps) (Some processes) (Some spaces) (Some orgs) = Some (Ret r) \<and>
    (case r of
       Inl e \<Rightarrow> e \<in> set (sum_error apps @ sum_error processes @ sum_error spaces @ sum_error orgs)
     | Inr results \<Rightarrow> \<exists>cfapps ps. apps = Inr cfapps \<and> processes = Inr ps \<and> list_all2 (populated ps) cfapps results)"
proof (cases "sum_error apps @ sum_error processes @ sum_error spaces @ sum_error orgs = []")
  case True
  then obtain cfapps ps ss os where r: "apps = Inr cfapps" "processes = Inr ps" "spaces = Inr ss" "orgs = Inr os"
    by (auto simp: sum_error_def split: sum.splits)
  have m: "list_all has_metadata cfapps" using getV3Apps_has_metadata assms(2) r by blast
  obtain results where "join_v3 arrival (Inr cfapps) (Inr ps) (Inr ss) (Inr os) = Ret (Inr results)"
    "list_all2 (populated ps) cfapps results"
    using join_v3_Inr [of arrival cfapps ps ss os, OF assms(1) m] by blast
  with r show ?thesis by (simp add: getV3Applications_def)
next
  case False
  obtain e where "join_v3 arrival apps processes spaces orgs = Ret (Inl e)"
    "e \<in> set (sum_error apps @ sum_error processes @ sum_error spaces @ sum_error orgs)"
    using join_v3_error [OF assms(1) False] by blast
  then show ?thesis by (simp add: getV3Applications_def)
qed

lemma getV3Applications_no_panic:
  assumes "\<And>es. mset (arrival es) = mset es" and "getV3Apps cfc fetch sidecarPages = Some apps"
  shows "\<exists>r. getV3Applications arrival (Some apps) (Some processes) (Some spaces) (Some orgs) = Some (Ret r)"
  using getV3Applications_total [OF assms, of processes spaces orgs] by blast

text \<open>
  C23: Joining the four v3 listings never panics. If a listing failed, the result is the error
  of one of them. Otherwise there is one application per app resource, in order, with its GUID,
  name, sidecars and buildpacks kept, and its instances, memory and disk summed over its own
  processes.
\<close>

theorem getV3Applications_joins:
  assumes "\<And>es. mset (arrival es) = mset es" and "getV3Apps cfc fetch sidecarPages = Some apps"
  shows "\<exists>r. getV3Applications arrival (Some apps) (Some processes) (Some spaces) (Some orgs) = Some (Ret r) \<and>
    (case r of
       Inl e \<Rightarrow> e \<in> set (sum_error apps @ sum_error processes @ sum_error spaces @ sum_error orgs)
     | Inr results \<Rightarrow> \<exists>cfapps ps. apps = Inr cfapps \<and> processes = Inr ps \<and> list_all2 (populated ps) cfapps results)"
  by (rule getV3Applications_total [OF assms])

theorem getV3Applications_joins_witness:
  "getV3Applications rev (Some (Inr [])) (Some (Inl ReadError)) (Some (Inr [])) (Some (Inl ReadError)) =
     Some (Ret (Inl ReadError))"
proof -
  have "getV3Apps two_workers (\<lambda>k. Page [] 1) (\<lambda>g k. (500, PageReadError)) = Some (Inr [])"
    by (simp add: getV3Apps_def v3_apps_loop.simps)
  from getV3Applications_joins [of rev, OF mset_rev this, of "Inl ReadError" "Inr []" "Inl ReadError"] show ?thesis
    by (elim exE) (rename_tac r, case_tac r, auto simp: sum_error_def)
qed

text \<open>
  C24: Collecting the apps always ends. When the totals that the Cloud Controller announces in each of its
  listings are bounded, \<^verbatim>\<open>GetApplications\<close> returns, with whatever version is set, and does not panic: the
  four v3 listings with the sidecars of each app, their joining and the v2 pages. When the version is not
  yet 3 and the first v2 page can be read the result is a list of apps, whatever becomes of v3.
\<close>

theorem collect_apps_returns:
  assumes "\<And>es. mset (cca_arrival api es) = mset es"
    and "\<And>k rs t. cca_v3Apps api k = Page rs t \<Longrightarrow> t \<le> B"
    and "\<And>g k rs t. cca_sidecars api g k = (200, Page rs t) \<Longrightarrow> t \<le> B"
    and "\<And>k rs t. cca_processes api k = Page rs t \<Longrightarrow> t \<le> B"
    and "\<And>k rs t. cca_spaces api k = Page rs t \<Longrightarrow> t \<le> B"
    and "\<And>k rs t. cca_orgs api k = Page rs t \<Longrightarrow> t \<le> B"
  shows "\<exists>r cfc'. collect_apps cfc api = Some (Ret (r, cfc')) \<and>
    (cc_ApiVersion cfc \<noteq> 3 \<and> (\<exists>x. getV2ApplicationsByPage (cca_v2Apps api) 1 = Inr x) \<longrightarrow> (\<exists>apps. r = Inr apps))"
proof -
  obtain apps where apps: "getV3Apps cfc (cca_v3Apps api) (cca_sidecars api) = Some apps"
    using getV3Apps_returns [of "cca_v3Apps api" B "cca_sidecars api" B cfc] assms(2,3) by blast
  obtain ps where "getV3Processes (cca_processes api) = Some ps"
    using resources_return [of "cca_processes api" B] assms(4) by (auto simp: getV3Processes_def)
  moreover obtain ss where "getV3Spaces (cca_spaces api) = Some ss"
    using resources_return [of "cca_spaces api" B] assms(5) by (auto simp: getV3Spaces_def)
  moreover obtain os where "getV3Orgs (cca_orgs api) = Some os"
    using resources_return [of "cca_orgs api" B] assms(6) by (auto simp: getV3Orgs_def)
  ultimately obtain v3 where "v3_apps_at cfc api = Some (Ret v3)"
    using getV3Applications_no_panic [OF assms(1) apps] by (fastforce simp: v3_apps_at_def apps)
  moreover have "getV2ApplicationsByPage (cca_v2Apps api) 1 = Inr x \<Longrightarrow> \<exists>as. v2_apps_at cfc api = Inr as" for x
    by (cases x) (simp add: v2_apps_at_def getV2Applications_def)
  ultimately show ?thesis
    by (cases v3; cases "v2_apps_at cfc api") (auto simp: collect_apps_def GetApplications_def Let_def)
qed

text \<open>In the witness the v3 API fails, and the v2 API answers with two pages.\<close>

definition v2_only :: cc_api where
  "v2_only = \<lparr>cca_v3Apps = (\<lambda>_. PageRequestError), cca_sidecars = (\<lambda>_ _. (500, PageRequestError)),
     cca_processes = (\<lambda>_. Page [] 1), cca_spaces = (\<lambda>_. Page [] 1), cca_orgs = (\<lambda>_. PageReadError),
     cca_v2Apps = two_pages, cca_arrival = rev, cca_schedule = concat\<rparr>"

theorem collect_apps_returns_witness:
  "\<exists>apps cfc'. collect_apps two_workers v2_only = Some (Ret (Inr apps, cfc'))"
proof -
  have "\<exists>x. getV2ApplicationsByPage (cca_v2Apps v2_only) 1 = Inr x"
    by (simp add: v2_only_def two_pages_def getV2ApplicationsByPage_def)
  moreover have "cc_ApiVersion two_workers \<noteq> 3" by (simp add: two_workers_version)
  ultimately show ?thesis using collect_apps_returns [of v2_only 1 two_workers] by (auto simp: v2_only_def)
qed

text \<open>
  The version is remembered wrongly after a fallback. With no version set, a foundation
  whose v3 API fails is read through v2, but the version becomes 3: the next call uses v3 only
  and fails, although v2 would answer.
\<close>

lemma GetApplications_forgets_v2:
  assumes "cc_ApiVersion cfc \<noteq> 2" and "cc_ApiVersion cfc \<noteq> 3"
  shows "GetApplications cfc (Inl e) (Inr apps) = (Inr apps, cfc\<lparr>cc_ApiVersion := 3\<rparr>) \<and>
    fst (GetApplications (snd (GetApplications cfc (Inl e) (Inr apps))) (Inl e') (Inr apps')) = Inl e'"
  using assms by (simp add: GetApplications_def)

lemma GetApplications_forgets_v2_witness:
  "fst (GetApplications (snd (GetApplications two_workers (Inl RequestError) (Inr []))) (Inl ReadError) (Inr [])) =
     Inl ReadError"
  by (rule conjunct2 [OF GetApplications_forgets_v2]) (simp_all add: two_workers_version)

end
