(* ===== verification/App_Parser.thy ===== *)
theory App_Parser
  imports Infra_Parser CF_Client
begin

text \<open>
  \<^verbatim>\<open>internal/processor/parser/app.go\<close>: the cache of applications, its warm-up, and the parser of
  application envelopes into metric packages.

  An \<^verbatim>\<open>*App\<close> obtained from the cache is the cache's entry: it is named by its key, and changing
  the app changes the entry. What the Cloud Foundry and cluster agent clients return is an
  argument. \<open>now\<close> gives the successive readings of the clock.
\<close>

section \<open>Data\<close>

record App =
  app_Name :: string
  app_GUID :: string
  app_SpaceID :: string
  app_SpaceName :: string
  app_OrgName :: string
  app_OrgID :: string
  app_Host :: string
  app_Buildpacks :: "string list"
  app_NumberOfInstances :: int
  app_TotalDiskConfigured :: int
  app_TotalMemoryConfigured :: int
  app_TotalDiskProvisioned :: int
  app_TotalMemoryProvisioned :: int
  app_Tags :: "string list"

record AppCache =
  ac_apps :: "(string, App) gomap"
  ac_warmedUp :: bool
  ac_configured :: bool

definition newApp :: "string \<Rightarrow> App" where
  "newApp guid = \<lparr>app_Name = [], app_GUID = guid, app_SpaceID = [], app_SpaceName = [], app_OrgName = [],
     app_OrgID = [], app_Host = [], app_Buildpacks = [], app_NumberOfInstances = 0,
     app_TotalDiskConfigured = 0, app_TotalMemoryConfigured = 0, app_TotalDiskProvisioned = 0,
     app_TotalMemoryProvisioned = 0, app_Tags = []\<rparr>"

definition newAppCache :: AppCache where
  "newAppCache = \<lparr>ac_apps = [], ac_warmedUp = False, ac_configured = True\<rparr>"

text \<open>The global cache is created on first use.\<close>

definition GetGlobalAppCache :: "AppCache option \<Rightarrow> AppCache" where
  "GetGlobalAppCache global = (case global of None \<Rightarrow> newAppCache | Some c \<Rightarrow> c)"

section \<open>Filling an app\<close>

definition copy_fields :: "App \<Rightarrow> CFApplication \<Rightarrow> App" where
  "copy_fields a cfapp =
     a\<lparr>app_Name := cf_Name cfapp, app_SpaceID := cf_SpaceGUID cfapp, app_SpaceName := cf_SpaceName cfapp,
       app_OrgName := cf_OrgName cfapp, app_OrgID := cf_OrgGUID cfapp,
       app_NumberOfInstances := cf_Instances cfapp, app_TotalDiskConfigured := cf_DiskQuota cfapp,
       app_TotalMemoryConfigured := cf_Memory cfapp, app_TotalDiskProvisioned := cf_TotalDiskQuota cfapp,
       app_TotalMemoryProvisioned := cf_TotalMemory cfapp, app_Buildpacks := cf_Buildpacks cfapp\<rparr>"

definition identity_tags :: "App \<Rightarrow> string list" where
  "identity_tags a =
     appendTagIfNotEmpty (appendTagIfNotEmpty (appendTagIfNotEmpty (appendTagIfNotEmpty
       (appendTagIfNotEmpty (appendTagIfNotEmpty [] ''app_name'' (app_Name a))
         ''org_name'' (app_OrgName a)) ''org_id'' (app_OrgID a)) ''space_name'' (app_SpaceName a))
         ''space_id'' (app_SpaceID a)) ''guid'' (app_GUID a)"

definition more_tags :: "Config \<Rightarrow> CFApplication \<Rightarrow> string list \<Rightarrow> string list" where
  "more_tags cfg cfapp tags =
     (let t1 = foldl (\<lambda>ts bp. appendTagIfNotEmpty ts ''buildpack'' bp) tags (cf_Buildpacks cfapp);
          t2 = (case cf_Sidecars cfapp of
                  None \<Rightarrow> t1
                | Some sidecars \<Rightarrow>
                    appendTagIfNotEmpty
                      (appendTagIfNotEmpty t1 ''sidecar_present'' (format_bool (0 < length sidecars)))
                      ''sidecar_count'' (itoa (int (length sidecars))))
      in if cfg_EnableMetadataAppMetricsPrefix cfg then
           appendMetadataTags cfg (appendMetadataTags cfg t2 (entries (cf_Annotations cfapp)) ''annotation/'')
             (entries (cf_Labels cfapp)) ''label/''
         else
           appendMetadataTags cfg (appendMetadataTags cfg t2 (entries (cf_Annotations cfapp)) [])
             (entries (cf_Labels cfapp)) [])"

text \<open>
  The fields are set before the identifying tags are checked: on an error the app keeps its
  old tags and has the new fields. The flag says whether there was no error.
\<close>

definition setAppData :: "Config \<Rightarrow> App \<Rightarrow> CFApplication \<Rightarrow> App \<times> bool" where
  "setAppData cfg a cfapp =
     (let a' = copy_fields a cfapp;
          tags = identity_tags a'
      in if length tags \<noteq> 6 then (a', False)
         else (a'\<lparr>app_Tags := more_tags cfg cfapp tags\<rparr>, True))"

section \<open>The cache\<close>

definition AppCache_Add :: "Config \<Rightarrow> AppCache \<Rightarrow> CFApplication \<Rightarrow> AppCache \<times> App option" where
  "AppCache_Add cfg c cfApp =
     (case gget (ac_apps c) (cf_GUID cfApp) of
        Some app \<Rightarrow>
          (case setAppData cfg app cfApp of (app', ok) \<Rightarrow>
             let c' = c\<lparr>ac_apps := gput (cf_GUID cfApp) app' (ac_apps c)\<rparr>
             in (c', if ok then Some app' else None))
      | None \<Rightarrow>
          (case setAppData cfg (newApp (cf_GUID cfApp)) cfApp of (app', ok) \<Rightarrow>
             if ok then (c\<lparr>ac_apps := gput (cf_GUID cfApp) app' (ac_apps c)\<rparr>, Some app')
             else (c, None)))"

definition AppCache_Get :: "AppCache \<Rightarrow> string \<Rightarrow> App option" where
  "AppCache_Get c guid = gget (ac_apps c) guid"

definition IsWarmedUp :: "AppCache \<Rightarrow> bool" where
  "IsWarmedUp c = ac_warmedUp c"

definition SetWarmedUp :: "AppCache \<Rightarrow> AppCache" where
  "SetWarmedUp c = c\<lparr>ac_warmedUp := True\<rparr>"

section \<open>The parser\<close>

text \<open>A client as the parser uses it: what its two calls return.\<close>

record app_source =
  src_GetApplications :: "cf_error + CFApplication list"
  src_GetApplication :: "string \<Rightarrow> cf_error + CFApplication"

record AppParser =
  am_cfClient :: "app_source option"
  am_dcaClient :: "app_source option"
  am_cacheWorkers :: int
  am_grabInterval :: int
  am_customTags :: "string list"

definition NewAppParser ::
  "app_source option \<Rightarrow> app_source option \<Rightarrow> int \<Rightarrow> int \<Rightarrow> string list \<Rightarrow> string \<Rightarrow> bool \<Rightarrow> AppCache option
     \<Rightarrow> (AppParser \<times> AppCache) option" where
  "NewAppParser cfClient dcaClient cacheWorkers grabInterval customTags environment sharedCache global =
     (if cfClient = None \<and> dcaClient = None then None
      else let customTags = (if environment \<noteq> [] then customTags @ [tag ''env'' environment] else customTags);
               appC = (if sharedCache then GetGlobalAppCache global else newAppCache)
           in Some (\<lparr>am_cfClient = cfClient, am_dcaClient = dcaClient, am_cacheWorkers = cacheWorkers,
                     am_grabInterval = grabInterval, am_customTags = customTags\<rparr>, appC))"

definition warmup_list :: "AppParser \<Rightarrow> cf_error + CFApplication list" where
  "warmup_list am =
     (case am_dcaClient am of
        Some dca \<Rightarrow> src_GetApplications dca
      | None \<Rightarrow> (case am_cfClient am of Some cf \<Rightarrow> src_GetApplications cf | None \<Rightarrow> Inr []))"

definition add_apps :: "Config \<Rightarrow> AppCache \<Rightarrow> CFApplication list \<Rightarrow> AppCache" where
  "add_apps cfg c cfapps = foldl (\<lambda>c cfapp. fst (AppCache_Add cfg c cfapp)) c cfapps"

definition warmupCache :: "Config \<Rightarrow> AppParser \<Rightarrow> AppCache \<Rightarrow> AppCache" where
  "warmupCache cfg am c =
     (case warmup_list am of
        Inl err \<Rightarrow> c
      | Inr cfapps \<Rightarrow>
          let c' = add_apps cfg c cfapps
          in if \<not> IsWarmedUp c' then SetWarmedUp c' else c')"

text \<open>
  The background loop: a warm-up, then one per tick until the stop message, each with what the
  clients return then. Creating the ticker, or waiting the random time after a tick, may panic.
\<close>

datatype cache_event = Tick "int \<Rightarrow> int" AppParser | StopMessage

fun cache_events :: "Config \<Rightarrow> int \<Rightarrow> cache_event list \<Rightarrow> AppCache \<Rightarrow> AppCache outcome" where
  "cache_events cfg jitterMax [] c = Ret c"
| "cache_events cfg jitterMax (Tick rnd am # es) c =
     bind_outcome (jitterWait jitterMax rnd) (\<lambda>_. cache_events cfg jitterMax es (warmupCache cfg am c))"
| "cache_events cfg jitterMax (StopMessage # es) c = Ret c"

text \<open>The argument of the ticker: the product is an \<^verbatim>\<open>int\<close>, converted to \<^verbatim>\<open>uint32\<close>.\<close>

definition grab_seconds :: "int \<Rightarrow> uint32" where
  "grab_seconds grabInterval = word_of_int (wrap_int (grabInterval * 60))"

definition updateCacheLoop :: "Config \<Rightarrow> AppParser \<Rightarrow> cache_event list \<Rightarrow> AppCache \<Rightarrow> AppCache outcome" where
  "updateCacheLoop cfg am es c =
     (let c' = warmupCache cfg am c
      in bind_outcome (GetTickerWithJitter (grab_seconds (am_grabInterval am)) f64_tenth)
           (\<lambda>(period, jitterMax). cache_events cfg jitterMax es c'))"

text \<open>
  \<^verbatim>\<open>getAppData\<close> returns the key of the entry, or no app when adding it failed. With neither
  client the fetched app is a nil pointer.
\<close>

definition fetch_app :: "AppParser \<Rightarrow> string \<Rightarrow> (cf_error + CFApplication) option" where
  "fetch_app am guid =
     (case am_dcaClient am of
        Some dca \<Rightarrow> Some (src_GetApplication dca guid)
      | None \<Rightarrow> (case am_cfClient am of Some cf \<Rightarrow> Some (src_GetApplication cf guid) | None \<Rightarrow> None))"

definition getAppData :: "Config \<Rightarrow> AppParser \<Rightarrow> AppCache \<Rightarrow> string \<Rightarrow> (AppCache \<times> (cf_error + string option)) outcome" where
  "getAppData cfg am c guid =
     (case AppCache_Get c guid of
        Some app \<Rightarrow> Ret (c, Inr (Some guid))
      | None \<Rightarrow>
          (case fetch_app am guid of
             None \<Rightarrow> Panic
           | Some (Inl err) \<Rightarrow> Ret (c, Inl err)
           | Some (Inr cfapp) \<Rightarrow>
               (case AppCache_Add cfg c cfapp of (c', app) \<Rightarrow>
                  Ret (c', Inr (case app of None \<Rightarrow> None | Some _ \<Rightarrow> Some (cf_GUID cfapp))))))"

section \<open>Metrics of an app\<close>

definition mkMetrics :: "(nat \<Rightarrow> int) \<Rightarrow> App \<Rightarrow> string list \<Rightarrow> float64 list \<Rightarrow> string list \<Rightarrow> MetricPackage list" where
  "mkMetrics now a names ms moreTags =
     (let host = (if app_Host a \<noteq> [] then app_Host a else app_GUID a);
          tags = appendTagIfNotEmpty (app_Tags a @ moreTags) ''source_id'' (app_GUID a);
          (sorted, tagsHash) = HashTags tags
      in map (\<lambda>(i, name). \<lparr>mp_Key = \<lparr>mk_Name = name, mk_TagsHash = tagsHash\<rparr>,
                mp_Value = \<lparr>mv_Tags = sorted, mv_Points = [\<lparr>pt_Timestamp = now i, pt_Value = ms ! i\<rparr>],
                            mv_Host = host, mv_Type = []\<rparr>\<rparr>)
           (enumerate 0 names))"

definition app_metric_names :: "string list" where
  "app_metric_names = [''app.disk.configured'', ''app.disk.provisioned'', ''app.memory.configured'',
     ''app.memory.provisioned'', ''app.instances'']"

definition getMetrics :: "(nat \<Rightarrow> int) \<Rightarrow> App \<Rightarrow> string list \<Rightarrow> MetricPackage list" where
  "getMetrics now a customTags =
     mkMetrics now a app_metric_names
       [f64_of_int (app_TotalDiskConfigured a), f64_of_int (app_TotalDiskProvisioned a),
        f64_of_int (app_TotalMemoryConfigured a), f64_of_int (app_TotalMemoryProvisioned a),
        f64_of_int (app_NumberOfInstances a)] customTags"

definition container_metric_names :: "string list" where
  "container_metric_names = [''app.cpu.pct'', ''app.disk.used'', ''app.disk.quota'', ''app.memory.used'',
     ''app.memory.quota'']"

text \<open>Reading the value of an entry that is absent or nil panics.\<close>

definition gauge_at :: "Gauge \<Rightarrow> string \<Rightarrow> float64 outcome" where
  "gauge_at g k = (case gget g k of Some (Some v) \<Rightarrow> Ret (gv_Value v) | _ \<Rightarrow> Panic)"

definition parseContainerMetric ::
  "(nat \<Rightarrow> int) \<Rightarrow> App \<Rightarrow> Gauge \<Rightarrow> string \<Rightarrow> string list \<Rightarrow> MetricPackage list outcome" where
  "parseContainerMetric now a message instanceID customTags =
     bind_outcome (gauge_at message ''cpu'') (\<lambda>cpu.
     bind_outcome (gauge_at message ''disk'') (\<lambda>disk.
     bind_outcome (gauge_at message ''disk_quota'') (\<lambda>diskQuota.
     bind_outcome (gauge_at message ''memory'') (\<lambda>memory.
     bind_outcome (gauge_at message ''memory_quota'') (\<lambda>memoryQuota.
       Ret (mkMetrics now a container_metric_names [cpu, disk, diskQuota, memory, memoryQuota]
              (tag ''instance'' (getContainerInstanceID (Some message) instanceID) # customTags)))))))"

text \<open>
  The app's host is set in the cache's entry, under the app's own lock.
\<close>

definition parse_app ::
  "AppParser \<Rightarrow> (nat \<Rightarrow> int) \<Rightarrow> AppCache \<Rightarrow> string \<Rightarrow> App \<Rightarrow> Envelope
     \<Rightarrow> (AppCache \<times> (parse_error + MetricPackage list)) outcome" where
  "parse_app am now c key app envelope =
     (let app' = app\<lparr>app_Host := parseHost envelope\<rparr>;
          c' = c\<lparr>ac_apps := gput key app' (ac_apps c)\<rparr>;
          metricsPackages = getMetrics now app' (am_customTags am)
      in bind_outcome
           (parseContainerMetric (\<lambda>i. now (i + 5)) app' (GetGauge (ev_Message envelope)) (ev_InstanceId envelope)
              (am_customTags am))
           (\<lambda>containerMetrics. Ret (c', Inr (metricsPackages @ containerMetrics))))"

definition AppParser_Parse ::
  "Config \<Rightarrow> AppParser \<Rightarrow> (nat \<Rightarrow> int) \<Rightarrow> AppCache \<Rightarrow> Envelope
     \<Rightarrow> (AppCache \<times> (parse_error + MetricPackage list)) outcome" where
  "AppParser_Parse cfg am now c envelope =
     (if \<not> IsContainerMetric (ev_Message envelope) then Ret (c, Inl NotAppMetric)
      else let guid = ev_SourceId envelope
           in if guid = [] then Ret (c, Inr [])
              else bind_outcome (getAppData cfg am c guid) (\<lambda>(c', r).
                     case r of
                       Inl err \<Rightarrow> Ret (c', Inl AppLookupError)
                     | Inr None \<Rightarrow> Ret (c', Inr [])
                     | Inr (Some key) \<Rightarrow>
                         (case AppCache_Get c' key of
                            None \<Rightarrow> Ret (c', Inr [])
                          | Some app \<Rightarrow> parse_app am now c' key app envelope)))"

section \<open>Facts\<close>

lemma cache_events_total:
  "(\<And>rnd. jitterWait j rnd \<noteq> Panic) \<Longrightarrow> cache_events cfg j es c \<noteq> Panic"
proof (induction cfg j es c rule: cache_events.induct)
  case (2 cfg j rnd am es c)
  then show ?case using "2.prems" [of rnd] by (cases "jitterWait j rnd") auto
qed simp_all

text \<open>The loop only panics when the interval in seconds is a multiple of \<open>2 ^ 32\<close>.\<close>

lemma updateCacheLoop_Panic: "updateCacheLoop cfg am es c = Panic \<longleftrightarrow> grab_seconds (am_grabInterval am) = 0"
proof (cases "grab_seconds (am_grabInterval am) = 0")
  case False
  from GetTickerWithJitter_no_panic [OF False] obtain p j where
    pj: "GetTickerWithJitter (grab_seconds (am_grabInterval am)) f64_tenth = Ret (p, j)" by blast
  have "jitterWait j rnd \<noteq> Panic" for rnd using GetTickerWithJitter_no_panic [OF False, of rnd] pj by auto
  with pj False cache_events_total [of j cfg es] show ?thesis by (simp add: updateCacheLoop_def Let_def)
qed (simp add: updateCacheLoop_def Let_def GetTickerWithJitter_zero)

text \<open>An application that has all of its identifying tags.\<close>

definition identified :: "CFApplication \<Rightarrow> bool" where
  "identified cfapp \<longleftrightarrow> cf_Name cfapp \<noteq> [] \<and> cf_OrgName cfapp \<noteq> [] \<and> cf_OrgGUID cfapp \<noteq> [] \<and>
     cf_SpaceName cfapp \<noteq> [] \<and> cf_SpaceGUID cfapp \<noteq> [] \<and> cf_GUID cfapp \<noteq> []"

lemma identity_tags_length:
  "length (identity_tags a) = 6 \<longleftrightarrow>
     app_Name a \<noteq> [] \<and> app_OrgName a \<noteq> [] \<and> app_OrgID a \<noteq> [] \<and> app_SpaceName a \<noteq> [] \<and>
     app_SpaceID a \<noteq> [] \<and> app_GUID a \<noteq> []"
  by (simp add: identity_tags_def appendTagIfNotEmpty_def)

lemma identity_tags_eq:
  "length (identity_tags a) = 6 \<Longrightarrow>
   identity_tags a = [tag ''app_name'' (app_Name a), tag ''org_name'' (app_OrgName a),
     tag ''org_id'' (app_OrgID a), tag ''space_name'' (app_SpaceName a), tag ''space_id'' (app_SpaceID a),
     tag ''guid'' (app_GUID a)]"
  by (simp only: identity_tags_length) (simp add: identity_tags_def appendTagIfNotEmpty_def)

lemma newApp_GUID [simp]: "app_GUID (newApp g) = g"
  by (simp add: newApp_def)

lemma copy_fields_GUID [simp]: "app_GUID (copy_fields a cfapp) = app_GUID a"
  by (simp add: copy_fields_def)

lemma setAppData_ok_iff:
  "app_GUID a = cf_GUID cfapp \<Longrightarrow> snd (setAppData cfg a cfapp) \<longleftrightarrow> identified cfapp"
  by (simp add: setAppData_def Let_def identity_tags_length copy_fields_def identified_def)

lemma setAppData_GUID [simp]: "app_GUID (fst (setAppData cfg a cfapp)) = app_GUID a"
  by (simp add: setAppData_def Let_def)

lemma setAppData_eq_GUID: "setAppData cfg a cfapp = (a', ok) \<Longrightarrow> app_GUID a' = app_GUID a"
  by (metis fst_conv setAppData_GUID)

lemma setAppData_failed_tags: "\<not> snd (setAppData cfg a cfapp) \<Longrightarrow> app_Tags (fst (setAppData cfg a cfapp)) = app_Tags a"
  by (auto simp: setAppData_def Let_def copy_fields_def split: if_splits)

lemma proper_identity_tags: "list_all proper_tag (identity_tags a)"
  by (simp add: identity_tags_def)

lemma proper_buildpacks:
  "list_all proper_tag (foldl (\<lambda>ts bp. appendTagIfNotEmpty ts k bp) tags bps) \<longleftrightarrow> list_all proper_tag tags"
  by (induction bps arbitrary: tags) simp_all

lemma proper_more_tags: "list_all proper_tag (more_tags cfg cfapp tags) \<longleftrightarrow> list_all proper_tag tags"
  by (simp add: more_tags_def Let_def proper_buildpacks split: option.split)

lemma foldl_appendTag_prefix: "\<exists>more. foldl (\<lambda>ts bp. appendTagIfNotEmpty ts k bp) tags bps = tags @ more"
proof (induction bps arbitrary: tags)
  case (Cons b bps)
  obtain m where "appendTagIfNotEmpty tags k b = tags @ m" using appendTag_prefix by blast
  then show ?case using Cons [of "tags @ m"] by auto
qed simp

lemma more_tags_prefix: "\<exists>more. more_tags cfg cfapp tags = tags @ more"
proof -
  obtain m1 where m1: "foldl (\<lambda>ts bp. appendTagIfNotEmpty ts ''buildpack'' bp) tags (cf_Buildpacks cfapp) = tags @ m1"
    using foldl_appendTag_prefix by blast
  show ?thesis
    unfolding more_tags_def Let_def m1 by (simp add: appendMetadataTags_eq appendTagIfNotEmpty_def split: option.split)
qed

text \<open>What the tags of an app in the cache are: proper, with the identifying ones first.\<close>

definition app_ok :: "App \<Rightarrow> bool" where
  "app_ok a \<longleftrightarrow> app_GUID a \<noteq> [] \<and> list_all proper_tag (app_Tags a) \<and> tag ''guid'' (app_GUID a) \<in> set (app_Tags a)"

lemma setAppData_app_ok:
  assumes "snd (setAppData cfg a cfapp)"
  shows "app_ok (fst (setAppData cfg a cfapp))"
proof -
  let ?a = "copy_fields a cfapp"
  have len: "length (identity_tags ?a) = 6" using assms by (auto simp: setAppData_def Let_def split: if_splits)
  then have eq: "fst (setAppData cfg a cfapp) = ?a\<lparr>app_Tags := more_tags cfg cfapp (identity_tags ?a)\<rparr>"
    by (simp add: setAppData_def Let_def)
  obtain more where "more_tags cfg cfapp (identity_tags ?a) = identity_tags ?a @ more" using more_tags_prefix by blast
  then have "tag ''guid'' (app_GUID ?a) \<in> set (more_tags cfg cfapp (identity_tags ?a))"
    by (simp add: identity_tags_eq [OF len])
  then show ?thesis
    using len by (simp add: app_ok_def eq proper_more_tags proper_identity_tags identity_tags_length)
qed

text \<open>The cache's invariant: entries are under their own GUID and have proper tags.\<close>

definition cache_ok :: "AppCache \<Rightarrow> bool" where
  "cache_ok c \<longleftrightarrow> wf_gomap (ac_apps c) \<and> (\<forall>g a. gget (ac_apps c) g = Some a \<longrightarrow> app_GUID a = g \<and> app_ok a)"

lemma cache_ok_put:
  "cache_ok c \<Longrightarrow> app_GUID a = g \<Longrightarrow> app_ok a \<Longrightarrow> cache_ok (c\<lparr>ac_apps := gput g a (ac_apps c)\<rparr>)"
  by (auto simp: cache_ok_def gget_gput wf_gput split: if_splits)

lemma setAppData_keeps_ok: "app_ok a \<Longrightarrow> app_ok (fst (setAppData cfg a cfapp))"
  using setAppData_app_ok [of cfg a cfapp] setAppData_failed_tags [of cfg a cfapp]
  by (cases "snd (setAppData cfg a cfapp)") (auto simp: app_ok_def)

lemma AppCache_Add_ok: "cache_ok c \<Longrightarrow> cache_ok (fst (AppCache_Add cfg c cfapp))"
proof (cases "gget (ac_apps c) (cf_GUID cfapp)")
  case None
  assume "cache_ok c"
  then show ?thesis
    using None setAppData_app_ok [of cfg "newApp (cf_GUID cfapp)" cfapp]
      setAppData_GUID [of cfg "newApp (cf_GUID cfapp)" cfapp]
    by (auto simp: AppCache_Add_def intro!: cache_ok_put dest: setAppData_eq_GUID split: prod.split)
next
  case (Some a)
  assume ok: "cache_ok c"
  then have "app_GUID a = cf_GUID cfapp" "app_ok a" using Some by (auto simp: cache_ok_def)
  then show ?thesis
    using Some ok setAppData_keeps_ok [of a cfg cfapp] setAppData_GUID [of cfg a cfapp]
    by (auto simp: AppCache_Add_def Let_def intro!: cache_ok_put dest: setAppData_eq_GUID split: prod.split)
qed

section \<open>The interface of the cache\<close>

text \<open>
  What the warm-up and the parser need of a cache: adding an identified application makes it
  found under its GUID, adding one that is not identified adds nothing new, other keys are
  untouched, and the invariant is kept.
\<close>

locale app_cache =
  fixes add :: "'c \<Rightarrow> CFApplication \<Rightarrow> 'c" and get :: "'c \<Rightarrow> string \<Rightarrow> App option" and inv :: "'c \<Rightarrow> bool"
  assumes inv_add: "inv c \<Longrightarrow> inv (add c cfapp)"
    and get_add_other: "g \<noteq> cf_GUID cfapp \<Longrightarrow> get (add c cfapp) g = get c g"
    and get_add_same: "identified cfapp \<Longrightarrow> \<exists>a. get (add c cfapp) (cf_GUID cfapp) = Some a \<and>
          app_Name a = cf_Name cfapp \<and> app_NumberOfInstances a = cf_Instances cfapp"
    and get_add_new: "inv c \<Longrightarrow> \<not> identified cfapp \<Longrightarrow>
          get (add c cfapp) (cf_GUID cfapp) = None \<longleftrightarrow> get c (cf_GUID cfapp) = None"
    and get_ok: "inv c \<Longrightarrow> get c g = Some a \<Longrightarrow> app_GUID a = g \<and> app_ok a"
begin

definition add_all :: "'c \<Rightarrow> CFApplication list \<Rightarrow> 'c" where
  "add_all c cfapps = foldl add c cfapps"

lemma add_all_simps [simp]: "add_all c [] = c" "add_all c (x # xs) = add_all (add c x) xs"
  by (simp_all add: add_all_def)

lemma inv_add_all: "inv c \<Longrightarrow> inv (add_all c cfapps)"
  by (induction cfapps arbitrary: c) (simp_all add: inv_add)

lemma get_add_keeps: "inv c \<Longrightarrow> get c g \<noteq> None \<Longrightarrow> get (add c x) g \<noteq> None"
  using get_add_same [of x c] get_add_new [of c x] get_add_other [of g x c]
  by (cases "identified x"; cases "g = cf_GUID x") auto

text \<open>Exactly the apps that were there or are identified in the list are in the cache afterwards.\<close>

lemma get_add_all:
  "inv c \<Longrightarrow> get (add_all c xs) g \<noteq> None \<longleftrightarrow>
     get c g \<noteq> None \<or> (\<exists>x\<in>set xs. cf_GUID x = g \<and> identified x)"
proof (induction xs arbitrary: c)
  case (Cons x xs)
  have "get (add c x) g \<noteq> None \<longleftrightarrow> get c g \<noteq> None \<or> cf_GUID x = g \<and> identified x"
    using get_add_same [of x c] get_add_new [OF Cons.prems, of x] get_add_other [of g x c]
      get_add_keeps [OF Cons.prems, of g x]
    by (cases "identified x"; cases "g = cf_GUID x") auto
  with Cons.IH [OF inv_add [OF Cons.prems]] show ?case by auto
qed simp

text \<open>An app listed once more later has the later data.\<close>

lemma get_add_all_last:
  assumes "identified x" and "\<forall>y\<in>set ys. cf_GUID y \<noteq> cf_GUID x"
  shows "\<exists>a. get (add_all c (xs @ x # ys)) (cf_GUID x) = Some a \<and>
    app_Name a = cf_Name x \<and> app_NumberOfInstances a = cf_Instances x"
proof -
  have "get (add_all d ys) (cf_GUID x) = get d (cf_GUID x)" for d
    using assms(2) by (induction ys arbitrary: d) (simp_all add: get_add_other [OF not_sym])
  then show ?thesis using get_add_same [OF assms(1)] by (simp add: add_all_def)
qed

end

lemma setAppData_fields:
  "app_Name (fst (setAppData cfg a x)) = cf_Name x" "app_NumberOfInstances (fst (setAppData cfg a x)) = cf_Instances x"
  by (simp_all add: setAppData_def Let_def copy_fields_def)

lemma AppCache_Add_same:
  "cf_GUID x = g \<Longrightarrow> AppCache_Get (fst (AppCache_Add cfg c x)) g =
     (case AppCache_Get c g of
        Some a \<Rightarrow> Some (fst (setAppData cfg a x))
      | None \<Rightarrow> if identified x then Some (fst (setAppData cfg (newApp g) x)) else None)"
  using setAppData_ok_iff [of "newApp g" x cfg]
  by (auto simp: AppCache_Add_def AppCache_Get_def Let_def gget_gput split: option.split prod.split)

interpretation cache: app_cache "\<lambda>c x. fst (AppCache_Add cfg c x)" AppCache_Get cache_ok for cfg
proof
  fix c x g a
  show "cache_ok c \<Longrightarrow> cache_ok (fst (AppCache_Add cfg c x))" by (rule AppCache_Add_ok)
  show "g \<noteq> cf_GUID x \<Longrightarrow> AppCache_Get (fst (AppCache_Add cfg c x)) g = AppCache_Get c g"
    by (auto simp: AppCache_Add_def AppCache_Get_def Let_def gget_gput split: option.split prod.split)
  show "identified x \<Longrightarrow> \<exists>a. AppCache_Get (fst (AppCache_Add cfg c x)) (cf_GUID x) = Some a \<and>
      app_Name a = cf_Name x \<and> app_NumberOfInstances a = cf_Instances x"
    by (simp add: AppCache_Add_same setAppData_fields split: option.split)
  show "cache_ok c \<Longrightarrow> \<not> identified x \<Longrightarrow>
      AppCache_Get (fst (AppCache_Add cfg c x)) (cf_GUID x) = None \<longleftrightarrow> AppCache_Get c (cf_GUID x) = None"
    by (simp add: AppCache_Add_same split: option.split)
  show "cache_ok c \<Longrightarrow> AppCache_Get c g = Some a \<Longrightarrow> app_GUID a = g \<and> app_ok a"
    by (simp add: cache_ok_def AppCache_Get_def)
qed

lemma add_apps_eq: "add_apps cfg c xs = cache.add_all cfg c xs"
  by (simp add: add_apps_def cache.add_all_def)

text \<open>The metrics of an app: one package per name, with the same tags, hash and host.\<close>

lemma mkMetrics_names: "map (\<lambda>p. mk_Name (mp_Key p)) (mkMetrics now a names ms extra) = names"
  by (simp add: mkMetrics_def Let_def split_def comp_def)

definition package_ok :: "App \<Rightarrow> MetricPackage \<Rightarrow> bool" where
  "package_ok a p \<longleftrightarrow>
     (\<exists>tags. mv_Tags (mp_Value p) = sort tags \<and> mk_TagsHash (mp_Key p) = snd (HashTags tags) \<and>
        set (app_Tags a) \<subseteq> set tags \<and> tag ''source_id'' (app_GUID a) \<in> set tags) \<and>
     length (mv_Points (mp_Value p)) = 1 \<and>
     mv_Host (mp_Value p) = (if app_Host a \<noteq> [] then app_Host a else app_GUID a)"

lemma mkMetrics_ok:
  assumes "app_GUID a \<noteq> []"
  shows "list_all (package_ok a) (mkMetrics now a names ms extra)"
proof -
  let ?tags = "appendTagIfNotEmpty (app_Tags a @ extra) ''source_id'' (app_GUID a)"
  have "set (app_Tags a) \<subseteq> set ?tags" "tag ''source_id'' (app_GUID a) \<in> set ?tags"
    using assms by (auto simp: appendTagIfNotEmpty_def)
  then show ?thesis
    by (auto simp: mkMetrics_def Let_def list_all_iff package_ok_def split_def intro!: exI [of _ ?tags])
qed

lemma gauge_at_container: "IsContainerMetric m \<Longrightarrow> k \<in> set container_keys \<Longrightarrow> \<exists>v. gauge_at (GetGauge m) k = Ret v"
  using IsContainerMetric_value [of m k] by (auto simp: gauge_at_def)

lemma parseContainerMetric_Ret:
  assumes "IsContainerMetric m"
  obtains vs where "length vs = 5" "parseContainerMetric now a (GetGauge m) inst ct =
      Ret (mkMetrics now a container_metric_names vs (tag ''instance'' (getContainerInstanceID (Some (GetGauge m)) inst) # ct))"
proof -
  obtain v1 v2 v3 v4 v5 where "gauge_at (GetGauge m) ''cpu'' = Ret v1" "gauge_at (GetGauge m) ''disk'' = Ret v2"
    "gauge_at (GetGauge m) ''disk_quota'' = Ret v3" "gauge_at (GetGauge m) ''memory'' = Ret v4"
    "gauge_at (GetGauge m) ''memory_quota'' = Ret v5"
    using gauge_at_container [OF assms, of "''cpu''"] gauge_at_container [OF assms, of "''disk''"]
      gauge_at_container [OF assms, of "''disk_quota''"] gauge_at_container [OF assms, of "''memory''"]
      gauge_at_container [OF assms, of "''memory_quota''"]
    by (simp add: container_keys_def) blast
  then show ?thesis by (intro that [of "[v1, v2, v3, v4, v5]"]) (simp_all add: parseContainerMetric_def)
qed

text \<open>What a successful parse of an app returns.\<close>

definition app_packages :: "App \<Rightarrow> MetricPackage list \<Rightarrow> bool" where
  "app_packages a ps \<longleftrightarrow>
     map (\<lambda>p. mk_Name (mp_Key p)) ps = app_metric_names @ container_metric_names \<and> list_all (package_ok a) ps"

lemma parse_app_Ret:
  assumes "IsContainerMetric (ev_Message e)" and "cache_ok c" and "AppCache_Get c key = Some a"
  shows "\<exists>ps. parse_app am now c key a e =
      Ret (c\<lparr>ac_apps := gput key (a\<lparr>app_Host := parseHost e\<rparr>) (ac_apps c)\<rparr>, Inr ps) \<and>
    app_packages (a\<lparr>app_Host := parseHost e\<rparr>) ps \<and>
    take 5 ps = getMetrics now (a\<lparr>app_Host := parseHost e\<rparr>) (am_customTags am)"
proof -
  let ?a = "a\<lparr>app_Host := parseHost e\<rparr>"
  have g: "app_GUID ?a \<noteq> []" using cache.get_ok [OF assms(2,3)] by (auto simp: app_ok_def)
  obtain vs where vs: "parseContainerMetric (\<lambda>i. now (i + 5)) ?a (GetGauge (ev_Message e)) (ev_InstanceId e) (am_customTags am) =
      Ret (mkMetrics (\<lambda>i. now (i + 5)) ?a container_metric_names vs
        (tag ''instance'' (getContainerInstanceID (Some (GetGauge (ev_Message e))) (ev_InstanceId e)) # am_customTags am))"
    by (rule parseContainerMetric_Ret [OF assms(1)])
  have len: "length (getMetrics now ?a (am_customTags am)) = 5"
    using arg_cong [OF mkMetrics_names, of length] by (simp add: getMetrics_def app_metric_names_def)
  show ?thesis
    using mkMetrics_ok [OF g] len
    by (simp add: parse_app_def Let_def vs app_packages_def mkMetrics_names) (simp add: getMetrics_def mkMetrics_names mkMetrics_ok [OF g])
qed

lemma cache_ok_host: "cache_ok c \<Longrightarrow> AppCache_Get c key = Some a \<Longrightarrow>
    cache_ok (c\<lparr>ac_apps := gput key (a\<lparr>app_Host := h\<rparr>) (ac_apps c)\<rparr>)"
  using cache.get_ok [of c key a] by (intro cache_ok_put) (auto simp: app_ok_def)

lemma getAppData_Ret:
  assumes "am_cfClient am \<noteq> None \<or> am_dcaClient am \<noteq> None" and "cache_ok c"
  shows "\<exists>c' r. getAppData cfg am c guid = Ret (c', r) \<and> cache_ok c'"
proof (cases "AppCache_Get c guid")
  case None
  have add: "\<exists>c' r. (case s of Inl err \<Rightarrow> Ret (c, Inl err)
      | Inr cfapp \<Rightarrow> (case AppCache_Add cfg c cfapp of (c', app) \<Rightarrow>
          Ret (c', Inr (case app of None \<Rightarrow> None | Some _ \<Rightarrow> Some (cf_GUID cfapp))))) = Ret (c', r) \<and> cache_ok c'"
    for s :: "cf_error + CFApplication"
  proof (cases s)
    case (Inr x)
    obtain c' a where "AppCache_Add cfg c x = (c', a)" by fastforce
    then show ?thesis using AppCache_Add_ok [OF assms(2), of cfg x] Inr by simp
  qed (use assms(2) in simp)
  show ?thesis
    using None assms(1) add
    by (cases "am_dcaClient am"; cases "am_cfClient am") (simp_all add: getAppData_def fetch_app_def)
qed (use assms(2) in \<open>simp add: getAppData_def\<close>)

section \<open>What is reported of an app\<close>

text \<open>
  What is reported of an app, as a table: the ten names with their values and the tags that are added
  to those of the app. The container's values are read from the gauge.
\<close>

definition container_value :: "Gauge \<Rightarrow> string \<Rightarrow> float64" where
  "container_value g k = (case gget g k of Some (Some v) \<Rightarrow> gv_Value v | _ \<Rightarrow> NaN)"

definition app_table :: "App \<Rightarrow> Envelope \<Rightarrow> string list \<Rightarrow> (string \<times> float64 \<times> string list) list" where
  "app_table a e customTags =
     (let g = GetGauge (ev_Message e);
          index = (case gget g ''instance_index'' of Some (Some i) \<Rightarrow> itoa (trunc_int (gv_Value i)) | _ \<Rightarrow> ev_InstanceId e);
          containerTags = tag ''instance'' index # customTags
      in [(''app.disk.configured'', f64_of_int (app_TotalDiskConfigured a), customTags),
          (''app.disk.provisioned'', f64_of_int (app_TotalDiskProvisioned a), customTags),
          (''app.memory.configured'', f64_of_int (app_TotalMemoryConfigured a), customTags),
          (''app.memory.provisioned'', f64_of_int (app_TotalMemoryProvisioned a), customTags),
          (''app.instances'', f64_of_int (app_NumberOfInstances a), customTags),
          (''app.cpu.pct'', container_value g ''cpu'', containerTags),
          (''app.disk.used'', container_value g ''disk'', containerTags),
          (''app.disk.quota'', container_value g ''disk_quota'', containerTags),
          (''app.memory.used'', container_value g ''memory'', containerTags),
          (''app.memory.quota'', container_value g ''memory_quota'', containerTags)])"

definition row_package :: "App \<Rightarrow> string \<Rightarrow> int \<Rightarrow> string \<times> float64 \<times> string list \<Rightarrow> MetricPackage" where
  "row_package a host t row =
     (case row of (name, value, moreTags) \<Rightarrow>
        let tags = app_Tags a @ moreTags @ [tag ''source_id'' (app_GUID a)]
        in \<lparr>mp_Key = \<lparr>mk_Name = name, mk_TagsHash = snd (HashTags tags)\<rparr>,
            mp_Value = \<lparr>mv_Tags = sort tags, mv_Points = [\<lparr>pt_Timestamp = t, pt_Value = value\<rparr>],
                        mv_Host = host, mv_Type = []\<rparr>\<rparr>)"

definition app_report :: "(nat \<Rightarrow> int) \<Rightarrow> App \<Rightarrow> Envelope \<Rightarrow> string list \<Rightarrow> MetricPackage list" where
  "app_report now a e customTags =
     map (\<lambda>(i, row). row_package a (if parseHost e \<noteq> [] then parseHost e else app_GUID a) (now i) row)
       (enumerate 0 (app_table a e customTags))"

lemma mkMetrics_rows:
  assumes "app_GUID a \<noteq> []"
  shows "mkMetrics now a [n0, n1, n2, n3, n4] [v0, v1, v2, v3, v4] moreTags =
    map (\<lambda>(i, row). row_package a (if app_Host a \<noteq> [] then app_Host a else app_GUID a) (now i) row)
      (enumerate 0 [(n0, v0, moreTags), (n1, v1, moreTags), (n2, v2, moreTags), (n3, v3, moreTags), (n4, v4, moreTags)])"
  using assms by (simp add: mkMetrics_def row_package_def Let_def appendTagIfNotEmpty_def HashTags_def)

lemma gauge_at_value:
  "IsContainerMetric m \<Longrightarrow> k \<in> set container_keys \<Longrightarrow> gauge_at (GetGauge m) k = Ret (container_value (GetGauge m) k)"
  using IsContainerMetric_value [of m k] by (auto simp: gauge_at_def container_value_def)

lemma row_package_host [simp]: "row_package (a\<lparr>app_Host := h\<rparr>) host t row = row_package a host t row"
  by (simp add: row_package_def)

lemma parse_app_report:
  assumes "IsContainerMetric (ev_Message e)" and "app_GUID a \<noteq> []"
  shows "parse_app am now c key a e =
    Ret (c\<lparr>ac_apps := gput key (a\<lparr>app_Host := parseHost e\<rparr>) (ac_apps c)\<rparr>, Inr (app_report now a e (am_customTags am)))"
proof -
  let ?a = "a\<lparr>app_Host := parseHost e\<rparr>" and ?g = "GetGauge (ev_Message e)" and ?ct = "am_customTags am"
  let ?row = "\<lambda>(i, row). row_package ?a (if app_Host ?a \<noteq> [] then app_Host ?a else app_GUID ?a) (now i) row"
  let ?t = "tag ''instance'' (getContainerInstanceID (Some ?g) (ev_InstanceId e)) # ?ct"
  have g: "app_GUID ?a \<noteq> []" using assms(2) by simp
  have v: "gauge_at ?g k = Ret (container_value ?g k)" if "k \<in> set container_keys" for k
    by (rule gauge_at_value [OF assms(1) that])
  have own: "getMetrics now ?a ?ct = map ?row (enumerate 0 (take 5 (app_table a e ?ct)))"
    unfolding getMetrics_def app_metric_names_def mkMetrics_rows [OF g] by (simp add: app_table_def Let_def)
  have containers: "parseContainerMetric (\<lambda>i. now (i + 5)) ?a ?g (ev_InstanceId e) ?ct =
      Ret (map ?row (enumerate 5 (drop 5 (app_table a e ?ct))))"
    unfolding parseContainerMetric_def container_metric_names_def mkMetrics_rows [OF g]
    using v by (simp add: container_keys_def app_table_def Let_def getContainerInstanceID_def numeral_eq_Suc)
  have "map ?row (enumerate 0 (take 5 (app_table a e ?ct))) @ map ?row (enumerate 5 (drop 5 (app_table a e ?ct))) =
      map ?row (enumerate 0 (app_table a e ?ct))"
    by (simp add: app_table_def Let_def numeral_eq_Suc)
  then show ?thesis
    by (simp add: parse_app_def Let_def own containers) (simp add: app_report_def)
qed

text \<open>The app that a listed application becomes: its fields, and the tags that \<open>setAppData\<close> gives it.\<close>

definition shows_app :: "Config \<Rightarrow> App \<Rightarrow> CFApplication \<Rightarrow> bool" where
  "shows_app cfg a x \<longleftrightarrow>
     app_GUID a = cf_GUID x \<and> app_Name a = cf_Name x \<and> app_SpaceID a = cf_SpaceGUID x \<and> app_SpaceName a = cf_SpaceName x \<and>
     app_OrgName a = cf_OrgName x \<and> app_OrgID a = cf_OrgGUID x \<and> app_Buildpacks a = cf_Buildpacks x \<and>
     app_NumberOfInstances a = cf_Instances x \<and>
     app_TotalDiskConfigured a = cf_DiskQuota x \<and> app_TotalDiskProvisioned a = cf_TotalDiskQuota x \<and>
     app_TotalMemoryConfigured a = cf_Memory x \<and> app_TotalMemoryProvisioned a = cf_TotalMemory x \<and>
     app_Tags a = app_Tags (fst (setAppData cfg (newApp (cf_GUID x)) x))"

lemma setAppData_shows:
  assumes "app_GUID b = cf_GUID x" and "identified x"
  shows "shows_app cfg (fst (setAppData cfg b x)) x"
proof -
  have "identity_tags (copy_fields b x) = identity_tags (copy_fields (newApp (cf_GUID x)) x)"
    using assms(1) by (simp add: identity_tags_def copy_fields_def newApp_def)
  moreover have "snd (setAppData cfg b x)" "snd (setAppData cfg (newApp (cf_GUID x)) x)"
    using assms setAppData_ok_iff by auto
  ultimately have "app_Tags (fst (setAppData cfg b x)) = app_Tags (fst (setAppData cfg (newApp (cf_GUID x)) x))"
    by (auto simp: setAppData_def Let_def split: if_splits)
  then show ?thesis
    using assms(1) by (simp add: shows_app_def) (simp add: setAppData_def Let_def copy_fields_def)
qed

text \<open>
  What parsing a container metric does. \<open>source\<close> is the client that is asked for an app that is not cached.
\<close>

definition parsed_app ::
  "Config \<Rightarrow> AppParser \<Rightarrow> (nat \<Rightarrow> int) \<Rightarrow> AppCache \<Rightarrow> Envelope \<Rightarrow> AppCache \<Rightarrow> parse_error + MetricPackage list \<Rightarrow> bool" where
  "parsed_app cfg am now c e c' r \<longleftrightarrow>
     (let guid = ev_SourceId e;
          source = (if am_dcaClient am = None then am_cfClient am else am_dcaClient am);
          report = (\<lambda>a. Inr (app_report now a e (am_customTags am)));
          stored = (\<lambda>g a. AppCache_Get c' = (AppCache_Get c)(g \<mapsto> a\<lparr>app_Host := parseHost e\<rparr>))
      in if guid = [] then c' = c \<and> r = Inr []
         else case AppCache_Get c guid of
           Some a \<Rightarrow> stored guid a \<and> r = report a
         | None \<Rightarrow>
             (case map_option (\<lambda>src. src_GetApplication src guid) source of
                Some (Inr x) \<Rightarrow>
                  if identified x then \<exists>a. shows_app cfg a x \<and> stored (cf_GUID x) a \<and> r = report a
                  else r = Inr [] \<and> dom (AppCache_Get c') = dom (AppCache_Get c)
              | Some (Inl err) \<Rightarrow> c' = c \<and> r = Inl AppLookupError
              | None \<Rightarrow> False))"

lemma AppCache_Get_put: "AppCache_Get (c\<lparr>ac_apps := gput k a (ac_apps c)\<rparr>) = (AppCache_Get c)(k \<mapsto> a)"
  by (rule ext) (simp add: AppCache_Get_def gget_gput)

lemma AppCache_Add_identified:
  assumes "cache_ok c" and "identified x"
  shows "\<exists>c' a. AppCache_Add cfg c x = (c', Some a) \<and> shows_app cfg a x \<and> AppCache_Get c' = (AppCache_Get c)(cf_GUID x \<mapsto> a)"
proof -
  define b where "b = (case AppCache_Get c (cf_GUID x) of Some b \<Rightarrow> b | None \<Rightarrow> newApp (cf_GUID x))"
  have g: "app_GUID b = cf_GUID x"
    using cache.get_ok [OF assms(1)] by (auto simp: b_def split: option.split)
  obtain a where a: "setAppData cfg b x = (a, True)"
    using setAppData_ok_iff [OF g, of cfg] assms(2) by (cases "setAppData cfg b x") auto
  have "AppCache_Add cfg c x = (c\<lparr>ac_apps := gput (cf_GUID x) a (ac_apps c)\<rparr>, Some a)"
    using a by (cases "gget (ac_apps c) (cf_GUID x)") (auto simp: AppCache_Add_def b_def AppCache_Get_def)
  moreover have "shows_app cfg a x" using setAppData_shows [OF g assms(2), of cfg] a by simp
  ultimately show ?thesis using AppCache_Get_put by blast
qed

lemma AppCache_Add_unidentified:
  assumes "cache_ok c" and "\<not> identified x"
  shows "\<exists>c'. AppCache_Add cfg c x = (c', None) \<and> dom (AppCache_Get c') = dom (AppCache_Get c)"
proof (cases "gget (ac_apps c) (cf_GUID x)")
  case None
  then show ?thesis
    using setAppData_ok_iff [of "newApp (cf_GUID x)" x cfg] assms(2)
    by (cases "setAppData cfg (newApp (cf_GUID x)) x") (simp add: AppCache_Add_def)
next
  case (Some b)
  then have "app_GUID b = cf_GUID x" using assms(1) by (simp add: cache_ok_def)
  then obtain a where a: "setAppData cfg b x = (a, False)"
    using setAppData_ok_iff [of b x cfg] assms(2) by (cases "setAppData cfg b x") auto
  then show ?thesis
    using Some by (auto simp: AppCache_Add_def AppCache_Get_def gget_gput dom_def split: if_splits)
qed

lemma AppParser_Parse_exact:
  assumes "am_cfClient am \<noteq> None \<or> am_dcaClient am \<noteq> None" and "cache_ok c" and "IsContainerMetric (ev_Message e)"
  shows "\<exists>c' r. AppParser_Parse cfg am now c e = Ret (c', r) \<and> cache_ok c' \<and> parsed_app cfg am now c e c' r"
proof (cases "ev_SourceId e = []")
  case True
  then show ?thesis using assms by (simp add: AppParser_Parse_def parsed_app_def)
next
  case ne: False
  show ?thesis
  proof (cases "AppCache_Get c (ev_SourceId e)")
    case (Some a)
    then have "app_GUID a \<noteq> []" using cache.get_ok [OF assms(2) Some] by (auto simp: app_ok_def)
    then show ?thesis
      using Some ne assms(3) cache_ok_host [OF assms(2) Some]
      by (simp add: AppParser_Parse_def getAppData_def parsed_app_def parse_app_report AppCache_Get_put)
  next
    case None
    define source where "source = (if am_dcaClient am = None then am_cfClient am else am_dcaClient am)"
    obtain src where src: "source = Some src" using assms(1) by (cases "am_dcaClient am") (auto simp: source_def)
    then have fetch: "fetch_app am (ev_SourceId e) = Some (src_GetApplication src (ev_SourceId e))"
      by (auto simp: source_def fetch_app_def split: if_splits)
    show ?thesis
    proof (cases "src_GetApplication src (ev_SourceId e)")
      case (Inl err)
      then show ?thesis
        using None ne assms(2,3) src fetch
        by (simp add: AppParser_Parse_def getAppData_def parsed_app_def source_def [symmetric])
    next
      case (Inr x)
      show ?thesis
      proof (cases "identified x")
        case True
        from AppCache_Add_identified [OF assms(2) True, of cfg] obtain c1 a where
          add: "AppCache_Add cfg c x = (c1, Some a)" "shows_app cfg a x" "AppCache_Get c1 = (AppCache_Get c)(cf_GUID x \<mapsto> a)"
          by blast
        have ok: "cache_ok c1" using AppCache_Add_ok [OF assms(2), of cfg x] add(1) by simp
        have get: "AppCache_Get c1 (cf_GUID x) = Some a" by (simp add: add(3))
        have "app_GUID a \<noteq> []" using cache.get_ok [OF ok get] by (auto simp: app_ok_def)
        then have "AppParser_Parse cfg am now c e =
            Ret (c1\<lparr>ac_apps := gput (cf_GUID x) (a\<lparr>app_Host := parseHost e\<rparr>) (ac_apps c1)\<rparr>,
              Inr (app_report now a e (am_customTags am)))"
          using None ne assms(3) fetch Inr add(1) get
          by (simp add: AppParser_Parse_def getAppData_def parse_app_report)
        moreover have "parsed_app cfg am now c e
            (c1\<lparr>ac_apps := gput (cf_GUID x) (a\<lparr>app_Host := parseHost e\<rparr>) (ac_apps c1)\<rparr>)
            (Inr (app_report now a e (am_customTags am)))"
          using None ne src Inr True add(2)
          by (auto simp: parsed_app_def source_def [symmetric] AppCache_Get_put add(3))
        ultimately show ?thesis using cache_ok_host [OF ok get] by blast
      next
        case False
        from AppCache_Add_unidentified [OF assms(2) False, of cfg] obtain c1 where
          add: "AppCache_Add cfg c x = (c1, None)" "dom (AppCache_Get c1) = dom (AppCache_Get c)" by blast
        have ok: "cache_ok c1" using AppCache_Add_ok [OF assms(2), of cfg x] add(1) by simp
        then show ?thesis
          using None ne assms(3) src fetch Inr False add
          by (simp add: AppParser_Parse_def getAppData_def parsed_app_def source_def [symmetric])
      qed
    qed
  qed
qed

section \<open>The component's properties\<close>

text \<open>
  C27: The tags of a cached app. Setting an app's data fails exactly when the application lacks one
  of its six identifying fields, and then the tags stay as they were although the other fields are
  the new ones; otherwise the tags are the six identifying ones, the build packs, the sidecars and
  the annotations and labels that the metadata settings let through, each with a value.
\<close>

theorem setAppData_tags:
  assumes "app_GUID a = cf_GUID x"
  shows "(snd (setAppData cfg a x) \<longleftrightarrow> identified x) \<and>
    app_Name (fst (setAppData cfg a x)) = cf_Name x \<and>
    app_Tags (fst (setAppData cfg a x)) =
      (if \<not> identified x then app_Tags a
       else [tag ''app_name'' (cf_Name x), tag ''org_name'' (cf_OrgName x), tag ''org_id'' (cf_OrgGUID x),
             tag ''space_name'' (cf_SpaceName x), tag ''space_id'' (cf_SpaceGUID x), tag ''guid'' (cf_GUID x)]
         @ map (tag ''buildpack'') (filter (\<lambda>bp. bp \<noteq> []) (cf_Buildpacks x))
         @ (case cf_Sidecars x of None \<Rightarrow> []
            | Some sc \<Rightarrow> [tag ''sidecar_present'' (format_bool (sc \<noteq> [])), tag ''sidecar_count'' (itoa (int (length sc)))])
         @ concat (map (metadata_tag cfg (if cfg_EnableMetadataAppMetricsPrefix cfg then ''annotation/'' else []))
             (entries (cf_Annotations x)))
         @ concat (map (metadata_tag cfg (if cfg_EnableMetadataAppMetricsPrefix cfg then ''label/'' else []))
             (entries (cf_Labels x))))"
proof -
  have bp: "foldl (\<lambda>ts bp. appendTagIfNotEmpty ts ''buildpack'' bp) ts bps =
      ts @ map (tag ''buildpack'') (filter (\<lambda>bp. bp \<noteq> []) bps)" for ts bps
    by (induction bps arbitrary: ts) (auto simp: appendTagIfNotEmpty_def)
  have sc: "appendTagIfNotEmpty (appendTagIfNotEmpty ts ''sidecar_present'' (format_bool b)) ''sidecar_count'' (itoa n) =
      ts @ [tag ''sidecar_present'' (format_bool b), tag ''sidecar_count'' (itoa n)]" for ts b n
    by (simp add: appendTagIfNotEmpty_def format_bool_def itoa_def)
  let ?a = "copy_fields a x"
  have six: "length (identity_tags ?a) = 6 \<longleftrightarrow> identified x"
    using assms by (simp add: identity_tags_length identified_def copy_fields_def)
  show ?thesis
  proof (cases "identified x")
    case False
    with six setAppData_ok_iff [OF assms, of cfg] setAppData_failed_tags [of cfg a x] show ?thesis
      by (simp add: setAppData_fields)
  next
    case True
    then have len: "length (identity_tags ?a) = 6" using six by simp
    have "app_Tags (fst (setAppData cfg a x)) = more_tags cfg x (identity_tags ?a)"
      by (simp add: setAppData_def Let_def len)
    also have "identity_tags ?a = [tag ''app_name'' (cf_Name x), tag ''org_name'' (cf_OrgName x), tag ''org_id'' (cf_OrgGUID x),
        tag ''space_name'' (cf_SpaceName x), tag ''space_id'' (cf_SpaceGUID x), tag ''guid'' (cf_GUID x)]"
      unfolding identity_tags_eq [OF len] using assms by (simp add: copy_fields_def)
    finally show ?thesis
      using True setAppData_ok_iff [OF assms, of cfg] unfolding more_tags_def Let_def bp
      by (simp add: setAppData_fields sc appendMetadataTags_eq split: option.split)
  qed
qed

definition sample_app :: CFApplication where
  "sample_app = zero_CFApplication\<lparr>cf_GUID := ''g'', cf_Name := ''n'', cf_SpaceGUID := ''s'', cf_SpaceName := ''sp'',
     cf_OrgName := ''o'', cf_OrgGUID := ''og'', cf_Instances := 3, cf_Buildpacks := [''java'', []]\<rparr>"

lemma sample_app_identified: "identified sample_app"
  by (simp add: identified_def sample_app_def)

lemma sample_app_GUID: "cf_GUID sample_app = ''g''"
  by (simp add: sample_app_def)

theorem setAppData_tags_witness:
  "snd (setAppData zero_Config (newApp ''g'') sample_app) \<and>
   tag ''buildpack'' ''java'' \<in> set (app_Tags (fst (setAppData zero_Config (newApp ''g'') sample_app)))"
proof -
  have "app_GUID (newApp ''g'') = cf_GUID sample_app" by (simp add: sample_app_GUID)
  from setAppData_tags [OF this, of zero_Config] sample_app_identified show ?thesis
    by (simp add: sample_app_def)
qed

text \<open>
  C20: The warm-up. If the list of apps cannot be had the cache is unchanged. Otherwise it is warmed
  up, its entries are under their own GUIDs with proper tags, and it holds exactly the apps it held
  before and the listed ones that have all their identifying fields: an app without them does not
  keep the others out.
\<close>

theorem warmupCache_spec:
  assumes "cache_ok c"
  shows "case warmup_list am of
      Inl _ \<Rightarrow> warmupCache cfg am c = c
    | Inr xs \<Rightarrow> IsWarmedUp (warmupCache cfg am c) \<and> cache_ok (warmupCache cfg am c) \<and>
        (\<forall>g. AppCache_Get (warmupCache cfg am c) g \<noteq> None \<longleftrightarrow>
          AppCache_Get c g \<noteq> None \<or> (\<exists>x\<in>set xs. cf_GUID x = g \<and> identified x))"
proof (cases "warmup_list am")
  case (Inr xs)
  have "AppCache_Get (SetWarmedUp d) g = AppCache_Get d g" "cache_ok (SetWarmedUp d) = cache_ok d" for d g
    by (simp_all add: AppCache_Get_def SetWarmedUp_def cache_ok_def)
  then show ?thesis
    using cache.inv_add_all [OF assms, of cfg xs] cache.get_add_all [OF assms, of cfg xs]
    by (simp add: Inr warmupCache_def Let_def add_apps_eq) (simp add: IsWarmedUp_def SetWarmedUp_def)
qed (simp add: warmupCache_def)

lemma newAppCache_ok: "cache_ok newAppCache"
  by (simp add: cache_ok_def newAppCache_def)

definition sample_source :: app_source where
  "sample_source = \<lparr>src_GetApplications = Inr [zero_CFApplication, sample_app],
     src_GetApplication = (\<lambda>_. Inr sample_app)\<rparr>"

definition sample_parser :: AppParser where
  "sample_parser = \<lparr>am_cfClient = Some sample_source, am_dcaClient = None, am_cacheWorkers = 1, am_grabInterval = 10,
     am_customTags = [''env:x'']\<rparr>"

theorem warmupCache_spec_witness:
  "AppCache_Get (warmupCache zero_Config sample_parser newAppCache) ''g'' \<noteq> None \<and>
   AppCache_Get (warmupCache zero_Config sample_parser newAppCache) [] = None"
proof -
  have l: "warmup_list sample_parser = Inr [zero_CFApplication, sample_app]"
    by (simp add: warmup_list_def sample_parser_def sample_source_def)
  have "\<not> identified zero_CFApplication" "AppCache_Get newAppCache g = None" for g
    by (simp_all add: identified_def zero_CFApplication_def AppCache_Get_def newAppCache_def)
  then show ?thesis
    using warmupCache_spec [OF newAppCache_ok, where am = sample_parser and cfg = zero_Config] sample_app_identified sample_app_GUID
    by (simp add: l) (metis list.distinct(1) not_None_eq)
qed

lemma AppParser_Parse_total:
  assumes "am_cfClient am \<noteq> None \<or> am_dcaClient am \<noteq> None" and "cache_ok c"
  shows "\<exists>c' r. AppParser_Parse cfg am now c e = Ret (c', r) \<and> cache_ok c' \<and>
    (if IsContainerMetric (ev_Message e) then parsed_app cfg am now c e c' r else c' = c \<and> r = Inl NotAppMetric)"
  using AppParser_Parse_exact [OF assms, of e cfg now] assms(2)
  by (cases "IsContainerMetric (ev_Message e)") (simp_all add: AppParser_Parse_def)

text \<open>
  C5: Parsing an app envelope, with at least one client and the cache's invariant: it does not panic and keeps
  the invariant, and an envelope that is no container metric is an error that changes nothing. For a
  container metric it is as \<open>parsed_app\<close> says. Without a source id nothing is reported. If the cache has an
  app under the source id, that app is reported, and only its host changes in the cache. Otherwise the app
  is asked for, from the cluster agent if there is one; a failure is an error that changes nothing; an
  answer without all identifying fields reports nothing and adds no app; any other answer is
  cached under its own GUID and reported. A report is the ten packages of \<open>app_report\<close>: the app's
  five totals, then the container's five values, each with one point, the tags of the app and of
  the nozzle and the GUID, their hash, and the envelope's host (the GUID without one).
\<close>

theorem AppParser_Parse_spec:
  assumes "am_cfClient am \<noteq> None \<or> am_dcaClient am \<noteq> None" and "cache_ok c"
  shows "\<exists>c' r. AppParser_Parse cfg am now c e = Ret (c', r) \<and> cache_ok c' \<and>
    (if IsContainerMetric (ev_Message e) then parsed_app cfg am now c e c' r else c' = c \<and> r = Inl NotAppMetric)"
  by (rule AppParser_Parse_total [OF assms])

definition container_envelope :: Envelope where
  "container_envelope = \<lparr>ev_Timestamp = 0, ev_SourceId = ''g'', ev_InstanceId = ''4'', ev_Tags = [(''origin'', ''rep'')],
     ev_Message = Envelope_Gauge (map (\<lambda>k. (k, Some \<lparr>gv_Unit = ''bytes'', gv_Value = f64_of_int 1\<rparr>)) container_keys)\<rparr>"

lemma container_envelope_source: "ev_SourceId container_envelope = ''g''"
  by (simp add: container_envelope_def)

lemma container_envelope_container: "IsContainerMetric (ev_Message container_envelope)"
  by (simp add: container_envelope_def IsContainerMetric_iff container_keys_def gauge_key_ok_def)

text \<open>In the witness the app is not cached: the client answers with three instances, which the fifth package reports.\<close>

theorem AppParser_Parse_spec_witness:
  "\<exists>c' ps. AppParser_Parse zero_Config sample_parser (\<lambda>_. 7) newAppCache container_envelope = Ret (c', Inr ps) \<and>
     AppCache_Get c' ''g'' \<noteq> None \<and> length ps = 10 \<and> mk_Name (mp_Key (ps ! 4)) = ''app.instances'' \<and>
     mv_Points (mp_Value (ps ! 4)) = [\<lparr>pt_Timestamp = 7, pt_Value = f64_of_int 3\<rparr>]"
proof -
  have container: "IsContainerMetric (ev_Message container_envelope)" by (rule container_envelope_container)
  obtain c' r where p: "AppParser_Parse zero_Config sample_parser (\<lambda>_. 7) newAppCache container_envelope = Ret (c', r)"
    "parsed_app zero_Config sample_parser (\<lambda>_. 7) newAppCache container_envelope c' r"
    using AppParser_Parse_spec [of sample_parser newAppCache zero_Config "\<lambda>_. 7" container_envelope] newAppCache_ok container
    by (auto simp: sample_parser_def)
  have "AppCache_Get newAppCache h = None" for h by (simp add: AppCache_Get_def newAppCache_def)
  with p(2) sample_app_identified obtain a where a: "shows_app zero_Config a sample_app"
    "AppCache_Get c' (cf_GUID sample_app) \<noteq> None" "r = Inr (app_report (\<lambda>_. 7) a container_envelope [''env:x''])"
    by (auto simp: parsed_app_def Let_def sample_parser_def sample_source_def container_envelope_source)
  then have "app_NumberOfInstances a = 3" by (simp add: shows_app_def sample_app_def)
  with p(1) a(2,3) sample_app_GUID show ?thesis
    by (intro exI [of _ c'] exI [of _ "app_report (\<lambda>_. 7) a container_envelope [''env:x'']"])
      (simp add: app_report_def app_table_def row_package_def Let_def)
qed

end
