(* ===== verification/Processor.thy ===== *)
theory Processor
  imports App_Parser
begin

text \<open>
  \<^verbatim>\<open>internal/processor/processor.go\<close>: an envelope becomes the metric packages or the log
  message that are sent to the nozzle. The application cache is the global one: it is the state
  that the operations take and return. What is sent on a channel is returned.
\<close>

section \<open>Data\<close>

definition deploymentUUIDPattern :: "string \<Rightarrow> string" where
  "deploymentUUIDPattern = strip_uuids ''-''"

definition jobPartitionUUIDPattern :: "string \<Rightarrow> string" where
  "jobPartitionUUIDPattern = strip_uuids ''-partition-''"

definition enableLogsTagKey :: string where
  "enableLogsTagKey = ''dd_enable_logs''"

record Processor =
  prc_appMetrics :: "AppParser option"
  prc_customTags :: "string list"
  prc_environment :: string
  prc_deploymentUUIDRegex :: "string \<Rightarrow> string"
  prc_jobPartitionUUIDRegex :: "string \<Rightarrow> string"

text \<open>
  The app parser shares the global cache, so the processor's cache and the parser's are the
  same. The flag tells whether app metrics are parsed.
\<close>

definition NewProcessor ::
  "string list \<Rightarrow> string \<Rightarrow> bool \<Rightarrow> app_source option \<Rightarrow> app_source option \<Rightarrow> int \<Rightarrow> int \<Rightarrow> AppCache option
     \<Rightarrow> Processor \<times> AppCache \<times> bool" where
  "NewProcessor customTags environment parseAppMetricsEnable cfClient dcaClient numCacheWorkers grabInterval global =
     (let appCache = GetGlobalAppCache global;
          processor = \<lparr>prc_appMetrics = None, prc_customTags = customTags, prc_environment = environment,
            prc_deploymentUUIDRegex = deploymentUUIDPattern, prc_jobPartitionUUIDRegex = jobPartitionUUIDPattern\<rparr>
      in if parseAppMetricsEnable then
           (case NewAppParser cfClient dcaClient numCacheWorkers grabInterval customTags environment True
                   (Some appCache) of
              None \<Rightarrow> (processor, appCache, False)
            | Some (appMetrics, c) \<Rightarrow> (processor\<lparr>prc_appMetrics := Some appMetrics\<rparr>, c, True))
         else (processor, appCache, False))"

section \<open>Metrics\<close>

definition parseAppMetric ::
  "Config \<Rightarrow> Processor \<Rightarrow> (nat \<Rightarrow> int) \<Rightarrow> AppCache \<Rightarrow> Envelope
     \<Rightarrow> (AppCache \<times> (parse_error + MetricPackage list)) outcome" where
  "parseAppMetric cfg p now c envelope =
     (case prc_appMetrics p of
        None \<Rightarrow> Ret (c, Inl AppMetricsNotConfigured)
      | Some am \<Rightarrow>
          if \<not> IsContainerMetric (ev_Message envelope) then Ret (c, Inl NotAppMetric)
          else if \<not> IsWarmedUp c then Ret (c, Inl CacheNotReady)
          else AppParser_Parse cfg am now c envelope)"

text \<open>The packages sent to the nozzle, if any.\<close>

definition infra_parser :: "Processor \<Rightarrow> string list \<Rightarrow> InfraParser" where
  "infra_parser p tags =
     NewInfraParser (prc_environment p) (prc_deploymentUUIDRegex p) (prc_jobPartitionUUIDRegex p) tags"

definition ProcessMetric ::
  "Config \<Rightarrow> Processor \<Rightarrow> (nat \<Rightarrow> int) \<Rightarrow> AppCache \<Rightarrow> Envelope
     \<Rightarrow> (AppCache \<times> MetricPackage list option) outcome" where
  "ProcessMetric cfg p now c envelope =
     bind_outcome (ParseMetrics (infra_parser p (prc_customTags p)) envelope) (\<lambda>r.
       case r of
         Inr metricsPackages \<Rightarrow> Ret (c, Some metricsPackages)
       | Inl err \<Rightarrow>
           bind_outcome (parseAppMetric cfg p now c envelope) (\<lambda>(c', r').
             case r' of
               Inr metricsPackages \<Rightarrow> Ret (c', Some metricsPackages)
             | Inl err' \<Rightarrow> Ret (c', None)))"

section \<open>Logs\<close>

text \<open>The first tag that starts with the key decides.\<close>

fun logs_disabled :: "string list \<Rightarrow> bool" where
  "logs_disabled [] = False"
| "logs_disabled (t # ts) =
     (if has_prefix t enableLogsTagKey then contains t ''false'' else logs_disabled ts)"

text \<open>\<^verbatim>\<open>fields[1]\<close> of the first tag with \<^verbatim>\<open>ddsource\<close> in it: without a colon the index panics.\<close>

fun ddsource_tag :: "string list \<Rightarrow> string outcome" where
  "ddsource_tag [] = Ret []"
| "ddsource_tag (t # ts) =
     (if contains t ''ddsource'' then
        (let fields = split_char (CHR '':'') t
         in if length fields < 2 then Panic else Ret (fields ! 1))
      else ddsource_tag ts)"

definition cfBuildpackSourceMap :: "(string, string) gomap" where
  "cfBuildpackSourceMap =
     [(''go'', ''go''), (''python'', ''python''), (''ruby'', ''ruby''), (''dotnet'', ''dotnet''),
      (''java'', ''java''), (''php'', ''php''), (''nodejs'', ''nodejs''), (''r-buildpack'', ''R''),
      (''hwc'', ''dotnet''), (''nginx'', ''nginx'')]"

text \<open>For each build pack the map is visited in some order; the last match wins.\<close>

fun match_loop :: "string \<Rightarrow> (string, string) gomap \<Rightarrow> string \<Rightarrow> string" where
  "match_loop buildpack [] source = source"
| "match_loop buildpack ((discriminator, ddsource) # m) source =
     match_loop buildpack m (if contains buildpack discriminator then ddsource else source)"

fun buildpack_source ::
  "(nat \<Rightarrow> (string, string) gomap \<Rightarrow> (string, string) gomap) \<Rightarrow> nat \<Rightarrow> string list \<Rightarrow> string \<Rightarrow> string" where
  "buildpack_source rng i [] source = source"
| "buildpack_source rng i (buildpack # buildpacks) source =
     buildpack_source rng (i + 1) buildpacks
       (match_loop buildpack (range_order (rng i) cfBuildpackSourceMap) source)"

definition log_extra_tags :: "Envelope \<Rightarrow> string list" where
  "log_extra_tags envelope =
     [''application_id:'' @ gget_str (ev_Tags envelope) ''app_id'',
      ''application_name:'' @ gget_str (ev_Tags envelope) ''app_name'',
      ''instance_index:'' @ gget_str (ev_Tags envelope) ''instance_id'']"

definition app_log_tags :: "App \<Rightarrow> Envelope \<Rightarrow> string list" where
  "app_log_tags cfapp envelope = app_Tags cfapp @ log_extra_tags envelope"

text \<open>What is known of a log from the cached app: its extra tags, its service and its source.\<close>

definition app_log_info ::
  "(nat \<Rightarrow> (string, string) gomap \<Rightarrow> (string, string) gomap) \<Rightarrow> App option \<Rightarrow> Envelope
     \<Rightarrow> (string list \<times> string \<times> string) outcome" where
  "app_log_info rng cfapp envelope =
     (case cfapp of
        None \<Rightarrow> Ret ([], ev_SourceId envelope, [])
      | Some a \<Rightarrow>
          bind_outcome (ddsource_tag (app_Tags a)) (\<lambda>source.
            Ret (app_log_tags a envelope, app_Name a,
                 if source = [] then buildpack_source rng 0 (app_Buildpacks a) source else source)))"

definition ProcessLog ::
  "Config \<Rightarrow> Processor \<Rightarrow> (nat \<Rightarrow> (string, string) gomap \<Rightarrow> (string, string) gomap) \<Rightarrow> AppCache \<Rightarrow> Envelope
     \<Rightarrow> LogMessage option outcome" where
  "ProcessLog cfg p rng c envelope =
     (let cfapp = AppCache_Get c (ev_SourceId envelope)
      in if (case cfapp of None \<Rightarrow> False | Some a \<Rightarrow> logs_disabled (app_Tags a)) then Ret None
         else bind_outcome (app_log_info rng cfapp envelope) (\<lambda>(appTags, serviceName, source0).
           (case ParseLog cfg (infra_parser p (prc_customTags p @ appTags)) envelope of
              (logsMessage, err) \<Rightarrow>
                let source = (if source0 = [] then
                                (case gget (ev_Tags envelope) ''job'' of
                                   Some job \<Rightarrow> job | None \<Rightarrow> ''datadog-firehose-nozzle'')
                              else source0);
                    logsMessage' = logsMessage\<lparr>lm_Service := serviceName, lm_Source := source\<rparr>
                in Ret (case err of None \<Rightarrow> Some logsMessage' | Some _ \<Rightarrow> None))))"

text \<open>\<^verbatim>\<open>StopAppMetrics\<close> sends the stop message to the cache loop of the app parser, if there is one.\<close>

definition StopAppMetrics :: "Processor \<Rightarrow> cache_event list" where
  "StopAppMetrics p = (case prc_appMetrics p of None \<Rightarrow> [] | Some _ \<Rightarrow> [StopMessage])"

section \<open>Facts\<close>

lemma ddsource_tag_proper: "list_all proper_tag ts \<Longrightarrow> \<exists>source. ddsource_tag ts = Ret source"
proof (induction ts)
  case (Cons t ts)
  then have "CHR '':'' \<in> set t" by (simp add: proper_tag_colon)
  then have "0 < count_list t (CHR '':'')" by (metis count_list_0_iff gr0I)
  then have "2 \<le> length (split_char (CHR '':'') t)" by (simp add: length_split_char)
  with Cons show ?case by (simp add: Let_def)
qed simp

lemma app_log_info_Ret:
  assumes "cache_ok c"
  shows "\<exists>tags source. app_log_info rng (AppCache_Get c g) e =
    Ret (tags, case AppCache_Get c g of None \<Rightarrow> ev_SourceId e | Some a \<Rightarrow> app_Name a, source) \<and>
    tags = (case AppCache_Get c g of None \<Rightarrow> [] | Some a \<Rightarrow> app_log_tags a e)"
proof (cases "AppCache_Get c g")
  case (Some a)
  then have "list_all proper_tag (app_Tags a)" using cache.get_ok [OF assms Some] by (simp add: app_ok_def)
  from ddsource_tag_proper [OF this] Some show ?thesis by (auto simp: app_log_info_def)
qed (simp add: app_log_info_def)

text \<open>A log envelope is parsed into its payload and the tags of the envelope, the parser and the settings.\<close>

lemma ParseLog_log:
  "ev_Message e = Envelope_Log payload \<Longrightarrow>
   \<exists>l. ParseLog cfg p e = (l, None) \<and> lm_Message l = payload \<and>
     (\<exists>more. lm_Tags l = join '','' (parseTags e (ip_Environment p) (ip_DeploymentUUIDRegex p)
        (ip_JobPartitionUUIDRegex p) @ ip_CustomTags p @ more))"
  by (auto simp: ParseLog_def Let_def intro: exI [of _ "[]"])

lemma ParseLog_other: "\<forall>payload. ev_Message e \<noteq> Envelope_Log payload \<Longrightarrow> ParseLog cfg p e = (empty_LogMessage, Some NotLogEnvelope)"
  by (cases "ev_Message e") (simp_all add: ParseLog_def)

text \<open>The source found by build pack: the value of a discriminator that matches.\<close>

definition matching_sources :: "string list \<Rightarrow> string set" where
  "matching_sources bps = {s. \<exists>d. (d, s) \<in> set cfBuildpackSourceMap \<and> (\<exists>bp\<in>set bps. contains bp d)}"

lemma match_loop_source:
  "match_loop bp m s = s \<and> (\<forall>(d, v)\<in>set m. \<not> contains bp d) \<or>
   (\<exists>(d, v)\<in>set m. contains bp d \<and> match_loop bp m s = v)"
proof (induction m arbitrary: s)
  case (Cons e m)
  obtain d v where "e = (d, v)" by fastforce
  with Cons.IH [of "if contains bp d then v else s"] show ?case by (auto split: if_splits)
qed simp

lemma buildpack_source_cases:
  "buildpack_source rng i bps s = s \<and> matching_sources bps = {} \<or> buildpack_source rng i bps s \<in> matching_sources bps"
proof (induction bps arbitrary: i s)
  case Nil
  then show ?case by (simp add: matching_sources_def)
next
  case (Cons bp bps)
  have split: "matching_sources (bp # bps) = matching_sources [bp] \<union> matching_sources bps"
    by (auto simp: matching_sources_def)
  let ?s = "match_loop bp (range_order (rng i) cfBuildpackSourceMap) s"
  have "?s = s \<and> matching_sources [bp] = {} \<or> ?s \<in> matching_sources [bp]"
    using match_loop_source [of bp "range_order (rng i) cfBuildpackSourceMap" s]
    by (fastforce simp: matching_sources_def)
  with Cons.IH [of "i + 1" ?s] show ?case by (auto simp: split)
qed

definition has_source :: "Processor \<Rightarrow> bool" where
  "has_source p \<longleftrightarrow>
     (case prc_appMetrics p of None \<Rightarrow> True | Some am \<Rightarrow> am_cfClient am \<noteq> None \<or> am_dcaClient am \<noteq> None)"

text \<open>When an envelope is handed to the app parser.\<close>

definition app_metric_ready :: "Processor \<Rightarrow> AppCache \<Rightarrow> Envelope \<Rightarrow> bool" where
  "app_metric_ready p c e \<longleftrightarrow> IsContainerMetric (ev_Message e) \<and> prc_appMetrics p \<noteq> None \<and> IsWarmedUp c"

lemma parseAppMetric_ok:
  assumes "cache_ok c" and "has_source p"
  shows "\<exists>c' r. parseAppMetric cfg p now c e = Ret (c', r) \<and> cache_ok c' \<and>
    (if app_metric_ready p c e then \<exists>am. prc_appMetrics p = Some am \<and> parsed_app cfg am now c e c' r
     else c' = c \<and> (\<exists>err. r = Inl err))"
proof (cases "app_metric_ready p c e")
  case True
  then obtain am where am: "prc_appMetrics p = Some am" by (auto simp: app_metric_ready_def)
  with assms(2) have "am_cfClient am \<noteq> None \<or> am_dcaClient am \<noteq> None" by (simp add: has_source_def)
  from AppParser_Parse_total [OF this assms(1), of cfg now e] True am show ?thesis
    by (elim exE conjE) (auto simp: parseAppMetric_def app_metric_ready_def split: sum.splits)
next
  case False
  then show ?thesis using assms(1) by (auto simp: parseAppMetric_def app_metric_ready_def split: option.split)
qed

text \<open>The two ways of processing a metric.\<close>

lemma ProcessMetric_infra:
  "infra_metric (ev_Message e) \<Longrightarrow> \<not> has_nil_value (ev_Message e) \<Longrightarrow>
   \<exists>ps. ProcessMetric cfg p now c e = Ret (c, Some ps) \<and> ParseMetrics (infra_parser p (prc_customTags p)) e = Ret (Inr ps)"
  using ParseMetrics_total [of e "infra_parser p (prc_customTags p)"] by (auto simp: ProcessMetric_def)

lemma ProcessMetric_app:
  "\<not> infra_metric (ev_Message e) \<Longrightarrow>
   ProcessMetric cfg p now c e =
     bind_outcome (parseAppMetric cfg p now c e)
       (\<lambda>(c', r). Ret (c', case r of Inr ps \<Rightarrow> Some ps | Inl _ \<Rightarrow> None))"
  by (auto simp: ProcessMetric_def ParseMetrics_unfold split: sum.split intro!: arg_cong2 [where f = bind_outcome])

lemma ProcessMetric_ok:
  assumes "cache_ok c" and "has_source p" and "\<not> has_nil_value (ev_Message e)"
  shows "\<exists>c' r. ProcessMetric cfg p now c e = Ret (c', r) \<and> cache_ok c'"
proof (cases "infra_metric (ev_Message e)")
  case True
  with ProcessMetric_infra [OF True assms(3)] assms(1) show ?thesis by blast
next
  case False
  with parseAppMetric_ok [OF assms(1,2), of cfg now e] ProcessMetric_app [OF False, of cfg p now c] show ?thesis by auto
qed

lemma ProcessMetric_keeps_cache:
  assumes "cache_ok c" and "has_source p" and "ProcessMetric cfg p now c e = Ret (c', r)"
  shows "cache_ok c'"
proof (cases "infra_metric (ev_Message e)")
  case True
  with assms(1,3) show ?thesis by (auto simp: ProcessMetric_def ParseMetrics_unfold bind_outcome_Ret_iff split: if_splits)
next
  case False
  with assms(3) parseAppMetric_ok [OF assms(1,2), of cfg now e] ProcessMetric_app [OF False, of cfg p now c]
  show ?thesis by auto
qed

lemma ProcessLog_ok: "cache_ok c \<Longrightarrow> ProcessLog cfg p rng c e \<noteq> Panic"
  using app_log_info_Ret [of c rng "ev_SourceId e" e]
  by (auto simp: ProcessLog_def Let_def split: option.splits prod.splits)

section \<open>What is known of a log\<close>

text \<open>What follows the first colon of a tag, up to the next one; the source that the tags of an app name.\<close>

definition tag_value :: "string \<Rightarrow> string" where
  "tag_value t = takeWhile (\<lambda>x. x \<noteq> CHR '':'') (tl (dropWhile (\<lambda>x. x \<noteq> CHR '':'') t))"

definition tagged_source :: "string list \<Rightarrow> string" where
  "tagged_source ts = (case filter (\<lambda>t. contains t ''ddsource'') ts of [] \<Rightarrow> [] | t # _ \<Rightarrow> tag_value t)"

lemma hd_split_char: "hd (split_char c s) = takeWhile (\<lambda>x. x \<noteq> c) s"
  by (induction s) (auto split: list.split)

lemma split_char_second: "CHR '':'' \<in> set t \<Longrightarrow> split_char (CHR '':'') t ! 1 = tag_value t"
proof -
  assume "CHR '':'' \<in> set t"
  then obtain a b where t: "t = a @ CHR '':'' # b" "CHR '':'' \<notin> set a" by (metis split_list_first)
  then have "dropWhile (\<lambda>x. x \<noteq> CHR '':'') t = CHR '':'' # b" by (subst t(1), subst dropWhile_append2) auto
  moreover have "split_char (CHR '':'') b ! 0 = takeWhile (\<lambda>x. x \<noteq> CHR '':'') b"
    by (subst hd_conv_nth [symmetric]) (simp_all add: hd_split_char)
  ultimately show ?thesis using t by (simp add: tag_value_def split_char_append)
qed

lemma ddsource_tag_eq: "list_all proper_tag ts \<Longrightarrow> ddsource_tag ts = Ret (tagged_source ts)"
proof (induction ts)
  case (Cons t ts)
  then have c: "CHR '':'' \<in> set t" by (simp add: proper_tag_colon)
  then have "0 < count_list t (CHR '':'')" by (metis count_list_0_iff gr0I)
  then have "2 \<le> length (split_char (CHR '':'') t)" by (simp add: length_split_char)
  with Cons split_char_second [OF c] show ?case by (simp add: tagged_source_def Let_def)
qed (simp add: tagged_source_def)

text \<open>The build packs that match, and the source of the last of them.\<close>

definition known_buildpacks :: "string list \<Rightarrow> string list" where
  "known_buildpacks bps = filter (\<lambda>bp. \<exists>(d, s)\<in>set cfBuildpackSourceMap. contains bp d) bps"

lemma match_loop_none: "\<forall>(d, v)\<in>set m. \<not> contains bp d \<Longrightarrow> match_loop bp m s = s"
  by (induction m arbitrary: s) auto

lemma buildpack_source_last:
  "if known_buildpacks bps = [] then buildpack_source rng i bps s = s
   else \<exists>(d, v)\<in>set cfBuildpackSourceMap. contains (last (known_buildpacks bps)) d \<and> buildpack_source rng i bps s = v"
proof (induction bps arbitrary: i s)
  case (Cons bp bps)
  let ?m = "range_order (rng i) cfBuildpackSourceMap"
  show ?case
  proof (cases "\<exists>(d, v)\<in>set cfBuildpackSourceMap. contains bp d")
    case True
    then have k: "known_buildpacks (bp # bps) = bp # known_buildpacks bps" by (simp add: known_buildpacks_def)
    have m: "\<exists>(d, v)\<in>set cfBuildpackSourceMap. contains bp d \<and> match_loop bp ?m s = v"
      using match_loop_source [of bp ?m s] True by (simp add: Bex_def) blast
    from Cons.IH [of "i + 1" "match_loop bp ?m s"] m show ?thesis
      by (cases "known_buildpacks bps = []") (simp_all add: k)
  next
    case False
    then have "known_buildpacks (bp # bps) = known_buildpacks bps" "match_loop bp ?m s = s"
      by (auto simp: known_buildpacks_def intro!: match_loop_none)
    with Cons.IH [of "Suc i" s] show ?thesis by simp
  qed
qed (simp add: known_buildpacks_def)

text \<open>
  What the source of a log is: of its app's tags, else of the app's last build pack that is known, else of
  its job.
\<close>

definition log_source :: "App option \<Rightarrow> Envelope \<Rightarrow> string \<Rightarrow> bool" where
  "log_source app e s \<longleftrightarrow>
     (let job = (case gget (ev_Tags e) ''job'' of Some job \<Rightarrow> job | None \<Rightarrow> ''datadog-firehose-nozzle'')
      in case app of
           None \<Rightarrow> s = job
         | Some a \<Rightarrow>
             if tagged_source (app_Tags a) \<noteq> [] then s = tagged_source (app_Tags a)
             else if known_buildpacks (app_Buildpacks a) = [] then s = job
             else \<exists>(d, v)\<in>set cfBuildpackSourceMap. contains (last (known_buildpacks (app_Buildpacks a))) d \<and> s = v)"

text \<open>The tags of a log: of its envelope, the nozzle's, those of its app with three more, and the BOSH tags.\<close>

definition log_tags :: "Config \<Rightarrow> Processor \<Rightarrow> App option \<Rightarrow> Envelope \<Rightarrow> string list" where
  "log_tags cfg p app e =
     parseTags e (prc_environment p) (prc_deploymentUUIDRegex p) (prc_jobPartitionUUIDRegex p) @ prc_customTags p
     @ (case app of
          None \<Rightarrow> []
        | Some a \<Rightarrow> app_Tags a @
            [''application_id:'' @ gget_str (ev_Tags e) ''app_id'', ''application_name:'' @ gget_str (ev_Tags e) ''app_name'',
             ''instance_index:'' @ gget_str (ev_Tags e) ''instance_id''])
     @ (if bt_Enabled (cfg_BoshTagsConfig cfg)
        then GenerateBoshTags (cfg_BoshTagsConfig cfg) (ExtractMetadataFromEnvelope e) else [])"

lemma log_tags_eq:
  "log_tags cfg p app e =
     parseTags e (prc_environment p) (prc_deploymentUUIDRegex p) (prc_jobPartitionUUIDRegex p) @ prc_customTags p
     @ (case app of None \<Rightarrow> [] | Some a \<Rightarrow> app_log_tags a e)
     @ (if bt_Enabled (cfg_BoshTagsConfig cfg)
        then GenerateBoshTags (cfg_BoshTagsConfig cfg) (ExtractMetadataFromEnvelope e) else [])"
  unfolding log_tags_def app_log_tags_def log_extra_tags_def by (rule refl)

text \<open>Logs are switched off by the first tag that starts with the key, if \<^verbatim>\<open>false\<close> is in it.\<close>

definition switches_logs_off :: "string list \<Rightarrow> bool" where
  "switches_logs_off ts = (case filter (\<lambda>t. has_prefix t ''dd_enable_logs'') ts of [] \<Rightarrow> False | t # _ \<Rightarrow> contains t ''false'')"

lemma logs_disabled_eq: "logs_disabled ts = switches_logs_off ts"
  by (induction ts) (simp_all add: switches_logs_off_def enableLogsTagKey_def)

lemma sources_nonempty: "(d, v) \<in> set cfBuildpackSourceMap \<Longrightarrow> v \<noteq> []"
  by (auto simp: cfBuildpackSourceMap_def)

lemma app_log_info_eq:
  assumes "cache_ok c"
  shows "\<exists>source. app_log_info rng (AppCache_Get c g) e =
      Ret (case AppCache_Get c g of None \<Rightarrow> [] | Some a \<Rightarrow> app_log_tags a e,
           case AppCache_Get c g of None \<Rightarrow> ev_SourceId e | Some a \<Rightarrow> app_Name a, source) \<and>
    log_source (AppCache_Get c g) e (if source = [] then
        (case gget (ev_Tags e) ''job'' of Some job \<Rightarrow> job | None \<Rightarrow> ''datadog-firehose-nozzle'') else source)"
proof (cases "AppCache_Get c g")
  case (Some a)
  then have "list_all proper_tag (app_Tags a)" using cache.get_ok [OF assms Some] by (simp add: app_ok_def)
  note tagged = ddsource_tag_eq [OF this]
  show ?thesis
  proof (cases "tagged_source (app_Tags a) = []")
    case True
    then show ?thesis
      using Some tagged buildpack_source_last [of "app_Buildpacks a" rng 0 "[]"] sources_nonempty
      by (auto simp: app_log_info_def log_source_def Let_def split: if_splits)
  qed (simp add: Some app_log_info_def tagged log_source_def)
qed (simp add: app_log_info_def log_source_def)

section \<open>The component's properties\<close>

text \<open>
  C14: An envelope is an infrastructure metric or an application metric, never both. With the cache's
  invariant, a client if app metrics are configured, and no nil gauge entry, processing does not panic and keeps
  the invariant. Counters and gauges that are no container metrics are sent as infrastructure metrics and
  leave the cache alone. Container metrics, once app metrics are configured and the cache is warmed up, are
  parsed as \<open>parsed_app\<close> says: what it reports of the app is sent, and nothing if the app cannot be
  had. For any other envelope nothing is sent and the cache is left alone.
\<close>

theorem ProcessMetric_spec:
  assumes "cache_ok c" and "has_source p" and "\<not> has_nil_value (ev_Message e)"
  shows "\<exists>c' r. ProcessMetric cfg p now c e = Ret (c', r) \<and> cache_ok c' \<and>
    (if infra_metric (ev_Message e) then
       c' = c \<and> (\<exists>ps. r = Some ps \<and> ParseMetrics (infra_parser p (prc_customTags p)) e = Ret (Inr ps))
     else if IsContainerMetric (ev_Message e) \<and> prc_appMetrics p \<noteq> None \<and> IsWarmedUp c then
       \<exists>am parsed. prc_appMetrics p = Some am \<and> parsed_app cfg am now c e c' parsed \<and>
         r = (case parsed of Inl _ \<Rightarrow> None | Inr ps \<Rightarrow> Some ps)
     else c' = c \<and> r = None)"
proof (cases "infra_metric (ev_Message e)")
  case True
  with ProcessMetric_infra [OF True assms(3), of cfg p now c] assms(1) show ?thesis by auto
next
  case False
  obtain c' r where r: "parseAppMetric cfg p now c e = Ret (c', r)" "cache_ok c'"
    "if app_metric_ready p c e then \<exists>am. prc_appMetrics p = Some am \<and> parsed_app cfg am now c e c' r
     else c' = c \<and> (\<exists>err. r = Inl err)"
    using parseAppMetric_ok [OF assms(1,2), of cfg now e] by blast
  with False ProcessMetric_app [OF False, of cfg p now c] show ?thesis
    by (cases "app_metric_ready p c e") (auto simp: app_metric_ready_def)
qed

definition sample_processor :: Processor where
  "sample_processor = \<lparr>prc_appMetrics = Some sample_parser, prc_customTags = [''env:x''], prc_environment = [],
     prc_deploymentUUIDRegex = deploymentUUIDPattern, prc_jobPartitionUUIDRegex = jobPartitionUUIDPattern\<rparr>"

text \<open>In the witness a container metric of an app that is not cached is sent as ten packages.\<close>

theorem ProcessMetric_spec_witness:
  "\<exists>c' ps. ProcessMetric zero_Config sample_processor (\<lambda>_. 7) (SetWarmedUp newAppCache) container_envelope = Ret (c', Some ps) \<and>
     length ps = 10"
proof -
  let ?c = "SetWarmedUp newAppCache"
  have ok: "cache_ok ?c" and get: "AppCache_Get ?c h = None" and warm: "IsWarmedUp ?c" for h
    by (simp_all add: cache_ok_def newAppCache_def SetWarmedUp_def AppCache_Get_def IsWarmedUp_def)
  have "has_source sample_processor" "\<not> has_nil_value (ev_Message container_envelope)"
    "\<not> infra_metric (ev_Message container_envelope)" "prc_appMetrics sample_processor = Some sample_parser"
    using container_envelope_container
    by (auto simp: has_source_def sample_processor_def sample_parser_def has_nil_value_def infra_metric_def container_envelope_def)
  with ProcessMetric_spec [OF ok, of sample_processor container_envelope zero_Config "\<lambda>_. 7"] warm container_envelope_container
  obtain c' parsed where p: "ProcessMetric zero_Config sample_processor (\<lambda>_. 7) ?c container_envelope =
      Ret (c', case parsed of Inl _ \<Rightarrow> None | Inr ps \<Rightarrow> Some ps)"
    "parsed_app zero_Config sample_parser (\<lambda>_. 7) ?c container_envelope c' parsed" by auto
  from p(2) sample_app_identified get obtain a where "parsed = Inr (app_report (\<lambda>_. 7) a container_envelope [''env:x''])"
    by (auto simp: parsed_app_def Let_def sample_parser_def sample_source_def container_envelope_source)
  with p(1) show ?thesis by (simp add: app_report_def app_table_def Let_def)
qed

text \<open>
  C15: Processing a log, with the cache's invariant: it never panics (every tag of a cached app has a colon,
  so that the value after \<^verbatim>\<open>ddsource\<close> can be read). Nothing is sent of an envelope that is no log, or
  whose app switches logs off: the first of its tags that starts with \<^verbatim>\<open>dd_enable_logs\<close> has \<^verbatim>\<open>false\<close> in it.
  Otherwise one message is sent. It has the payload; the service is the name of the cached app, or the
  source id without one; the source is the value of the first tag with \<^verbatim>\<open>ddsource\<close> in it, else that of a
  discriminator in the last build pack that is known, else the job, else a fixed name; the tags are those of
  the envelope, of the nozzle, of the app with three more, and the BOSH tags; the host is that of the
  envelope or the one made of its BOSH metadata.
\<close>

theorem ProcessLog_spec:
  assumes "cache_ok c"
  shows "\<exists>r. ProcessLog cfg p rng c e = Ret r \<and>
    (let app = AppCache_Get c (ev_SourceId e) in
     case ev_Message e of
       Envelope_Log payload \<Rightarrow>
         if \<exists>a. app = Some a \<and> switches_logs_off (app_Tags a) then r = None
         else \<exists>source. log_source app e source \<and>
           r = Some \<lparr>lm_Source = source, lm_Tags = join '','' (log_tags cfg p app e),
             lm_Hostname = (if bt_Enabled (cfg_BoshTagsConfig cfg)
               then GenerateHostname (cfg_BoshTagsConfig cfg) (ExtractMetadataFromEnvelope e) else parseHost e),
             lm_Message = payload,
             lm_Service = (case app of None \<Rightarrow> ev_SourceId e | Some a \<Rightarrow> app_Name a)\<rparr>
     | _ \<Rightarrow> r = None)"
proof -
  let ?app = "AppCache_Get c (ev_SourceId e)"
  obtain source where info: "app_log_info rng ?app e =
      Ret (case ?app of None \<Rightarrow> [] | Some a \<Rightarrow> app_log_tags a e,
           case ?app of None \<Rightarrow> ev_SourceId e | Some a \<Rightarrow> app_Name a, source)"
    and src: "log_source ?app e (if source = [] then
        (case gget (ev_Tags e) ''job'' of Some job \<Rightarrow> job | None \<Rightarrow> ''datadog-firehose-nozzle'') else source)"
    using app_log_info_eq [OF assms, of rng "ev_SourceId e" e] by blast
  show ?thesis
  proof (cases "\<exists>payload. ev_Message e = Envelope_Log payload")
    case True
    then obtain payload where m: "ev_Message e = Envelope_Log payload" by blast
    show ?thesis
      using src info
      by (cases ?app) (auto simp add: ProcessLog_def Let_def m ParseLog_def log_tags_eq infra_parser_def
          NewInfraParser_def empty_LogMessage_def logs_disabled_eq)
  next
    case False
    then have "ParseLog cfg q e = (empty_LogMessage, Some NotLogEnvelope)" for q by (intro ParseLog_other) blast
    then show ?thesis
      using False by (cases "ev_Message e") (auto simp: ProcessLog_def Let_def info split: option.split prod.split)
  qed
qed

text \<open>In the witness the cached app names its source in a tag, and has a build pack too.\<close>

definition tagged_app :: App where
  "tagged_app = (newApp ''g'')\<lparr>app_Name := ''n'', app_Buildpacks := [''java''], app_Tags := [''guid:g'', ''ddsource:x:y'']\<rparr>"

definition tagged_cache :: AppCache where
  "tagged_cache = newAppCache\<lparr>ac_apps := [(''g'', tagged_app)]\<rparr>"

theorem ProcessLog_spec_witness:
  "\<exists>l. ProcessLog zero_Config sample_processor (\<lambda>_. rev) tagged_cache
       (container_envelope\<lparr>ev_Message := Envelope_Log ''hi''\<rparr>) = Ret (Some l) \<and>
     lm_Message l = ''hi'' \<and> lm_Service l = ''n'' \<and> lm_Source l = ''x''"
proof -
  let ?e = "container_envelope\<lparr>ev_Message := Envelope_Log ''hi''\<rparr>"
  have get: "AppCache_Get tagged_cache g = (if g = ''g'' then Some tagged_app else None)" for g
    by (simp add: AppCache_Get_def tagged_cache_def)
  have "proper_tag ''guid:g''" "proper_tag ''ddsource:x:y''"
    unfolding proper_tag_def by (intro exI [of _ "''guid''"] exI [of _ "''g''"], simp add: tag_def)
      (intro exI [of _ "''ddsource''"] exI [of _ "''x:y''"], simp add: tag_def)
  then have ok: "cache_ok tagged_cache"
    by (auto simp: cache_ok_def tagged_cache_def tagged_app_def newApp_def app_ok_def wf_gomap_def tag_def split: if_splits)
  have "ev_SourceId ?e = ''g''" "ev_Message ?e = Envelope_Log ''hi''" by (simp_all add: container_envelope_def)
  moreover have "\<not> switches_logs_off (app_Tags tagged_app)" "tagged_source (app_Tags tagged_app) = ''x''" "app_Name tagged_app = ''n''"
    by (simp_all add: switches_logs_off_def tagged_source_def tag_value_def tagged_app_def has_prefix_def)
  ultimately show ?thesis
    using ProcessLog_spec [OF ok, of zero_Config sample_processor "\<lambda>_. rev" ?e]
    by (auto simp: get log_source_def)
qed

text \<open>
  The source found by build pack is the source of a discriminator that one of the build packs
  contains, or there is none if no build pack contains one. It depends on the order in which the
  table is visited when a build pack contains two: the loop visits a map.
\<close>

lemma buildpack_source_unordered:
  "(buildpack_source rng 0 bps [] \<in> matching_sources bps \<or>
      matching_sources bps = {} \<and> buildpack_source rng 0 bps [] = []) \<and>
   buildpack_source (\<lambda>_ m. m) 0 [''django_python''] [] = ''python'' \<and>
   buildpack_source (\<lambda>_ m. rev m) 0 [''django_python''] [] = ''go''"
  using buildpack_source_cases [of rng 0 bps "[]"]
  by (auto simp: range_order_def cfBuildpackSourceMap_def has_prefix_def)

end
