(* ===== verification/Nozzle.thy ===== *)
theory Nozzle
  imports DD_Client Processor
begin

text \<open>
  \<^verbatim>\<open>internal/nozzle/nozzle.go\<close> and \<^verbatim>\<open>workers.go\<close>: the nozzle's state, what it posts at each
  flush, and the goroutines that share the state: the consumer of the firehose, the workers, the
  readers of the processed metrics and logs, the refresh of the app cache, the organization
  collector and the main loop. The goroutines are a step relation: each rule is one of them between
  two synchronizations (a channel operation or the map's lock).
\<close>

section \<open>State\<close>

record Nozzle =
  nz_messages :: "Envelope list"
  nz_processedMetrics :: "MetricPackage list list"
  nz_processedLogs :: "LogMessage list"
  nz_metricsMap :: MetricsMap
  nz_logsBuffer :: "LogMessage list"
  nz_totalMessagesReceived :: uint64
  nz_slowConsumerAlert :: uint64
  nz_totalMetricsSent :: uint64
  nz_metricsSent :: uint64
  nz_metricsDropped :: uint64
  nz_totalLogsSent :: uint64
  nz_logsSent :: uint64
  nz_logsDropped :: uint64
  nz_tickedOnce :: bool
  nz_firstTick :: bool

text \<open>The channels are the queues of their contents; \<open>nz_tickedOnce\<close> tells whether it is closed.\<close>

definition NewNozzle :: Nozzle where
  "NewNozzle = \<lparr>nz_messages = [], nz_processedMetrics = [], nz_processedLogs = [], nz_metricsMap = [],
     nz_logsBuffer = [], nz_totalMessagesReceived = 0, nz_slowConsumerAlert = 0, nz_totalMetricsSent = 0,
     nz_metricsSent = 0, nz_metricsDropped = 0, nz_totalLogsSent = 0, nz_logsSent = 0, nz_logsDropped = 0,
     nz_tickedOnce = False, nz_firstTick = True\<rparr>"

definition messages_cap :: nat where "messages_cap = 10000"
definition processed_cap :: nat where "processed_cap = 1000"

section \<open>Messages\<close>

definition keepMessage :: "Config \<Rightarrow> Envelope \<Rightarrow> bool" where
  "keepMessage cfg envelope \<longleftrightarrow>
     cfg_DeploymentFilter cfg = [] \<or> cfg_DeploymentFilter cfg = gget_str (ev_Tags envelope) ''deployment''"

definition ResetSlowConsumerError :: "Nozzle \<Rightarrow> Nozzle" where
  "ResetSlowConsumerError n = n\<lparr>nz_slowConsumerAlert := 0\<rparr>"

definition AlertSlowConsumerError :: "Nozzle \<Rightarrow> Nozzle" where
  "AlertSlowConsumerError n = n\<lparr>nz_slowConsumerAlert := 1\<rparr>"

definition handleMessage :: "Nozzle \<Rightarrow> Envelope \<Rightarrow> Nozzle" where
  "handleMessage n envelope =
     (case ev_Message envelope of
        Envelope_Counter ct \<Rightarrow>
          if ct_Name ct = ''dropped'' then
            if gget (ev_Tags envelope) ''origin'' = Some ''loggregator.rlp'' \<and>
               gget (ev_Tags envelope) ''direction'' = Some ''egress'' \<and> 0 < ct_Delta ct
            then AlertSlowConsumerError n else n
          else n
      | _ \<Rightarrow> n)"

section \<open>Flushing\<close>

text \<open>
  Posting the logs to every account: \<open>post i\<close> is the post to the \<open>i\<close>-th client. \<open>log_account\<close> is one turn
  of the loop, \<open>add_logs_sent\<close> the update of the total after it.
\<close>

definition log_account ::
  "(nat \<Rightarrow> Client \<Rightarrow> LogMessage list \<Rightarrow> uint64 outcome) \<Rightarrow> nat \<Rightarrow> Client \<Rightarrow> LogMessage list \<Rightarrow> Nozzle \<Rightarrow> Nozzle outcome" where
  "log_account post i client buffer n =
     bind_outcome (post i client buffer) (\<lambda>unsentLogs.
       Ret (n\<lparr>nz_logsSent := nz_logsSent n + (of_nat (length buffer) - unsentLogs),
              nz_logsDropped := nz_logsDropped n + unsentLogs\<rparr>))"

fun logs_clients ::
  "(nat \<Rightarrow> Client \<Rightarrow> LogMessage list \<Rightarrow> uint64 outcome) \<Rightarrow> nat \<Rightarrow> Client list \<Rightarrow> LogMessage list \<Rightarrow> Nozzle
     \<Rightarrow> Nozzle outcome" where
  "logs_clients post i [] buffer n = Ret n"
| "logs_clients post i (client # clients) buffer n =
     bind_outcome (log_account post i client buffer n) (logs_clients post (i + 1) clients buffer)"

definition add_logs_sent :: "Nozzle \<Rightarrow> Nozzle" where
  "add_logs_sent n = n\<lparr>nz_totalLogsSent := nz_totalLogsSent n + nz_logsSent n\<rparr>"

definition take_logs :: "Nozzle \<Rightarrow> LogMessage list \<times> Nozzle" where
  "take_logs n = (nz_logsBuffer n, n\<lparr>nz_logsBuffer := []\<rparr>)"

definition postLogs_clients ::
  "(nat \<Rightarrow> Client \<Rightarrow> LogMessage list \<Rightarrow> uint64 outcome) \<Rightarrow> Client list \<Rightarrow> LogMessage list \<Rightarrow> Nozzle \<Rightarrow> Nozzle outcome" where
  "postLogs_clients post clients buffer n =
     bind_outcome (logs_clients post 0 clients buffer n) (\<lambda>n'. Ret (add_logs_sent n'))"

definition put_internal :: "Client \<Rightarrow> int \<Rightarrow> string \<Rightarrow> string \<Rightarrow> uint64 \<Rightarrow> MetricsMap \<Rightarrow> MetricsMap" where
  "put_internal client timestamp name type value m =
     (case MakeInternalMetric client name type value timestamp of (k, v) \<Rightarrow> gput k v m)"

text \<open>
  The internal metrics of one client. The counts since the last report are reset once they are
  reported: the metrics' when some metric was ever sent, the logs' likewise.
\<close>

definition internal_gauges :: "Client \<Rightarrow> int \<Rightarrow> uint64 \<Rightarrow> Nozzle \<Rightarrow> MetricsMap \<Rightarrow> MetricsMap" where
  "internal_gauges client timestamp totalMessagesReceived n m =
     put_internal client timestamp ''slowConsumerAlert'' GAUGE (nz_slowConsumerAlert n)
       (put_internal client timestamp ''totalLogsSent'' GAUGE (nz_totalLogsSent n)
         (put_internal client timestamp ''totalMetricsSent'' GAUGE (nz_totalMetricsSent n)
           (put_internal client timestamp ''totalMessagesReceived'' GAUGE totalMessagesReceived m)))"

definition internal_metric_counts :: "Client \<Rightarrow> int \<Rightarrow> MetricsMap \<times> Nozzle \<Rightarrow> MetricsMap \<times> Nozzle" where
  "internal_metric_counts client timestamp mn =
     (case mn of (m, n) \<Rightarrow>
        if 0 < nz_totalMetricsSent n then
          (put_internal client timestamp ''metrics.dropped'' COUNT (nz_metricsDropped n)
             (put_internal client timestamp ''metrics.sent'' COUNT (nz_metricsSent n) m),
           n\<lparr>nz_metricsSent := 0, nz_metricsDropped := 0\<rparr>)
        else (m, n))"

definition internal_log_counts :: "Client \<Rightarrow> int \<Rightarrow> MetricsMap \<times> Nozzle \<Rightarrow> MetricsMap \<times> Nozzle" where
  "internal_log_counts client timestamp mn =
     (case mn of (m, n) \<Rightarrow>
        if 0 < nz_totalLogsSent n then
          (put_internal client timestamp ''logs.dropped'' COUNT (nz_logsDropped n)
             (put_internal client timestamp ''logs.sent'' COUNT (nz_logsSent n) m),
           n\<lparr>nz_logsSent := 0, nz_logsDropped := 0\<rparr>)
        else (m, n))"

definition internal_metrics ::
  "Client \<Rightarrow> int \<Rightarrow> uint64 \<Rightarrow> MetricsMap \<times> Nozzle \<Rightarrow> MetricsMap \<times> Nozzle" where
  "internal_metrics client timestamp totalMessagesReceived mn =
     internal_log_counts client timestamp (internal_metric_counts client timestamp
       (internal_gauges client timestamp totalMessagesReceived (snd mn) (fst mn), snd mn))"

text \<open>One turn of the loop over the accounts, the loop, and the update of the total after it.\<close>

definition post_account ::
  "(nat \<Rightarrow> Client \<Rightarrow> MetricsMap \<Rightarrow> uint64 outcome) \<Rightarrow> int \<Rightarrow> uint64 \<Rightarrow> nat \<Rightarrow> Client \<Rightarrow> MetricsMap \<times> Nozzle
     \<Rightarrow> (MetricsMap \<times> Nozzle) outcome" where
  "post_account post timestamp totalMessagesReceived i client mn =
     (case internal_metrics client timestamp totalMessagesReceived mn of (m, n) \<Rightarrow>
        bind_outcome (post i client m) (\<lambda>unsentMetrics.
          Ret (m, n\<lparr>nz_metricsSent := nz_metricsSent n + (of_nat (length m) - unsentMetrics),
                    nz_metricsDropped := nz_metricsDropped n + unsentMetrics\<rparr>)))"

fun metrics_clients ::
  "(nat \<Rightarrow> Client \<Rightarrow> MetricsMap \<Rightarrow> uint64 outcome) \<Rightarrow> int \<Rightarrow> uint64 \<Rightarrow> nat \<Rightarrow> Client list \<Rightarrow> MetricsMap \<times> Nozzle
     \<Rightarrow> Nozzle outcome" where
  "metrics_clients post timestamp totalMessagesReceived i [] mn = Ret (snd mn)"
| "metrics_clients post timestamp totalMessagesReceived i (client # clients) mn =
     bind_outcome (post_account post timestamp totalMessagesReceived i client mn)
       (metrics_clients post timestamp totalMessagesReceived (i + 1) clients)"

definition add_metrics_sent :: "Nozzle \<Rightarrow> Nozzle" where
  "add_metrics_sent n = n\<lparr>nz_totalMetricsSent := nz_totalMetricsSent n + nz_metricsSent n\<rparr>"

definition take_metrics :: "Nozzle \<Rightarrow> MetricsMap \<times> Nozzle" where
  "take_metrics n = (nz_metricsMap n, n\<lparr>nz_metricsMap := []\<rparr>)"

definition postMetrics_clients ::
  "(nat \<Rightarrow> Client \<Rightarrow> MetricsMap \<Rightarrow> uint64 outcome) \<Rightarrow> int \<Rightarrow> Client list \<Rightarrow> uint64 \<Rightarrow> MetricsMap \<Rightarrow> Nozzle
     \<Rightarrow> Nozzle outcome" where
  "postMetrics_clients post timestamp clients totalMessagesReceived m n =
     bind_outcome (metrics_clients post timestamp totalMessagesReceived 0 clients (m, n)) (\<lambda>n'. Ret (add_metrics_sent n'))"

text \<open>The two flushes as the main loop runs them when no other goroutine interferes.\<close>

definition nozzle_postMetrics ::
  "(nat \<Rightarrow> Client \<Rightarrow> MetricsMap \<Rightarrow> uint64 outcome) \<Rightarrow> int \<Rightarrow> Client list \<Rightarrow> Nozzle \<Rightarrow> Nozzle outcome" where
  "nozzle_postMetrics post timestamp clients n =
     (case take_metrics n of (m, n') \<Rightarrow>
        bind_outcome (postMetrics_clients post timestamp clients (nz_totalMessagesReceived n) m n')
          (\<lambda>n''. Ret (ResetSlowConsumerError n'')))"

definition nozzle_postLogs ::
  "(nat \<Rightarrow> Client \<Rightarrow> LogMessage list \<Rightarrow> uint64 outcome) \<Rightarrow> Client list \<Rightarrow> Nozzle \<Rightarrow> Nozzle outcome" where
  "nozzle_postLogs post clients n =
     (case take_logs n of (buffer, n') \<Rightarrow>
        bind_outcome (postLogs_clients post clients buffer n') (\<lambda>n''. Ret (ResetSlowConsumerError n'')))"

text \<open>After the posts of a tick: the channel is closed the first time; closing it twice panics.\<close>

definition end_tick :: "Nozzle \<Rightarrow> Nozzle outcome" where
  "end_tick n =
     (if nz_firstTick n then
        if nz_tickedOnce n then Panic else Ret (n\<lparr>nz_firstTick := False, nz_tickedOnce := True\<rparr>)
      else Ret n)"

text \<open>The ticker of the main loop: its period in nanoseconds. A period that is not positive panics.\<close>

definition flush_ticker :: "Config \<Rightarrow> int outcome" where
  "flush_ticker cfg =
     (let period = nanos (cfg_FlushDurationSeconds cfg) in if period \<le> 0 then Panic else Ret period)"

lemma flush_ticker_Panic: "flush_ticker cfg = Panic \<longleftrightarrow> cfg_FlushDurationSeconds cfg = 0"
  using uint_ge_0 [of "cfg_FlushDurationSeconds cfg"] uint_0_iff [of "cfg_FlushDurationSeconds cfg"]
  by (auto simp: flush_ticker_def Let_def nanos_eq)

section \<open>The readers\<close>

definition read_metrics :: "Nozzle \<Rightarrow> MetricPackage list \<Rightarrow> Nozzle" where
  "read_metrics n pkg =
     n\<lparr>nz_totalMessagesReceived := nz_totalMessagesReceived n + 1,
       nz_metricsMap := add_package (nz_metricsMap n) pkg\<rparr>"

definition read_log :: "Nozzle \<Rightarrow> LogMessage \<Rightarrow> Nozzle" where
  "read_log n l =
     n\<lparr>nz_totalMessagesReceived := nz_totalMessagesReceived n + 1, nz_logsBuffer := nz_logsBuffer n @ [l]\<rparr>"

section \<open>Starting and stopping the workers\<close>

text \<open>How many goroutines listen for the stop message, and how many messages are sent.\<close>

definition startWorkers_count :: "Config \<Rightarrow> nat" where
  "startWorkers_count cfg = nat (cfg_NumWorkers cfg) + 1 + (if cfg_EnableApplicationLogs cfg then 1 else 0)"

definition stopWorkers_count :: "Config \<Rightarrow> int" where
  "stopWorkers_count cfg =
     (let numWorkers = cfg_NumWorkers cfg + 1
      in if cfg_DataDogLogIntakeURL cfg \<noteq> [] \<or> 0 < length (cfg_DataDogAdditionalLogIntakeEndpoints cfg)
         then numWorkers + 1 else numWorkers)"

section \<open>Facts\<close>

text \<open>Internal metrics are put under keys of their own: other entries stay.\<close>

definition internal_names :: "string list" where
  "internal_names = [''totalMessagesReceived'', ''totalMetricsSent'', ''totalLogsSent'', ''slowConsumerAlert'',
     ''metrics.sent'', ''metrics.dropped'', ''logs.sent'', ''logs.dropped'']"

lemma put_internal_other:
  "mk_Name k \<noteq> name \<Longrightarrow> gget (put_internal client t name type v m) k = gget m k"
  by (auto simp: put_internal_def MakeInternalMetric_def Let_def gget_gput)

lemma wf_put_internal: "wf_gomap m \<Longrightarrow> wf_gomap (put_internal client t name type v m)"
  by (auto simp: put_internal_def wf_gput split: prod.split)

lemmas flush_defs = postMetrics_clients_def post_account_def add_metrics_sent_def ResetSlowConsumerError_def

lemmas internal_defs = internal_metrics_def internal_log_counts_def internal_metric_counts_def internal_gauges_def

lemma internal_metrics_other:
  "mk_Name k \<notin> set internal_names \<Longrightarrow> gget (fst (internal_metrics client t r mn)) k = gget (fst mn) k"
  by (cases mn) (simp add: internal_defs internal_names_def put_internal_other)

lemma wf_internal_metrics: "wf_gomap (fst mn) \<Longrightarrow> wf_gomap (fst (internal_metrics client t r mn))"
  by (cases mn) (simp add: internal_defs wf_put_internal)

text \<open>The counts after the internal metrics of a client.\<close>

lemma internal_metrics_counts:
  "nz_metricsSent (snd (internal_metrics client t r mn)) =
     (if 0 < nz_totalMetricsSent (snd mn) then 0 else nz_metricsSent (snd mn))"
  "nz_metricsDropped (snd (internal_metrics client t r mn)) =
     (if 0 < nz_totalMetricsSent (snd mn) then 0 else nz_metricsDropped (snd mn))"
  "nz_totalMetricsSent (snd (internal_metrics client t r mn)) = nz_totalMetricsSent (snd mn)"
  by (cases mn, simp add: internal_defs)+

lemma metrics_clients_last:
  assumes "metrics_clients post t r i (cs @ [c]) mn = Ret n'" and "0 < nz_totalMetricsSent (snd mn)"
    and "wf_gomap (fst mn)"
  shows "\<exists>m unsent. post (i + length cs) c m = Ret unsent \<and> wf_gomap m \<and>
    (\<forall>k. mk_Name k \<notin> set internal_names \<longrightarrow> gget m k = gget (fst mn) k) \<and>
    nz_metricsSent n' = of_nat (length m) - unsent \<and> nz_metricsDropped n' = unsent \<and>
    nz_totalMetricsSent n' = nz_totalMetricsSent (snd mn)"
  using assms
proof (induction cs arbitrary: i mn)
  case Nil
  obtain m n where mn: "internal_metrics c t r mn = (m, n)" by fastforce
  then obtain unsent where u: "post i c m = Ret unsent"
    "n' = n\<lparr>nz_metricsSent := nz_metricsSent n + (of_nat (length m) - unsent), nz_metricsDropped := nz_metricsDropped n + unsent\<rparr>"
    using Nil.prems(1) by (auto simp: post_account_def bind_outcome_Ret_iff)
  have "nz_metricsSent n = 0" "nz_metricsDropped n = 0" "nz_totalMetricsSent n = nz_totalMetricsSent (snd mn)"
    using internal_metrics_counts [of c t r mn] mn Nil.prems(2) by simp_all
  with u show ?case
    using internal_metrics_other [of _ c t r mn] wf_internal_metrics [of mn c t r] mn Nil.prems(3)
    by (intro exI [of _ m] exI [of _ unsent]) simp
next
  case (Cons d cs)
  obtain m n where mn: "internal_metrics d t r mn = (m, n)" by fastforce
  then obtain unsent where u: "post i d m = Ret unsent"
    "metrics_clients post t r (i + 1) (cs @ [c]) (m, n\<lparr>nz_metricsSent := nz_metricsSent n + (of_nat (length m) - unsent),
       nz_metricsDropped := nz_metricsDropped n + unsent\<rparr>) = Ret n'"
    using Cons.prems(1) by (auto simp: post_account_def bind_outcome_Ret_iff)
  have "nz_totalMetricsSent n = nz_totalMetricsSent (snd mn)" "wf_gomap m"
    using internal_metrics_counts [of d t r mn] wf_internal_metrics [of mn d t r] mn Cons.prems(3) by simp_all
  with Cons.IH [OF u(2)] Cons.prems(2)
  obtain m' unsent' where "post (i + 1 + length cs) c m' = Ret unsent'" "wf_gomap m'"
    "\<forall>k. mk_Name k \<notin> set internal_names \<longrightarrow> gget m' k = gget m k"
    "nz_metricsSent n' = of_nat (length m') - unsent'" "nz_metricsDropped n' = unsent'"
    "nz_totalMetricsSent n' = nz_totalMetricsSent n" by auto
  with internal_metrics_other [of _ d t r mn] mn \<open>nz_totalMetricsSent n = _\<close> show ?case
    by (intro exI [of _ m'] exI [of _ unsent']) simp
qed

lemma logs_clients_sums:
  "logs_clients post i cs buffer n = Ret n' \<Longrightarrow>
   nz_logsSent n' + nz_logsDropped n' = nz_logsSent n + nz_logsDropped n + of_nat (length cs * length buffer)"
  by (induction post i cs buffer n rule: logs_clients.induct) (auto simp: log_account_def bind_outcome_Ret_iff algebra_simps)

lemma length_put_internal: "length m \<le> b \<Longrightarrow> length (put_internal client t name type v m) \<le> Suc b"
  by (auto simp: put_internal_def length_gput split: prod.split)

lemma length_internal_metrics:
  "length (fst (internal_metrics client t r mn)) \<le> Suc (Suc (Suc (Suc (Suc (Suc (Suc (Suc (length (fst mn)))))))))"
  by (cases mn) (auto simp: internal_defs intro!: length_put_internal)

section \<open>What is posted\<close>

text \<open>
  What the nozzle reports of itself at a flush: the names, types and values, each under the tags of the
  client.
\<close>

definition self_report :: "Nozzle \<Rightarrow> (string \<times> string \<times> uint64) list" where
  "self_report n =
     [(''totalMessagesReceived'', ''gauge'', nz_totalMessagesReceived n), (''totalMetricsSent'', ''gauge'', nz_totalMetricsSent n),
      (''totalLogsSent'', ''gauge'', nz_totalLogsSent n), (''slowConsumerAlert'', ''gauge'', nz_slowConsumerAlert n)]
     @ (if nz_totalMetricsSent n = 0 then []
        else [(''metrics.sent'', ''count'', nz_metricsSent n), (''metrics.dropped'', ''count'', nz_metricsDropped n)])
     @ (if nz_totalLogsSent n = 0 then []
        else [(''logs.sent'', ''count'', nz_logsSent n), (''logs.dropped'', ''count'', nz_logsDropped n)])"

definition self_entry :: "Client \<Rightarrow> int \<Rightarrow> string \<times> string \<times> uint64 \<Rightarrow> MetricKey \<times> MetricValue" where
  "self_entry c t r =
     (case r of (name, type, v) \<Rightarrow>
        let tags = [''deployment:'' @ dd_deployment c, ''ip:'' @ dd_ip c] @ dd_customTags c
        in (\<lparr>mk_Name = name, mk_TagsHash = snd (HashTags tags)\<rparr>,
            \<lparr>mv_Tags = sort tags, mv_Points = [\<lparr>pt_Timestamp = t, pt_Value = f64_of_uint64 v\<rparr>], mv_Host = [], mv_Type = type\<rparr>))"

text \<open>The map that is posted: the nozzle's own entries, and what was collected under all other keys.\<close>

definition posted_map :: "Client \<Rightarrow> int \<Rightarrow> Nozzle \<Rightarrow> MetricsMap \<Rightarrow> bool" where
  "posted_map c t n m \<longleftrightarrow> wf_gomap m \<and>
     (\<forall>k. gget m k = (case gget (map (self_entry c t) (self_report n)) k of Some v \<Rightarrow> Some v | None \<Rightarrow> gget (nz_metricsMap n) k))"

lemma put_internal_eq: "put_internal c t name type v m = gput (fst (self_entry c t (name, type, v))) (snd (self_entry c t (name, type, v))) m"
  by (simp add: put_internal_def MakeInternalMetric_def self_entry_def Let_def HashTags_def)

lemma self_entry_name [simp]: "mk_Name (fst (self_entry c t r)) = fst r"
  by (simp add: self_entry_def Let_def split: prod.split)

lemma self_entry_key_eq [simp]: "fst (self_entry c t r) = fst (self_entry c t r') \<longleftrightarrow> fst r = fst r'"
  by (auto simp: self_entry_def Let_def split: prod.split)

lemma gget_puts: "gget (foldr (\<lambda>r m. gput (fst (f r)) (snd (f r)) m) rs m) k = (case gget (map f rs) k of Some v \<Rightarrow> Some v | None \<Rightarrow> gget m k)"
proof (induction rs)
  case (Cons r rs)
  obtain a b where "f r = (a, b)" by fastforce
  with Cons show ?case by (simp add: gget_gput)
qed simp

lemma internal_metrics_puts:
  "fst (internal_metrics c t (nz_totalMessagesReceived n) (m, n\<lparr>nz_metricsMap := []\<rparr>)) =
     foldr (\<lambda>r m. gput (fst (self_entry c t r)) (snd (self_entry c t r)) m) (rev (self_report n)) m"
  by (cases "nz_totalMetricsSent n = 0"; cases "nz_totalLogsSent n = 0")
    (simp_all add: internal_defs put_internal_eq self_report_def GAUGE_def COUNT_def word_gt_0)

lemma distinct_self_report: "distinct (map fst (map (self_entry c t) (self_report n)))"
  by (cases "nz_totalMetricsSent n = 0"; cases "nz_totalLogsSent n = 0") (simp_all add: self_report_def)

lemma internal_metrics_posted:
  assumes "wf_gomap (nz_metricsMap n)"
  shows "posted_map c t n (fst (internal_metrics c t (nz_totalMessagesReceived n) (nz_metricsMap n, n\<lparr>nz_metricsMap := []\<rparr>)))"
  unfolding posted_map_def
proof (intro conjI allI)
  show "wf_gomap (fst (internal_metrics c t (nz_totalMessagesReceived n) (nz_metricsMap n, n\<lparr>nz_metricsMap := []\<rparr>)))"
    by (rule wf_internal_metrics) (simp add: assms)
  fix k
  have "gget (map (self_entry c t) (rev (self_report n))) k = gget (map (self_entry c t) (self_report n)) k"
    by (rule gget_perm) (use distinct_self_report [of c t n] in \<open>simp_all add: wf_gomap_def rev_map [symmetric]\<close>)
  then show "gget (fst (internal_metrics c t (nz_totalMessagesReceived n) (nz_metricsMap n, n\<lparr>nz_metricsMap := []\<rparr>))) k =
      (case gget (map (self_entry c t) (self_report n)) k of Some v \<Rightarrow> Some v | None \<Rightarrow> gget (nz_metricsMap n) k)"
    by (simp add: internal_metrics_puts gget_puts)
qed

lemma internal_metrics_nozzle:
  "snd (internal_metrics c t r (m, n)) =
     n\<lparr>nz_metricsSent := (if nz_totalMetricsSent n = 0 then nz_metricsSent n else 0),
       nz_metricsDropped := (if nz_totalMetricsSent n = 0 then nz_metricsDropped n else 0),
       nz_logsSent := (if nz_totalLogsSent n = 0 then nz_logsSent n else 0),
       nz_logsDropped := (if nz_totalLogsSent n = 0 then nz_logsDropped n else 0)\<rparr>"
  by (cases "nz_totalMetricsSent n = 0"; cases "nz_totalLogsSent n = 0") (simp_all add: internal_defs word_gt_0)

text \<open>
  The nozzle after a flush to one account: \<open>sent\<close> entries were posted and \<open>dropped\<close> were not. The counts since the
  last report start again from zero if they were reported, and grow by these; the total grows by the count.
\<close>

definition flushed :: "uint64 \<Rightarrow> uint64 \<Rightarrow> Nozzle \<Rightarrow> Nozzle" where
  "flushed sent dropped n =
     (let sinceReport = (if nz_totalMetricsSent n = 0 then nz_metricsSent n else 0) + sent
      in n\<lparr>nz_metricsMap := [], nz_slowConsumerAlert := 0, nz_metricsSent := sinceReport,
           nz_metricsDropped := (if nz_totalMetricsSent n = 0 then nz_metricsDropped n else 0) + dropped,
           nz_totalMetricsSent := nz_totalMetricsSent n + sinceReport,
           nz_logsSent := (if nz_totalLogsSent n = 0 then nz_logsSent n else 0),
           nz_logsDropped := (if nz_totalLogsSent n = 0 then nz_logsDropped n else 0)\<rparr>)"

section \<open>The interface to the clients\<close>

text \<open>
  What the nozzle relies on when it posts metrics: for a client that is \<open>ok\<close> a post does not panic and
  reports at most as many unsent metrics as there are entries.
\<close>

locale metric_poster =
  fixes post :: "nat \<Rightarrow> Client \<Rightarrow> MetricsMap \<Rightarrow> uint64 outcome"
    and ok :: "Client \<Rightarrow> bool"
  assumes post_le: "ok c \<Longrightarrow> wf_gomap m \<Longrightarrow> length m < 2 ^ 64 \<Longrightarrow> \<exists>unsent. post i c m = Ret unsent \<and> unat unsent \<le> length m"
begin

text \<open>The counts of a post add up to the number of entries, without wrapping around.\<close>

lemma counts_add_up:
  assumes "ok c" and "wf_gomap m" and "length m < 2 ^ 64"
  obtains unsent where "post i c m = Ret unsent" "unat (of_nat (length m) - unsent) + unat unsent = length m"
proof -
  obtain unsent where u: "post i c m = Ret unsent" "unat unsent \<le> length m" using post_le [OF assms] by blast
  have len: "unat (of_nat (length m) :: uint64) = length m" using assms(3) by (simp add: unat_of_nat)
  then have "unsent \<le> of_nat (length m)" using u(2) by (simp add: word_le_nat_alt)
  with that [OF u(1)] u(2) len show thesis by (simp add: unat_sub)
qed

lemma flush_accounts:
  assumes "ok c" and "wf_gomap (nz_metricsMap n)" and "length (nz_metricsMap n) < 2 ^ 63"
  shows "\<exists>m sent dropped. posted_map c t n m \<and> post 0 c m = Ret dropped \<and> unat sent + unat dropped = length m \<and>
    nozzle_postMetrics post t [c] n = Ret (flushed sent dropped n)"
proof -
  let ?n = "n\<lparr>nz_metricsMap := []\<rparr>" and ?r = "nz_totalMessagesReceived n"
  let ?m = "fst (internal_metrics c t ?r (nz_metricsMap n, ?n))"
  have posted: "posted_map c t n ?m" by (rule internal_metrics_posted [OF assms(2)])
  have "length ?m < 2 ^ 64" using length_internal_metrics [of c t ?r "(nz_metricsMap n, ?n)"] assms(3) by simp
  with posted obtain dropped where u: "post 0 c ?m = Ret dropped"
    "unat (of_nat (length ?m) - dropped) + unat dropped = length ?m"
    unfolding posted_map_def using counts_add_up [OF assms(1)] by metis
  have "nozzle_postMetrics post t [c] n = Ret (flushed (of_nat (length ?m) - dropped) dropped n)"
    using u(1) internal_metrics_nozzle [of c t ?r "nz_metricsMap n" ?n]
    by (simp add: nozzle_postMetrics_def take_metrics_def flush_defs split_def flushed_def Let_def add.commute)
  with posted u show ?thesis by blast
qed

end

interpretation dd: metric_poster "\<lambda>i. PostMetrics compress (rng i) U (http i)" "\<lambda>c. 4 \<le> length (dd_apiKey c)"
  for compress rng U http
  by unfold_locales (rule PostMetrics_le)

section \<open>The component's properties\<close>

text \<open>
  C12: A flush of the metrics to one account, whose API key has at least four characters. It does not panic.
  What is posted is \<open>posted_map\<close>: the nozzle's own entries with the counts before the flush, and under all
  other keys exactly what was collected. Every posted entry is counted, once: as dropped if the post
  reports it as unsent, and as sent otherwise, and no count wraps around. The counts start again from zero
  if they were reported, which is the case once some metric was sent before, and else go on; the total
  grows by the count; the map and the alert are reset; nothing else changes but the counts of logs that were reported.
\<close>

theorem postMetrics_accounts:
  assumes "4 \<le> length (dd_apiKey c)" and "wf_gomap (nz_metricsMap n)" and "length (nz_metricsMap n) < 2 ^ 63"
  shows "\<exists>m sent dropped. posted_map c t n m \<and> PostMetrics compress (rng 0) U (http 0) c m = Ret dropped \<and>
    unat sent + unat dropped = length m \<and>
    nozzle_postMetrics (\<lambda>i. PostMetrics compress (rng i) U (http i)) t [c] n = Ret (flushed sent dropped n)"
  by (rule dd.flush_accounts [OF assms])

definition busy_nozzle :: Nozzle where
  "busy_nozzle = NewNozzle\<lparr>nz_metricsMap := two_metrics, nz_totalMetricsSent := 5, nz_slowConsumerAlert := 1\<rparr>"

theorem postMetrics_accounts_witness:
  "\<exists>m dropped. wf_gomap m \<and> gget m key1 = Some one_point \<and>
     gget m (fst (self_entry some_client 7 (''slowConsumerAlert'', ''gauge'', 1))) =
       Some (snd (self_entry some_client 7 (''slowConsumerAlert'', ''gauge'', 1))) \<and>
     PostMetrics (\<lambda>_. Some ''xy'') (\<lambda>_. rev) plain_urls (\<lambda>_ _. NoResponse) some_client m = Ret dropped \<and>
     (\<exists>n'. nozzle_postMetrics (\<lambda>_. PostMetrics (\<lambda>_. Some ''xy'') (\<lambda>_. rev) plain_urls (\<lambda>_ _. NoResponse)) 7 [some_client]
        busy_nozzle = Ret n' \<and> nz_metricsDropped n' = dropped \<and> nz_metricsMap n' = [] \<and> nz_slowConsumerAlert n' = 0)"
proof -
  have "wf_gomap (nz_metricsMap busy_nozzle)" "length (nz_metricsMap busy_nozzle) < 2 ^ 63"
    using wf_two_metrics by (simp_all add: busy_nozzle_def two_metrics_def)
  from postMetrics_accounts [OF some_client_key this, where compress = "\<lambda>_. Some ''xy''" and rng = "\<lambda>_ _. rev"
      and U = plain_urls and http = "\<lambda>_ _ _. NoResponse" and t = 7]
  obtain m sent dropped where m: "posted_map some_client 7 busy_nozzle m"
    "PostMetrics (\<lambda>_. Some ''xy'') (\<lambda>_. rev) plain_urls (\<lambda>_ _. NoResponse) some_client m = Ret dropped"
    and f: "nozzle_postMetrics (\<lambda>_. PostMetrics (\<lambda>_. Some ''xy'') (\<lambda>_. rev) plain_urls (\<lambda>_ _. NoResponse)) 7 [some_client]
      busy_nozzle = Ret (flushed sent dropped busy_nozzle)" by blast
  have "nz_metricsDropped (flushed sent dropped busy_nozzle) = dropped" by (simp add: flushed_def Let_def busy_nozzle_def NewNozzle_def)
  moreover have "nz_metricsMap (flushed sent dropped busy_nozzle) = []" "nz_slowConsumerAlert (flushed sent dropped busy_nozzle) = 0"
    by (simp_all add: flushed_def Let_def)
  moreover have "gget (map (self_entry some_client 7) (self_report busy_nozzle)) key1 = None"
    unfolding gget_None_iff by (auto simp: self_report_def busy_nozzle_def NewNozzle_def key1_def self_entry_def Let_def)
  moreover have "gget (map (self_entry some_client 7) (self_report busy_nozzle)) (fst (self_entry some_client 7 (''slowConsumerAlert'', ''gauge'', 1))) =
      Some (snd (self_entry some_client 7 (''slowConsumerAlert'', ''gauge'', 1)))"
    using distinct_self_report [of some_client 7 busy_nozzle]
    by (intro map_of_is_SomeI) (simp_all add: self_report_def busy_nozzle_def NewNozzle_def)
  moreover have "gget (nz_metricsMap busy_nozzle) key1 = Some one_point" by (simp add: busy_nozzle_def two_metrics_def)
  ultimately show ?thesis using m f by (auto simp: posted_map_def)
qed

text \<open>
  C36: With several accounts the totals forget all but the last: once some metric was sent, the counts
  and the total after a flush are those of the post to the last account only, whatever was sent to
  or dropped by the others.
\<close>

theorem postMetrics_last_account:
  assumes "nozzle_postMetrics post t (cs @ [c]) n = Ret n'" and "0 < nz_totalMetricsSent n" and "wf_gomap (nz_metricsMap n)"
  shows "\<exists>m unsent. post (length cs) c m = Ret unsent \<and>
    nz_metricsSent n' = of_nat (length m) - unsent \<and> nz_metricsDropped n' = unsent \<and>
    nz_totalMetricsSent n' = nz_totalMetricsSent n + (of_nat (length m) - unsent)"
proof -
  let ?n = "n\<lparr>nz_metricsMap := []\<rparr>"
  obtain n1 where n1: "metrics_clients post t (nz_totalMessagesReceived n) 0 (cs @ [c]) (nz_metricsMap n, ?n) = Ret n1"
    "n' = n1\<lparr>nz_totalMetricsSent := nz_totalMetricsSent n1 + nz_metricsSent n1, nz_slowConsumerAlert := 0\<rparr>"
    using assms(1)
    by (auto simp: nozzle_postMetrics_def take_metrics_def flush_defs bind_outcome_Ret_iff)
  from metrics_clients_last [OF n1(1)] assms(2,3) obtain m unsent where
    "post (length cs) c m = Ret unsent" "nz_metricsSent n1 = of_nat (length m) - unsent" "nz_metricsDropped n1 = unsent"
    "nz_totalMetricsSent n1 = nz_totalMetricsSent n" by auto
  with n1(2) show ?thesis by (intro exI [of _ m] exI [of _ unsent]) simp
qed

text \<open>In the witness the first account drops everything and the second gets everything: no drop is counted.\<close>

theorem postMetrics_last_account_witness:
  "\<exists>n'. nozzle_postMetrics (\<lambda>i c m. Ret (if i = 0 then of_nat (length m) else 0)) 7 [some_client, some_client] busy_nozzle = Ret n' \<and>
     nz_metricsDropped n' = 0"
proof -
  let ?post = "\<lambda>i c m. Ret (if i = 0 then of_nat (length m) else 0) :: uint64 outcome"
  obtain n' where n': "nozzle_postMetrics ?post 7 ([some_client] @ [some_client]) busy_nozzle = Ret n'"
    by (simp add: nozzle_postMetrics_def take_metrics_def flush_defs split_def)
  have "0 < nz_totalMetricsSent busy_nozzle" "wf_gomap (nz_metricsMap busy_nozzle)"
    using wf_two_metrics by (simp_all add: busy_nozzle_def two_metrics_def)
  from postMetrics_last_account [OF n' this] n' show ?thesis by auto
qed

text \<open>
  The slow consumer alert is raised exactly by a counter named \<^verbatim>\<open>dropped\<close> with a positive delta
  that the reverse log proxy reports for its egress, and handling a message changes nothing else.
\<close>

lemma handleMessage_alert:
  "handleMessage n e = (if \<exists>ct. ev_Message e = Envelope_Counter ct \<and> ct_Name ct = ''dropped'' \<and> 0 < ct_Delta ct \<and>
        gget (ev_Tags e) ''origin'' = Some ''loggregator.rlp'' \<and> gget (ev_Tags e) ''direction'' = Some ''egress''
      then n\<lparr>nz_slowConsumerAlert := 1\<rparr> else n)"
  by (cases "ev_Message e") (auto simp: handleMessage_def AlertSlowConsumerError_def)

text \<open>
  As many stop messages are sent as there are goroutines to stop exactly when application logs are
  enabled if and only if an endpoint for logs is configured. Otherwise stopping waits for the time-out
  (one message too many) or may leave a goroutine running (one too few).
\<close>

lemma stopWorkers_matches:
  assumes "0 \<le> cfg_NumWorkers cfg"
  shows "int (startWorkers_count cfg) = stopWorkers_count cfg \<longleftrightarrow>
    (cfg_EnableApplicationLogs cfg \<longleftrightarrow>
       cfg_DataDogLogIntakeURL cfg \<noteq> [] \<or> cfg_DataDogAdditionalLogIntakeEndpoints cfg \<noteq> [])"
  using assms by (auto simp: startWorkers_count_def stopWorkers_count_def Let_def)

lemma stopWorkers_matches_witness:
  "int (startWorkers_count (zero_Config\<lparr>cfg_EnableApplicationLogs := True\<rparr>)) \<noteq>
     stopWorkers_count (zero_Config\<lparr>cfg_EnableApplicationLogs := True\<rparr>)"
  using stopWorkers_matches [of "zero_Config\<lparr>cfg_EnableApplicationLogs := True\<rparr>"] by (simp add: zero_Config_def)

end
