(* ===== verification/DCA_Client.thy ===== *)
theory DCA_Client
  imports CF_Client Go_Http
begin

text \<open>
  The client of the Datadog Cluster Agent, \<^verbatim>\<open>internal/client/cloudfoundry/dca_client.go\<close> and
  \<^verbatim>\<open>version.go\<close>.

  The agent is a function from requests to replies; decoding JSON is a function that returns the
  value it has filled in so far and whether it succeeded: the code hands on both.
\<close>

section \<open>Versions\<close>

record Version =
  ver_Major :: int
  ver_Minor :: int
  ver_Patch :: int
  ver_Pre :: string
  ver_Meta :: string
  ver_Commit :: string

definition zero_Version :: Version where
  "zero_Version = \<lparr>ver_Major = 0, ver_Minor = 0, ver_Patch = 0, ver_Pre = [], ver_Meta = [], ver_Commit = []\<rparr>"

definition GetNumber :: "Version \<Rightarrow> string" where
  "GetNumber v = itoa (ver_Major v) @ ''.'' @ itoa (ver_Minor v) @ ''.'' @ itoa (ver_Patch v)"

definition Version_String :: "Version \<Rightarrow> string" where
  "Version_String v =
     (let ver = GetNumber v;
          ver = (if ver_Pre v \<noteq> [] then ver @ ''-'' @ ver_Pre v else ver);
          ver = (if ver_Meta v \<noteq> [] then ver @ ''+'' @ ver_Meta v else ver)
      in if ver_Commit v \<noteq> [] then
           (if ver_Meta v \<noteq> [] then ver @ ''.commit.'' @ ver_Commit v else ver @ ''+commit.'' @ ver_Commit v)
         else ver)"

section \<open>Requests\<close>

record DCAClient =
  dca_clusterAgentAPIEndpoint :: string
  dca_ClusterAgentVersion :: Version
  dca_RequestHeaders :: "(string \<times> string) list"
  dca_advancedTagging :: bool

type_synonym agent = "Request \<Rightarrow> reply"
type_synonym 'a decoder = "string \<Rightarrow> 'a \<times> bool"

definition dca_request :: "DCAClient \<Rightarrow> string \<Rightarrow> Request" where
  "dca_request c path =
     \<lparr>rq_Method = ''GET'', rq_URL = dca_clusterAgentAPIEndpoint c @ ''/'' @ path,
      rq_Header = dca_RequestHeaders c, rq_Body = []\<rparr>"

text \<open>
  What all the calls share: send the request, check the status, read and decode the body. Until the
  body is decoded the value is \<open>zero\<close>.
\<close>

definition dca_get :: "DCAClient \<Rightarrow> agent \<Rightarrow> 'a \<Rightarrow> 'a decoder \<Rightarrow> string \<Rightarrow> 'a \<times> cf_error option" where
  "dca_get c send zero decode path =
     (case send (dca_request c path) of
        NotARequest \<Rightarrow> (zero, Some RequestError)
      | NoReply \<Rightarrow> (zero, Some RequestError)
      | Reply status body \<Rightarrow>
          if status \<noteq> 200 then (zero, Some (StatusError status))
          else (case body of
                  None \<Rightarrow> (zero, Some ReadError)
                | Some b \<Rightarrow> (case decode b of (v, ok) \<Rightarrow> (v, if ok then None else Some UnmarshalError))))"

definition GetVersion :: "DCAClient \<Rightarrow> agent \<Rightarrow> Version decoder \<Rightarrow> Version \<times> cf_error option" where
  "GetVersion c send decode = dca_get c send zero_Version decode ''version''"

text \<open>What the client does to the sidecars of an app.\<close>

definition dca_sidecars :: "DCAClient \<Rightarrow> CFApplication \<Rightarrow> CFApplication" where
  "dca_sidecars c cfapp =
     (if \<not> dca_advancedTagging c then cfapp\<lparr>cf_Sidecars := None\<rparr>
      else if cf_Sidecars cfapp = None then cfapp\<lparr>cf_Sidecars := Some []\<rparr> else cfapp)"

text \<open>
  The loop over the apps assigns to its variable, a copy of the element: the copies are changed and
  dropped, the list is returned as it was decoded.
\<close>

fun sidecars_of_copies :: "DCAClient \<Rightarrow> CFApplication list \<Rightarrow> CFApplication list \<times> CFApplication list" where
  "sidecars_of_copies c [] = ([], [])"
| "sidecars_of_copies c (cfapp # cfapps) =
     (case sidecars_of_copies c cfapps of (kept, copies) \<Rightarrow> (cfapp # kept, dca_sidecars c cfapp # copies))"

definition DCA_GetApplications ::
  "DCAClient \<Rightarrow> agent \<Rightarrow> CFApplication list decoder \<Rightarrow> CFApplication list \<times> cf_error option" where
  "DCA_GetApplications c send decode =
     (case dca_get c send [] decode ''api/v1/cf/apps'' of
        (cfapps, err) \<Rightarrow> (fst (sidecars_of_copies c cfapps), err))"

text \<open>
  The status and reading errors return a nil pointer, a decoding error the app as far as it was
  filled in.
\<close>

definition DCA_GetApplication ::
  "DCAClient \<Rightarrow> agent \<Rightarrow> CFApplication decoder \<Rightarrow> string \<Rightarrow> CFApplication option \<times> cf_error option" where
  "DCA_GetApplication c send decode appGUID =
     (case dca_get c send None (\<lambda>b. map_prod Some id (decode b)) (''api/v1/cf/apps'' @ ''/'' @ appGUID) of
        (cfapp, err) \<Rightarrow> (map_option (dca_sidecars c) cfapp, err))"

text \<open>The library's organizations: the fields that the nozzle reads.\<close>

record V3Organization =
  org_Name :: string
  org_GUID :: string
  org_CreatedAt :: string
  org_UpdatedAt :: string
  org_Suspended :: "bool option"
  org_Relationships :: "(string, string) gomap"
  org_Labels :: "(string, string) gomap"
  org_Annotations :: "(string, string) gomap"

record V2Org =
  v2o_Name :: string
  v2o_Guid :: string
  v2o_CreatedAt :: string
  v2o_UpdatedAt :: string
  v2o_QuotaDefinitionGuid :: string

definition DCA_GetV3Orgs ::
  "DCAClient \<Rightarrow> agent \<Rightarrow> V3Organization list decoder \<Rightarrow> V3Organization list \<times> cf_error option" where
  "DCA_GetV3Orgs c send decode = dca_get c send [] decode ''api/v1/cf/orgs''"

definition DCA_GetV2OrgQuotas ::
  "DCAClient \<Rightarrow> agent \<Rightarrow> CFOrgQuota list decoder \<Rightarrow> CFOrgQuota list \<times> cf_error option" where
  "DCA_GetV2OrgQuotas c send decode = dca_get c send [] decode ''api/v1/cf/org_quotas''"

text \<open>A relationship that is absent reads as the zero value, whose identifier is empty.\<close>

definition v2_org_of :: "V3Organization \<Rightarrow> V2Org" where
  "v2_org_of v3Org =
     \<lparr>v2o_Name = org_Name v3Org, v2o_Guid = org_GUID v3Org, v2o_CreatedAt = org_CreatedAt v3Org,
      v2o_UpdatedAt = org_UpdatedAt v3Org,
      v2o_QuotaDefinitionGuid = gget_str (org_Relationships v3Org) ''quota''\<rparr>"

definition V2OrgsFromV3Orgs :: "DCAClient \<Rightarrow> agent \<Rightarrow> V3Organization list decoder \<Rightarrow> cf_error + V2Org list" where
  "V2OrgsFromV3Orgs c send decode =
     (case DCA_GetV3Orgs c send decode of
        (allOrgs, Some err) \<Rightarrow> Inl err
      | (allOrgs, None) \<Rightarrow> Inr (map v2_org_of allOrgs))"

section \<open>Connecting\<close>

text \<open>
  The agent may answer differently each time: \<open>send i\<close> is the agent at the \<open>i\<close>-th attempt. The loop
  counts down the attempts that are left and then ends the process.
\<close>

datatype 'a connection = MissingToken | Exit | Connected 'a

fun retry_loop :: "(nat \<Rightarrow> Version \<times> cf_error option) \<Rightarrow> nat \<Rightarrow> nat \<Rightarrow> Version option" where
  "retry_loop version i 0 = None"
| "retry_loop version i (Suc nbrAttempts) =
     (case version i of
        (v, None) \<Rightarrow> Some v
      | (v, Some err) \<Rightarrow> if nbrAttempts = 0 then None else retry_loop version (i + 1) nbrAttempts)"

definition new_DCAClient :: "Config \<Rightarrow> DCAClient" where
  "new_DCAClient config =
     \<lparr>dca_clusterAgentAPIEndpoint = cfg_DCAUrl config, dca_ClusterAgentVersion = zero_Version,
      dca_RequestHeaders = [(''Authorization'', ''Bearer '' @ cfg_DCAToken config)],
      dca_advancedTagging = False\<rparr>"

definition NewDCAClient :: "Config \<Rightarrow> (nat \<Rightarrow> agent) \<Rightarrow> Version decoder \<Rightarrow> DCAClient connection" where
  "NewDCAClient config send decode =
     (if cfg_DCAToken config = [] then MissingToken
      else let c = new_DCAClient config;
               version = (\<lambda>i. GetVersion c (send i) decode)
           in case version 0 of
                (v, None) \<Rightarrow> Connected (c\<lparr>dca_ClusterAgentVersion := v\<rparr>)
              | (v, Some err) \<Rightarrow>
                  (case retry_loop version 1 10 of
                     Some v \<Rightarrow> Connected (c\<lparr>dca_ClusterAgentVersion := v\<rparr>)
                   | None \<Rightarrow> Exit))"

section \<open>Facts\<close>

lemma dca_get_ok:
  "snd (dca_get c send zero decode path) = None \<longleftrightarrow>
     (\<exists>b. send (dca_request c path) = Reply 200 (Some b) \<and> snd (decode b))"
  by (auto simp: dca_get_def split: reply.split option.split prod.split)

lemma dca_get_value:
  "fst (dca_get c send zero decode path) =
     (case send (dca_request c path) of
        Reply status (Some b) \<Rightarrow> if status = 200 then fst (decode b) else zero | _ \<Rightarrow> zero)"
  by (auto simp: dca_get_def split: reply.split option.split prod.split)

lemma sidecars_of_copies_kept: "fst (sidecars_of_copies c cfapps) = cfapps"
  by (induction cfapps) (simp_all add: split_def)

lemma retry_loop_find:
  "retry_loop version i n = map_option (\<lambda>k. fst (version k)) (List.find (\<lambda>k. snd (version k) = None) [i..<i + n])"
proof (induction n arbitrary: i)
  case (Suc n)
  have "[i..<i + Suc n] = i # [Suc i..<Suc i + n]" by (simp add: upt_conv_Cons)
  with Suc.IH [of "i + 1"] show ?case by (cases n) (auto split: prod.split option.split)
qed simp

lemma new_DCAClient_tagging: "NewDCAClient config send decode = Connected c \<Longrightarrow> \<not> dca_advancedTagging c"
  by (auto simp: NewDCAClient_def new_DCAClient_def Let_def split: if_splits prod.splits option.splits)

lemma itoa_no_dot: "CHR ''.'' \<notin> set (itoa n)"
proof -
  have "CHR ''.'' \<notin> set (dec_digits k)" for k using dec_digits_digits [of k] by (auto simp: list_all_iff is_digit_def)
  then show ?thesis by (simp add: itoa_def)
qed

section \<open>The component's properties\<close>

text \<open>
  C34: Connecting to the cluster agent. Without a token there is no client; otherwise the version is
  that of the first of eleven attempts that succeeds, with the bearer token in every request, and if
  none does the process ends.
\<close>

theorem NewDCAClient_spec:
  "NewDCAClient config send decode =
     (if cfg_DCAToken config = [] then MissingToken
      else case List.find (\<lambda>i. snd (GetVersion (new_DCAClient config) (send i) decode) = None) [0..<11] of
             None \<Rightarrow> Exit
           | Some i \<Rightarrow> Connected ((new_DCAClient config)
               \<lparr>dca_ClusterAgentVersion := fst (GetVersion (new_DCAClient config) (send i) decode)\<rparr>))"
proof -
  have "[0..<11] = 0 # [1..<11]" by (simp add: upt_conv_Cons)
  then show ?thesis
    by (auto simp: NewDCAClient_def Let_def retry_loop_find split: prod.split option.split)
qed

text \<open>
  The two ways to get an app from the cluster agent disagree about its sidecars. The list of all
  apps keeps the sidecars that the agent sent, since the loop that should remove them changes copies;
  a single app never has any, since no client is created with advanced tagging.
\<close>

lemma DCA_sidecars_disagree:
  assumes "NewDCAClient config send0 decode0 = Connected c"
  shows "DCA_GetApplications c send decode = dca_get c send [] decode ''api/v1/cf/apps'' \<and>
    (case fst (DCA_GetApplication c send decode1 guid) of None \<Rightarrow> True | Some a \<Rightarrow> cf_Sidecars a = None)"
  using new_DCAClient_tagging [OF assms]
  by (simp add: DCA_GetApplications_def sidecars_of_copies_kept DCA_GetApplication_def dca_sidecars_def split_def
      split: option.split)

definition sidecar_app :: CFApplication where
  "sidecar_app = zero_CFApplication\<lparr>cf_GUID := ''g'', cf_Sidecars := Some []\<rparr>"

lemma DCA_sidecars_disagree_witness:
  "\<exists>c. NewDCAClient (zero_Config\<lparr>cfg_DCAToken := ''t''\<rparr>) (\<lambda>_ _. Reply 200 (Some [])) (\<lambda>_. (zero_Version, True)) = Connected c \<and>
     fst (DCA_GetApplications c (\<lambda>_. Reply 200 (Some [])) (\<lambda>_. ([sidecar_app], True))) = [sidecar_app] \<and>
     fst (DCA_GetApplication c (\<lambda>_. Reply 200 (Some [])) (\<lambda>_. (sidecar_app, True)) ''g'') \<noteq> Some sidecar_app"
proof -
  obtain c where c: "NewDCAClient (zero_Config\<lparr>cfg_DCAToken := ''t''\<rparr>) (\<lambda>_ _. Reply 200 (Some [])) (\<lambda>_. (zero_Version, True)) =
      Connected c"
    by (simp add: NewDCAClient_def GetVersion_def dca_get_def Let_def)
  from DCA_sidecars_disagree [OF c, of "\<lambda>_. Reply 200 (Some [])" "\<lambda>_. ([sidecar_app], True)"
      "\<lambda>_. (sidecar_app, True)" "''g''"] c
  show ?thesis by (intro exI [of _ c]) (auto simp: dca_get_def sidecar_app_def)
qed

text \<open>The number of a version can be read back from its text.\<close>

lemma GetNumber_roundtrip:
  assumes "- (2 ^ 63) \<le> ver_Major v" "ver_Major v < 2 ^ 63" and "- (2 ^ 63) \<le> ver_Minor v" "ver_Minor v < 2 ^ 63"
    and "- (2 ^ 63) \<le> ver_Patch v" "ver_Patch v < 2 ^ 63"
  shows "map atoi (split_char (CHR ''.'') (GetNumber v)) = [Some (ver_Major v), Some (ver_Minor v), Some (ver_Patch v)]"
  using assms by (simp add: GetNumber_def split_char_append split_char_no_sep itoa_no_dot atoi_itoa)

lemma GetNumber_roundtrip_witness:
  "map atoi (split_char (CHR ''.'') (GetNumber (zero_Version\<lparr>ver_Major := 1, ver_Patch := 12\<rparr>))) = [Some 1, Some 0, Some 12]"
  using GetNumber_roundtrip [of "zero_Version\<lparr>ver_Major := 1, ver_Patch := 12\<rparr>"] by (simp add: zero_Version_def)

end
