(* ===== verification/Org_Collector.thy ===== *)
theory Org_Collector
  imports DCA_Client Util Metric
begin

text \<open>
  \<^verbatim>\<open>internal/orgcollector/orgcollector.go\<close>: the collector of the organizations' memory quotas. A
  client is what its two calls return; the order in which the labels and annotations of an
  organization are visited is a parameter, as is the clock.
\<close>

section \<open>Data\<close>

record org_source =
  os_GetV3Orgs :: "V3Organization list \<times> cf_error option"
  os_GetV2OrgQuotas :: "CFOrgQuota list \<times> cf_error option"

record OrgCollector =
  oc_cfClient :: "org_source option"
  oc_dcaClient :: "org_source option"
  oc_customTags :: "string list"
  oc_queryInterval :: uint32

text \<open>Each client is connected or fails.\<close>

definition NewOrgCollector ::
  "Config \<Rightarrow> (org_source option) \<Rightarrow> (org_source option) \<Rightarrow> string list \<Rightarrow> OrgCollector option" where
  "NewOrgCollector config newCFClient newDCAClient customTags =
     (let collector = \<lparr>oc_cfClient = None, oc_dcaClient = None, oc_customTags = customTags,
            oc_queryInterval = cfg_OrgDataCollectionInterval config\<rparr>
      in if cfg_DCAEnabled config then
           (case newDCAClient of None \<Rightarrow> None | Some dca \<Rightarrow> Some (collector\<lparr>oc_dcaClient := Some dca\<rparr>))
         else (case newCFClient of None \<Rightarrow> None | Some cf \<Rightarrow> Some (collector\<lparr>oc_cfClient := Some cf\<rparr>)))"

text \<open>
  The Cloud Controller's organizations and quotas: the library's listings are parameters, functions of
  the query. The nozzle's client hands them on.
\<close>

type_synonym query = "(string \<times> string) list"

record org_listings =
  li_ListV3OrganizationsByQuery :: "query \<Rightarrow> cf_error + V3Organization list"
  li_ListOrgsByQuery :: "query \<Rightarrow> cf_error + V2Org list"
  li_ListOrgQuotasByQuery :: "query \<Rightarrow> cf_error + (string \<times> int) list"

definition v2_query :: "CFClient \<Rightarrow> query" where
  "v2_query cfc = [(''results-per-page'', itoa (uint (v2_page_size cfc)))]"

definition GetV3Orgs :: "CFClient \<Rightarrow> org_listings \<Rightarrow> cf_error + V3Organization list" where
  "GetV3Orgs cfc li =
     (case li_ListV3OrganizationsByQuery li [(''per_page'', itoa (uint (cc_apiBatchSize cfc)))] of
        Inl err \<Rightarrow> Inl err | Inr allOrgs \<Rightarrow> Inr allOrgs)"

definition GetV2Orgs :: "CFClient \<Rightarrow> org_listings \<Rightarrow> cf_error + V2Org list" where
  "GetV2Orgs cfc li = (case li_ListOrgsByQuery li (v2_query cfc) of Inl err \<Rightarrow> Inl err | Inr allOrgs \<Rightarrow> Inr allOrgs)"

text \<open>An error comes with a nil list.\<close>

fun list_or_nil :: "cf_error + 'a list \<Rightarrow> 'a list \<times> cf_error option" where
  "list_or_nil (Inl err) = ([], Some err)"
| "list_or_nil (Inr xs) = (xs, None)"

definition cf_org_source :: "CFClient \<Rightarrow> org_listings \<Rightarrow> org_source" where
  "cf_org_source cfc li =
     \<lparr>os_GetV3Orgs = list_or_nil (GetV3Orgs cfc li),
      os_GetV2OrgQuotas = list_or_nil (GetV2OrgQuotas (li_ListOrgQuotasByQuery li (v2_query cfc)))\<rparr>"

section \<open>Collecting\<close>

definition getTagsFromOrg ::
  "(nat \<Rightarrow> (string, string) gomap \<Rightarrow> (string, string) gomap) \<Rightarrow> V3Organization \<Rightarrow> string list" where
  "getTagsFromOrg rng org =
     (let status = (if org_Suspended org = Some True then ''suspended'' else ''active'')
      in [tag ''guid'' (org_GUID org), tag ''org_name'' (org_Name org), tag ''org_id'' (org_GUID org),
          tag ''status'' status]
         @ map (\<lambda>(k, v). tag k v) (range_order (rng 0) (org_Labels org))
         @ map (\<lambda>(k, v). tag k v) (range_order (rng 1) (org_Annotations org)))"

text \<open>The client that is asked: with neither, the method is called on a nil pointer, which panics.\<close>

definition collector_source :: "OrgCollector \<Rightarrow> org_source outcome" where
  "collector_source o1 =
     (case oc_dcaClient o1 of Some dca \<Rightarrow> Ret dca
      | None \<Rightarrow> (case oc_cfClient o1 of Some cf \<Rightarrow> Ret cf | None \<Rightarrow> Panic))"

text \<open>The quotas by their identifiers: the last of those with the same one.\<close>

definition quota_map :: "CFOrgQuota list \<Rightarrow> (string, CFOrgQuota) gomap" where
  "quota_map allQuotas = foldl (\<lambda>m q. gput (oq_GUID q) q m) [] allQuotas"

definition org_package ::
  "(nat \<Rightarrow> (string, string) gomap \<Rightarrow> (string, string) gomap) \<Rightarrow> int \<Rightarrow> string list \<Rightarrow> V3Organization \<Rightarrow> CFOrgQuota
     \<Rightarrow> MetricPackage" where
  "org_package rng now customTags org q =
     (case HashTags (customTags @ getTagsFromOrg rng org) of
        (tags, h) \<Rightarrow>
          \<lparr>mp_Key = \<lparr>mk_Name = ''org.memory.quota'', mk_TagsHash = h\<rparr>,
           mp_Value = \<lparr>mv_Tags = tags,
             mv_Points = [\<lparr>pt_Timestamp = now, pt_Value = f64_of_int (oq_MemoryLimit q)\<rparr>],
             mv_Host = [], mv_Type = []\<rparr>\<rparr>)"

text \<open>The loop over the organizations, which are numbered for the parameters.\<close>

fun orgs_loop ::
  "(nat \<Rightarrow> nat \<Rightarrow> (string, string) gomap \<Rightarrow> (string, string) gomap) \<Rightarrow> (nat \<Rightarrow> int) \<Rightarrow> string list
     \<Rightarrow> (string, CFOrgQuota) gomap \<Rightarrow> nat \<Rightarrow> V3Organization list \<Rightarrow> MetricPackage list" where
  "orgs_loop rng now customTags quotas i [] = []"
| "orgs_loop rng now customTags quotas i (org # orgs) =
     (case gget quotas (gget_str (org_Relationships org) ''quota'') of
        None \<Rightarrow> orgs_loop rng now customTags quotas (i + 1) orgs
      | Some q \<Rightarrow> org_package (rng i) (now i) customTags org q # orgs_loop rng now customTags quotas (i + 1) orgs)"

text \<open>
  \<^verbatim>\<open>pushMetrics\<close> returns the packages that it sends to the nozzle. The errors of the two calls are only
  logged: what came back with them is used.
\<close>

definition pushMetrics ::
  "(nat \<Rightarrow> nat \<Rightarrow> (string, string) gomap \<Rightarrow> (string, string) gomap) \<Rightarrow> (nat \<Rightarrow> int) \<Rightarrow> OrgCollector
     \<Rightarrow> MetricPackage list outcome" where
  "pushMetrics rng now o1 =
     bind_outcome (collector_source o1) (\<lambda>src.
       Ret (orgs_loop rng now (oc_customTags o1) (quota_map (fst (os_GetV2OrgQuotas src))) 0 (fst (os_GetV3Orgs src))))"

text \<open>
  The loop of the collector: it collects once at the start and at every tick until it is stopped.
  Creating the ticker, or waiting the random time after a tick, may panic. \<open>n\<close> counts the collections
  that were started.
\<close>

datatype collector_event = CollectorTick "int \<Rightarrow> int" | CollectorStop

fun collector_events :: "int \<Rightarrow> collector_event list \<Rightarrow> nat \<Rightarrow> nat outcome" where
  "collector_events jitterMax [] n = Ret n"
| "collector_events jitterMax (CollectorTick rnd # es) n =
     bind_outcome (jitterWait jitterMax rnd) (\<lambda>_. collector_events jitterMax es (n + 1))"
| "collector_events jitterMax (CollectorStop # es) n = Ret n"

definition collector_run :: "OrgCollector \<Rightarrow> collector_event list \<Rightarrow> nat outcome" where
  "collector_run o1 es =
     bind_outcome (GetTickerWithJitter (oc_queryInterval o1) f64_tenth) (\<lambda>(period, jitterMax).
       collector_events jitterMax es 1)"


section \<open>Facts\<close>

lemma mset_getTagsFromOrg: "mset (getTagsFromOrg rng org) = mset (getTagsFromOrg (\<lambda>_ m. m) org)"
  by (simp add: getTagsFromOrg_def Let_def)

lemma org_package_order: "org_package rng now ts org q = org_package (\<lambda>_ m. m) now ts org q"
proof -
  have "HashTags (ts @ getTagsFromOrg rng org) = HashTags (ts @ getTagsFromOrg (\<lambda>_ m. m) org)"
    by (rule HashTags_perm) (simp add: mset_getTagsFromOrg [of rng])
  then show ?thesis by (simp add: org_package_def)
qed

lemma quota_map_get:
  "gget (quota_map qs) g =
     (if filter (\<lambda>q. oq_GUID q = g) qs = [] then None else Some (last (filter (\<lambda>q. oq_GUID q = g) qs)))"
proof (induction qs rule: rev_induct)
  case (snoc q qs)
  then show ?case by (simp add: quota_map_def gget_gput)
qed (simp add: quota_map_def)

text \<open>An organization and what is sent for it.\<close>

definition quotas_of :: "CFOrgQuota list \<Rightarrow> V3Organization \<Rightarrow> CFOrgQuota list" where
  "quotas_of qs org = filter (\<lambda>q. oq_GUID q = gget_str (org_Relationships org) ''quota'') qs"

definition package_of_org :: "string list \<Rightarrow> CFOrgQuota list \<Rightarrow> V3Organization \<Rightarrow> MetricPackage \<Rightarrow> bool" where
  "package_of_org ts qs org p \<longleftrightarrow>
     mk_Name (mp_Key p) = ''org.memory.quota'' \<and>
     mk_TagsHash (mp_Key p) = snd (HashTags (mv_Tags (mp_Value p))) \<and>
     mset (mv_Tags (mp_Value p)) = mset (ts @ getTagsFromOrg (\<lambda>_ m. m) org) \<and>
     map pt_Value (mv_Points (mp_Value p)) = [f64_of_int (oq_MemoryLimit (last (quotas_of qs org)))]"

lemma org_package_of: "package_of_org ts qs org (org_package rng now ts org (last (quotas_of qs org)))"
  using mset_getTagsFromOrg [of rng org]
  by (simp add: package_of_org_def org_package_def split_def HashTags_def Let_def sorted_sort_id)

lemma orgs_loop_packages:
  "list_all2 (package_of_org ts qs) (filter (\<lambda>org. quotas_of qs org \<noteq> []) orgs) (orgs_loop rng now ts (quota_map qs) i orgs)"
proof (induction orgs arbitrary: i)
  case (Cons org orgs)
  then show ?case
    using org_package_of [of ts qs org "rng i" "now i"]
    by (cases "quotas_of qs org") (simp_all add: quota_map_get quotas_of_def)
qed simp

definition is_collector_tick :: "collector_event \<Rightarrow> bool" where
  "is_collector_tick e \<longleftrightarrow> (case e of CollectorTick _ \<Rightarrow> True | CollectorStop \<Rightarrow> False)"

lemma collector_events_count:
  "(\<And>rnd. jitterWait j rnd \<noteq> Panic) \<Longrightarrow>
   collector_events j es n = Ret (n + length (takeWhile is_collector_tick es))"
proof (induction j es n rule: collector_events.induct)
  case (2 j rnd es n)
  obtain x where "jitterWait j rnd = Ret x" using "2.prems" [of rnd] by (cases "jitterWait j rnd") auto
  then show ?case using "2.IH" "2.prems" by (simp add: is_collector_tick_def)
qed (simp_all add: is_collector_tick_def)

section \<open>The component's properties\<close>

text \<open>
  C32: One package is sent for each organization whose quota is known, in their order and for no other,
  in whatever order labels and annotations are visited: it has the custom tags and the tags of the
  organization, their hash in its key, and the memory limit of the last quota with the
  organization's quota identifier as its only point.
\<close>

theorem pushMetrics_packages:
  assumes "collector_source o1 = Ret src"
  shows "\<exists>ps. pushMetrics rng now o1 = Ret ps \<and>
    list_all2 (package_of_org (oc_customTags o1) (fst (os_GetV2OrgQuotas src)))
      (filter (\<lambda>org. quotas_of (fst (os_GetV2OrgQuotas src)) org \<noteq> []) (fst (os_GetV3Orgs src))) ps"
  using assms orgs_loop_packages by (auto simp: pushMetrics_def)

definition sample_org :: V3Organization where
  "sample_org = \<lparr>org_Name = ''o'', org_GUID = ''g'', org_CreatedAt = [], org_UpdatedAt = [], org_Suspended = Some True,
     org_Relationships = [(''quota'', ''q'')], org_Labels = [(''a'', ''1''), (''b'', ''2'')], org_Annotations = []\<rparr>"

definition sample_collector :: OrgCollector where
  "sample_collector = \<lparr>oc_cfClient = Some
       \<lparr>os_GetV3Orgs = ([sample_org, sample_org\<lparr>org_Relationships := []\<rparr>], None),
        os_GetV2OrgQuotas = ([\<lparr>oq_GUID = ''q'', oq_MemoryLimit = 5\<rparr>, \<lparr>oq_GUID = ''q'', oq_MemoryLimit = 6\<rparr>], None)\<rparr>,
     oc_dcaClient = None, oc_customTags = [''env:x''], oc_queryInterval = 600\<rparr>"

theorem pushMetrics_packages_witness:
  "\<exists>p. pushMetrics (\<lambda>_ _. rev) (\<lambda>_. 3) sample_collector = Ret [p] \<and>
     map pt_Value (mv_Points (mp_Value p)) = [f64_of_int 6]"
proof -
  obtain src where src: "collector_source sample_collector = Ret src"
    "fst (os_GetV2OrgQuotas src) = [\<lparr>oq_GUID = ''q'', oq_MemoryLimit = 5\<rparr>, \<lparr>oq_GUID = ''q'', oq_MemoryLimit = 6\<rparr>]"
    "fst (os_GetV3Orgs src) = [sample_org, sample_org\<lparr>org_Relationships := []\<rparr>]"
    by (simp add: collector_source_def sample_collector_def)
  from pushMetrics_packages [OF src(1), of "\<lambda>_ _. rev" "\<lambda>_. 3"] src(2,3) show ?thesis
    by (auto simp: quotas_of_def sample_org_def gget_str_def list_all2_Cons1 package_of_org_def)
qed

lemma collector_run_eq:
  "collector_run o1 es =
    (if oc_queryInterval o1 = 0 then Panic else Ret (1 + length (takeWhile is_collector_tick es)))"
proof (cases "oc_queryInterval o1 = 0")
  case False
  obtain p j where pj: "GetTickerWithJitter (oc_queryInterval o1) f64_tenth = Ret (p, j)"
    using GetTickerWithJitter_no_panic [OF False] by blast
  have "jitterWait j rnd \<noteq> Panic" for rnd
    using GetTickerWithJitter_no_panic [OF False, of rnd] pj by auto
  with pj False collector_events_count [of j es 1] show ?thesis by (simp add: collector_run_def)
qed (simp add: collector_run_def GetTickerWithJitter_zero)

text \<open>
  The collector collects once at the start and once per tick until it is stopped, and does not
  panic, for every interval but zero: the shortened period and the bound of the random wait stay
  positive through the rounding of both products. With the interval zero it panics at once.
\<close>

lemma collector_run_counts:
  "collector_run o1 es =
    (if oc_queryInterval o1 = 0 then Panic else Ret (1 + length (takeWhile is_collector_tick es)))"
  by (rule collector_run_eq)

end
