(* ===== verification/Nozzle_System.thy ===== *)
theory Nozzle_System
  imports Nozzle Org_Collector
begin

text \<open>
  The goroutines of the nozzle over the shared state, each a step relation: the consumer of the firehose,
  the workers and the two readers of \<^verbatim>\<open>internal/nozzle/workers.go\<close>, the refresh of the app cache, the
  collector of the organizations with the goroutines that it starts, and the main goroutine with its
  flushes and its end. A step is what a goroutine does between two synchronizations: an operation on a
  channel, the map's or the cache's lock, or an answer from the network. A send on a buffered channel is
  a step that is only possible when there is room; a send on an unbuffered one is a step of both sides.

  Beside the program's state there are history variables, which no step reads: what was sent on
  and read from the channels and what was taken to be posted.
\<close>

section \<open>The system\<close>

text \<open>
  A worker that parses the metrics of an app looks the app up in the cache, asks for it when it is missing,
  adds the answer to the cache and parses the envelope with the cached app, whose key it keeps; then it
  sends what it has.
\<close>

datatype worker =
    Idle
  | LookingUp Envelope
  | Fetching Envelope
  | Adding CFApplication Envelope
  | ParsingApp string Envelope
  | SendMetrics "MetricPackage list"
  | SendLog LogMessage
  | Stopped

text \<open>
  The refresh of the app cache: it fetches the apps, adds them one by one and marks the cache; the flag
  tells the first warm-up, after which the ticker is made. Waiting the random time after a tick is a
  state of its own.
\<close>

datatype refresh_pc =
    RefreshOff
  | FetchingApps bool
  | AddingApps bool "CFApplication list"
  | MakingTicker
  | RefreshWaiting
  | RefreshJitter

text \<open>The loop of the collector, and the goroutines that it starts: each collects and then sends.\<close>

datatype collector_pc = CollectorOff | CollectorStarting | CollectorWaiting | CollectorJitter
datatype push = Collecting | SendingPackages "MetricPackage list" | Pushed

text \<open>
  Where the main goroutine is. The flag tells the last flush, after the workers were stopped,
  from those of the ticks; the number is that of the account whose turn it is. Posting metrics also
  has the map, the count of received messages and the time that were taken at its start.
\<close>

datatype main_pc =
    Starting
  | Running
  | PostingMetrics bool MetricsMap uint64 int nat
  | MetricsPosted bool
  | TakingLogs bool
  | PostingLogs bool "LogMessage list" nat
  | LogsPosted bool
  | EndOfTick
  | StopRequested
  | Stopping nat
  | StoppingCollector
  | LastFlush
  | Finished

record System =
  sy_nozzle :: Nozzle
  sy_cache :: AppCache
  sy_batch :: "Envelope list"
  sy_workers :: "worker list"
  sy_metricsReader :: bool
  sy_logsReader :: bool
  sy_refresh :: refresh_pc
  sy_refreshStop :: bool
  sy_collector :: collector_pc
  sy_pushes :: "push list"
  sy_main :: main_pc
  sy_crashed :: bool
  sy_sent :: "MetricPackage list list"
  sy_read :: "MetricPackage list list"
  sy_taken :: "MetricsMap list"
  sy_sentLogs :: "LogMessage list"
  sy_takenLogs :: "LogMessage list list"

text \<open>
  What does not change: the configuration, the processor, the clients and their libraries, and the
  collector of the organizations. The remote APIs may answer differently each time: where a goroutine
  asks one, the step takes any source in place of the one that the processor or the collector has.
\<close>

record 'u world =
  w_config :: Config
  w_processor :: Processor
  w_clients :: "Client list"
  w_compress :: compressor
  w_urls :: "'u url_ops"
  w_collector :: "OrgCollector option"

definition parser_at :: "app_source \<Rightarrow> AppParser \<Rightarrow> AppParser" where
  "parser_at src am =
     (if am_dcaClient am \<noteq> None then am\<lparr>am_dcaClient := Some src\<rparr>
      else am\<lparr>am_cfClient := map_option (\<lambda>_. src) (am_cfClient am)\<rparr>)"

definition processor_at :: "app_source \<Rightarrow> Processor \<Rightarrow> Processor" where
  "processor_at src p = p\<lparr>prc_appMetrics := map_option (parser_at src) (prc_appMetrics p)\<rparr>"

definition collector_at :: "org_source \<Rightarrow> OrgCollector \<Rightarrow> OrgCollector" where
  "collector_at src oc =
     (if oc_dcaClient oc \<noteq> None then oc\<lparr>oc_dcaClient := Some src\<rparr> 
      else oc\<lparr>oc_cfClient := map_option (\<lambda>_. src) (oc_cfClient oc)\<rparr>)"

text \<open>When the goroutines have been started and the main goroutine enters \<^verbatim>\<open>run\<close>.\<close>

definition initial :: "'u world \<Rightarrow> AppCache \<Rightarrow> System" where
  "initial w cache =
     \<lparr>sy_nozzle = NewNozzle, sy_cache = cache, sy_batch = [],
      sy_workers = replicate (nat (cfg_NumWorkers (w_config w))) Idle,
      sy_metricsReader = True, sy_logsReader = cfg_EnableApplicationLogs (w_config w),
      sy_refresh = (case prc_appMetrics (w_processor w) of None \<Rightarrow> RefreshOff | Some _ \<Rightarrow> FetchingApps True),
      sy_refreshStop = False,
      sy_collector = (case w_collector w of None \<Rightarrow> CollectorOff | Some _ \<Rightarrow> CollectorStarting),
      sy_pushes = [], sy_main = Starting, sy_crashed = False,
      sy_sent = [], sy_read = [], sy_taken = [], sy_sentLogs = [], sy_takenLogs = []\<rparr>"

section \<open>The consumer of the firehose\<close>

text \<open>The stream returns batches of envelopes, which are sent one by one.\<close>

inductive consumer_step :: "System \<Rightarrow> System \<Rightarrow> bool" where
  stream: "sy_batch s = [] \<Longrightarrow> consumer_step s (s\<lparr>sy_batch := es\<rparr>)"
| receive:
    "sy_batch s = e # es \<Longrightarrow> length (nz_messages (sy_nozzle s)) < messages_cap \<Longrightarrow>
     consumer_step s
       (s\<lparr>sy_nozzle := (sy_nozzle s)\<lparr>nz_messages := nz_messages (sy_nozzle s) @ [e]\<rparr>, sy_batch := es\<rparr>)"

section \<open>The workers\<close>

text \<open>
  What a worker does with a message it has received: the nozzle's next state and what the worker goes on
  to do. Looking up the app of a log is the only use of the cache here.
\<close>

definition is_log :: "message \<Rightarrow> bool" where
  "is_log m \<longleftrightarrow> (case m of Envelope_Log _ \<Rightarrow> True | _ \<Rightarrow> False)"

text \<open>
  A container metric is the app parser's, if it is configured and the cache is warm. Without an identifier
  of the app there are no packages.
\<close>

definition app_metric :: "Processor \<Rightarrow> AppCache \<Rightarrow> Envelope \<Rightarrow> worker" where
  "app_metric p cache envelope =
     (if prc_appMetrics p = None \<or> \<not> IsContainerMetric (ev_Message envelope) \<or> \<not> IsWarmedUp cache then Idle
      else if ev_SourceId envelope = [] then SendMetrics [] else LookingUp envelope)"

definition work_message ::
  "'u world \<Rightarrow> (nat \<Rightarrow> (string, string) gomap \<Rightarrow> (string, string) gomap) \<Rightarrow> AppCache \<Rightarrow> Nozzle \<Rightarrow> Envelope
     \<Rightarrow> (Nozzle \<times> worker) outcome" where
  "work_message w rng cache n envelope =
     (let p = w_processor w
      in if \<not> keepMessage (w_config w) envelope then Ret (n, Idle)
         else if cfg_EnableApplicationLogs (w_config w) \<and> is_log (ev_Message envelope) then
           bind_outcome (ProcessLog (w_config w) p rng cache envelope) (\<lambda>r.
             Ret (n, case r of None \<Rightarrow> Idle | Some l \<Rightarrow> SendLog l))
         else
           bind_outcome (ParseMetrics (infra_parser p (prc_customTags p)) envelope) (\<lambda>r.
             Ret (handleMessage n envelope,
                  case r of Inr metricsPackages \<Rightarrow> SendMetrics metricsPackages | Inl err \<Rightarrow> app_metric p cache envelope)))"

text \<open>The steps with the cache. A missing client for the request and a missing gauge entry panic.\<close>

inductive app_step :: "'u world \<Rightarrow> AppCache \<times> worker \<Rightarrow> AppCache \<times> worker \<Rightarrow> bool" for w where
  found:
    "AppCache_Get c (ev_SourceId e) = Some app \<Longrightarrow> app_step w (c, LookingUp e) (c, ParsingApp (ev_SourceId e) e)"
| missing: "AppCache_Get c (ev_SourceId e) = None \<Longrightarrow> app_step w (c, LookingUp e) (c, Fetching e)"
| fetched:
    "prc_appMetrics (w_processor w) = Some am \<Longrightarrow> fetch_app (parser_at src am) (ev_SourceId e) = Some (Inr cfapp) \<Longrightarrow>
     app_step w (c, Fetching e) (c, Adding cfapp e)"
| not_fetched:
    "prc_appMetrics (w_processor w) = Some am \<Longrightarrow> fetch_app (parser_at src am) (ev_SourceId e) = Some (Inl err) \<Longrightarrow>
     app_step w (c, Fetching e) (c, Idle)"
| add:
    "AppCache_Add (w_config w) c cfapp = (c', app) \<Longrightarrow>
     app_step w (c, Adding cfapp e) (c', case app of None \<Rightarrow> SendMetrics [] | Some _ \<Rightarrow> ParsingApp (cf_GUID cfapp) e)"
| parse:
    "prc_appMetrics (w_processor w) = Some am \<Longrightarrow> AppCache_Get c key = Some app \<Longrightarrow>
     parse_app am now c key app e = Ret (c', Inr metricsPackages) \<Longrightarrow>
     app_step w (c, ParsingApp key e) (c', SendMetrics metricsPackages)"

inductive app_panic :: "'u world \<Rightarrow> AppCache \<times> worker \<Rightarrow> bool" for w where
  fetch_panic:
    "prc_appMetrics (w_processor w) = Some am \<Longrightarrow> fetch_app (parser_at src am) (ev_SourceId e) = None \<Longrightarrow>
     app_panic w (c, Fetching e)"
| parse_panic:
    "prc_appMetrics (w_processor w) = Some am \<Longrightarrow> AppCache_Get c key = Some app \<Longrightarrow> parse_app am now c key app e = Panic \<Longrightarrow>
     app_panic w (c, ParsingApp key e)"

inductive_cases app_step_cases: "app_step w (c, x) (c', x')"
inductive_cases app_panic_cases: "app_panic w (c, x)"

inductive worker_step :: "'u world \<Rightarrow> System \<Rightarrow> System \<Rightarrow> bool" for w where
  work:
    "i < length (sy_workers s) \<Longrightarrow> sy_workers s ! i = Idle \<Longrightarrow> nz_messages (sy_nozzle s) = e # es \<Longrightarrow>
     work_message w rng (sy_cache s) ((sy_nozzle s)\<lparr>nz_messages := es\<rparr>) e = Ret (n, next) \<Longrightarrow>
     worker_step w s (s\<lparr>sy_nozzle := n, sy_workers := (sy_workers s)[i := next]\<rparr>)"
| work_panic:
    "i < length (sy_workers s) \<Longrightarrow> sy_workers s ! i = Idle \<Longrightarrow> nz_messages (sy_nozzle s) = e # es \<Longrightarrow>
     work_message w rng (sy_cache s) ((sy_nozzle s)\<lparr>nz_messages := es\<rparr>) e = Panic \<Longrightarrow>
     worker_step w s (s\<lparr>sy_crashed := True\<rparr>)"
| app:
    "i < length (sy_workers s) \<Longrightarrow> app_step w (sy_cache s, sy_workers s ! i) (cache, next) \<Longrightarrow>
     worker_step w s (s\<lparr>sy_cache := cache, sy_workers := (sy_workers s)[i := next]\<rparr>)"
| app_panic:
    "i < length (sy_workers s) \<Longrightarrow> app_panic w (sy_cache s, sy_workers s ! i) \<Longrightarrow>
     worker_step w s (s\<lparr>sy_crashed := True\<rparr>)"
| send_metrics:
    "i < length (sy_workers s) \<Longrightarrow> sy_workers s ! i = SendMetrics pkg \<Longrightarrow>
     length (nz_processedMetrics (sy_nozzle s)) < processed_cap \<Longrightarrow>
     worker_step w s
       (s\<lparr>sy_nozzle := (sy_nozzle s)\<lparr>nz_processedMetrics := nz_processedMetrics (sy_nozzle s) @ [pkg]\<rparr>,
          sy_workers := (sy_workers s)[i := Idle], sy_sent := sy_sent s @ [pkg]\<rparr>)"
| send_log:
    "i < length (sy_workers s) \<Longrightarrow> sy_workers s ! i = SendLog l \<Longrightarrow>
     length (nz_processedLogs (sy_nozzle s)) < processed_cap \<Longrightarrow>
     worker_step w s
       (s\<lparr>sy_nozzle := (sy_nozzle s)\<lparr>nz_processedLogs := nz_processedLogs (sy_nozzle s) @ [l]\<rparr>,
          sy_workers := (sy_workers s)[i := Idle], sy_sentLogs := sy_sentLogs s @ [l]\<rparr>)"

section \<open>The readers\<close>

inductive metrics_reader_step :: "System \<Rightarrow> System \<Rightarrow> bool" where
  read_metrics:
    "sy_metricsReader s \<Longrightarrow> nz_processedMetrics (sy_nozzle s) = pkg # pkgs \<Longrightarrow>
     metrics_reader_step s
       (s\<lparr>sy_nozzle := read_metrics ((sy_nozzle s)\<lparr>nz_processedMetrics := pkgs\<rparr>) pkg, sy_read := sy_read s @ [pkg]\<rparr>)"

inductive logs_reader_step :: "System \<Rightarrow> System \<Rightarrow> bool" where
  read_logs:
    "sy_logsReader s \<Longrightarrow> nz_processedLogs (sy_nozzle s) = l # ls \<Longrightarrow>
     logs_reader_step s (s\<lparr>sy_nozzle := read_log ((sy_nozzle s)\<lparr>nz_processedLogs := ls\<rparr>) l\<rparr>)"

section \<open>The refresh of the app cache\<close>

text \<open>When a warm-up ends, whether it failed or not, the first one goes on to make the ticker.\<close>

definition warmed_up :: "bool \<Rightarrow> refresh_pc" where
  "warmed_up first = (if first then MakingTicker else RefreshWaiting)"

definition mark_warm :: "AppCache \<Rightarrow> AppCache" where
  "mark_warm c = (if \<not> IsWarmedUp c then SetWarmedUp c else c)"

definition refresh_ticker :: "AppParser \<Rightarrow> (int \<times> int) outcome" where
  "refresh_ticker am = GetTickerWithJitter (grab_seconds (am_grabInterval am)) f64_tenth"

inductive refresh_step :: "'u world \<Rightarrow> System \<Rightarrow> System \<Rightarrow> bool" for w where
  fetch_failed:
    "prc_appMetrics (w_processor w) = Some am \<Longrightarrow> sy_refresh s = FetchingApps first \<Longrightarrow>
     warmup_list (parser_at src am) = Inl err \<Longrightarrow>
     refresh_step w s (s\<lparr>sy_refresh := warmed_up first\<rparr>)"
| fetch:
    "prc_appMetrics (w_processor w) = Some am \<Longrightarrow> sy_refresh s = FetchingApps first \<Longrightarrow>
     warmup_list (parser_at src am) = Inr cfapps \<Longrightarrow>
     refresh_step w s (s\<lparr>sy_refresh := AddingApps first cfapps\<rparr>)"
| add_app:
    "sy_refresh s = AddingApps first (cfapp # cfapps) \<Longrightarrow>
     refresh_step w s
       (s\<lparr>sy_cache := fst (AppCache_Add (w_config w) (sy_cache s) cfapp), sy_refresh := AddingApps first cfapps\<rparr>)"
| added:
    "sy_refresh s = AddingApps first [] \<Longrightarrow>
     refresh_step w s (s\<lparr>sy_cache := mark_warm (sy_cache s), sy_refresh := warmed_up first\<rparr>)"
| make_ticker:
    "prc_appMetrics (w_processor w) = Some am \<Longrightarrow> sy_refresh s = MakingTicker \<Longrightarrow>
     refresh_ticker am = Ret (period, jitterMax) \<Longrightarrow>
     refresh_step w s (s\<lparr>sy_refresh := RefreshWaiting\<rparr>)"
| make_ticker_panic:
    "prc_appMetrics (w_processor w) = Some am \<Longrightarrow> sy_refresh s = MakingTicker \<Longrightarrow> refresh_ticker am = Panic \<Longrightarrow>
     refresh_step w s (s\<lparr>sy_crashed := True\<rparr>)"
| refresh_tick: "sy_refresh s = RefreshWaiting \<Longrightarrow> refresh_step w s (s\<lparr>sy_refresh := RefreshJitter\<rparr>)"
| refresh_jitter:
    "prc_appMetrics (w_processor w) = Some am \<Longrightarrow> sy_refresh s = RefreshJitter \<Longrightarrow>
     refresh_ticker am = Ret (period, jitterMax) \<Longrightarrow> jitterWait jitterMax rnd = Ret jitter \<Longrightarrow>
     refresh_step w s (s\<lparr>sy_refresh := FetchingApps False\<rparr>)"
| refresh_jitter_panic:
    "prc_appMetrics (w_processor w) = Some am \<Longrightarrow> sy_refresh s = RefreshJitter \<Longrightarrow>
     refresh_ticker am = Ret (period, jitterMax) \<Longrightarrow> jitterWait jitterMax rnd = Panic \<Longrightarrow>
     refresh_step w s (s\<lparr>sy_crashed := True\<rparr>)"
| refresh_stop:
    "sy_refresh s = RefreshWaiting \<Longrightarrow> sy_refreshStop s \<Longrightarrow>
     refresh_step w s (s\<lparr>sy_refresh := RefreshOff, sy_refreshStop := False\<rparr>)"

section \<open>The collector of the organizations\<close>

definition collector_ticker :: "OrgCollector \<Rightarrow> (int \<times> int) outcome" where
  "collector_ticker oc = GetTickerWithJitter (oc_queryInterval oc) f64_tenth"

inductive collector_step :: "'u world \<Rightarrow> System \<Rightarrow> System \<Rightarrow> bool" for w where
  collector_start:
    "w_collector w = Some oc \<Longrightarrow> sy_collector s = CollectorStarting \<Longrightarrow> collector_ticker oc = Ret (period, jitterMax) \<Longrightarrow>
     collector_step w s (s\<lparr>sy_collector := CollectorWaiting, sy_pushes := sy_pushes s @ [Collecting]\<rparr>)"
| collector_start_panic:
    "w_collector w = Some oc \<Longrightarrow> sy_collector s = CollectorStarting \<Longrightarrow> collector_ticker oc = Panic \<Longrightarrow>
     collector_step w s (s\<lparr>sy_crashed := True\<rparr>)"
| collector_tick:
    "sy_collector s = CollectorWaiting \<Longrightarrow> collector_step w s (s\<lparr>sy_collector := CollectorJitter\<rparr>)"
| collector_jitter:
    "w_collector w = Some oc \<Longrightarrow> sy_collector s = CollectorJitter \<Longrightarrow> collector_ticker oc = Ret (period, jitterMax) \<Longrightarrow>
     jitterWait jitterMax rnd = Ret jitter \<Longrightarrow>
     collector_step w s (s\<lparr>sy_collector := CollectorWaiting, sy_pushes := sy_pushes s @ [Collecting]\<rparr>)"
| collector_jitter_panic:
    "w_collector w = Some oc \<Longrightarrow> sy_collector s = CollectorJitter \<Longrightarrow> collector_ticker oc = Ret (period, jitterMax) \<Longrightarrow>
     jitterWait jitterMax rnd = Panic \<Longrightarrow>
     collector_step w s (s\<lparr>sy_crashed := True\<rparr>)"

inductive push_step :: "'u world \<Rightarrow> System \<Rightarrow> System \<Rightarrow> bool" for w where
  collect:
    "w_collector w = Some oc \<Longrightarrow> i < length (sy_pushes s) \<Longrightarrow> sy_pushes s ! i = Collecting \<Longrightarrow>
     pushMetrics orders now (collector_at osrc oc) = Ret pkg \<Longrightarrow>
     push_step w s (s\<lparr>sy_pushes := (sy_pushes s)[i := SendingPackages pkg]\<rparr>)"
| collect_panic:
    "w_collector w = Some oc \<Longrightarrow> i < length (sy_pushes s) \<Longrightarrow> sy_pushes s ! i = Collecting \<Longrightarrow>
     pushMetrics orders now (collector_at osrc oc) = Panic \<Longrightarrow>
     push_step w s (s\<lparr>sy_crashed := True\<rparr>)"
| push:
    "i < length (sy_pushes s) \<Longrightarrow> sy_pushes s ! i = SendingPackages pkg \<Longrightarrow>
     length (nz_processedMetrics (sy_nozzle s)) < processed_cap \<Longrightarrow>
     push_step w s
       (s\<lparr>sy_nozzle := (sy_nozzle s)\<lparr>nz_processedMetrics := nz_processedMetrics (sy_nozzle s) @ [pkg]\<rparr>,
          sy_pushes := (sy_pushes s)[i := Pushed], sy_sent := sy_sent s @ [pkg]\<rparr>)"

section \<open>The main goroutine\<close>

text \<open>\<^verbatim>\<open>run\<close>: it makes the ticker of the flushes, then each tick is a flush, until it is told to stop.\<close>

inductive run_step :: "'u world \<Rightarrow> System \<Rightarrow> System \<Rightarrow> bool" for w where
  run:
    "sy_main s = Starting \<Longrightarrow> flush_ticker (w_config w) = Ret period \<Longrightarrow>
     run_step w s (s\<lparr>sy_main := Running\<rparr>)"
| run_panic:
    "sy_main s = Starting \<Longrightarrow> flush_ticker (w_config w) = Panic \<Longrightarrow> run_step w s (s\<lparr>sy_crashed := True\<rparr>)"
| tick:
    "sy_main s = Running \<Longrightarrow> take_metrics (sy_nozzle s) = (m, n) \<Longrightarrow>
     run_step w s
       (s\<lparr>sy_nozzle := n, sy_taken := sy_taken s @ [m],
          sy_main := PostingMetrics False m (nz_totalMessagesReceived (sy_nozzle s)) timestamp 0\<rparr>)"
| end_of_tick:
    "sy_main s = EndOfTick \<Longrightarrow> end_tick (sy_nozzle s) = Ret n \<Longrightarrow>
     run_step w s (s\<lparr>sy_nozzle := n, sy_main := Running\<rparr>)"
| end_of_tick_panic:
    "sy_main s = EndOfTick \<Longrightarrow> end_tick (sy_nozzle s) = Panic \<Longrightarrow> run_step w s (s\<lparr>sy_crashed := True\<rparr>)"
| stop: "sy_main s = Running \<Longrightarrow> run_step w s (s\<lparr>sy_main := StopRequested\<rparr>)"

text \<open>
  The posts of \<^verbatim>\<open>postMetrics\<close> and \<^verbatim>\<open>postLogs\<close>: one account after the other, then the total and the
  alert. The last flush leaves out the logs when application logs are not enabled.
\<close>

inductive flush_step :: "'u world \<Rightarrow> System \<Rightarrow> System \<Rightarrow> bool" for w where
  post_metrics:
    "sy_main s = PostingMetrics final m received timestamp i \<Longrightarrow> i < length (w_clients w) \<Longrightarrow>
     post_account (\<lambda>_. PostMetrics (w_compress w) rng (w_urls w) http) timestamp received i (w_clients w ! i)
       (m, sy_nozzle s) = Ret (m', n) \<Longrightarrow>
     flush_step w s (s\<lparr>sy_nozzle := n, sy_main := PostingMetrics final m' received timestamp (i + 1)\<rparr>)"
| post_metrics_panic:
    "sy_main s = PostingMetrics final m received timestamp i \<Longrightarrow> i < length (w_clients w) \<Longrightarrow>
     post_account (\<lambda>_. PostMetrics (w_compress w) rng (w_urls w) http) timestamp received i (w_clients w ! i)
       (m, sy_nozzle s) = Panic \<Longrightarrow>
     flush_step w s (s\<lparr>sy_crashed := True\<rparr>)"
| count_metrics:
    "sy_main s = PostingMetrics final m received timestamp i \<Longrightarrow> \<not> i < length (w_clients w) \<Longrightarrow>
     flush_step w s (s\<lparr>sy_nozzle := add_metrics_sent (sy_nozzle s), sy_main := MetricsPosted final\<rparr>)"
| metrics_posted:
    "sy_main s = MetricsPosted final \<Longrightarrow>
     flush_step w s
       (s\<lparr>sy_nozzle := ResetSlowConsumerError (sy_nozzle s),
          sy_main := (if final \<and> \<not> cfg_EnableApplicationLogs (w_config w) then Finished else TakingLogs final)\<rparr>)"
| take_logs:
    "sy_main s = TakingLogs final \<Longrightarrow> take_logs (sy_nozzle s) = (buffer, n) \<Longrightarrow>
     flush_step w s
       (s\<lparr>sy_nozzle := n, sy_takenLogs := sy_takenLogs s @ [buffer], sy_main := PostingLogs final buffer 0\<rparr>)"
| post_logs:
    "sy_main s = PostingLogs final buffer i \<Longrightarrow> i < length (w_clients w) \<Longrightarrow>
     log_account (\<lambda>_. PostLogs (w_compress w) (w_urls w) http) i (w_clients w ! i) buffer (sy_nozzle s) = Ret n \<Longrightarrow>
     flush_step w s (s\<lparr>sy_nozzle := n, sy_main := PostingLogs final buffer (i + 1)\<rparr>)"
| post_logs_panic:
    "sy_main s = PostingLogs final buffer i \<Longrightarrow> i < length (w_clients w) \<Longrightarrow>
     log_account (\<lambda>_. PostLogs (w_compress w) (w_urls w) http) i (w_clients w ! i) buffer (sy_nozzle s) = Panic \<Longrightarrow>
     flush_step w s (s\<lparr>sy_crashed := True\<rparr>)"
| count_logs:
    "sy_main s = PostingLogs final buffer i \<Longrightarrow> \<not> i < length (w_clients w) \<Longrightarrow>
     flush_step w s (s\<lparr>sy_nozzle := add_logs_sent (sy_nozzle s), sy_main := LogsPosted final\<rparr>)"
| logs_posted:
    "sy_main s = LogsPosted final \<Longrightarrow>
     flush_step w s
       (s\<lparr>sy_nozzle := ResetSlowConsumerError (sy_nozzle s), sy_main := (if final then Finished else EndOfTick)\<rparr>)"

text \<open>
  \<^verbatim>\<open>stopWorkers\<close>: the message to the cache's refresh is put into its channel, which has room for one.
  The other messages are received by any goroutine that is ready; when none is before the time-out
  the loop is left.
\<close>

inductive stopWorkers_step :: "'u world \<Rightarrow> System \<Rightarrow> System \<Rightarrow> bool" for w where
  stop_refresh:
    "sy_main s = StopRequested \<Longrightarrow>
     stopWorkers_step w s
       (s\<lparr>sy_refreshStop := (sy_refreshStop s \<or> StopAppMetrics (w_processor w) \<noteq> []),
          sy_main := Stopping (nat (stopWorkers_count (w_config w)))\<rparr>)"
| stop_worker:
    "sy_main s = Stopping (Suc k) \<Longrightarrow> i < length (sy_workers s) \<Longrightarrow> sy_workers s ! i = Idle \<Longrightarrow>
     stopWorkers_step w s (s\<lparr>sy_workers := (sy_workers s)[i := Stopped], sy_main := Stopping k\<rparr>)"
| stop_metrics_reader:
    "sy_main s = Stopping (Suc k) \<Longrightarrow> sy_metricsReader s \<Longrightarrow>
     stopWorkers_step w s (s\<lparr>sy_metricsReader := False, sy_main := Stopping k\<rparr>)"
| stop_logs_reader:
    "sy_main s = Stopping (Suc k) \<Longrightarrow> sy_logsReader s \<Longrightarrow>
     stopWorkers_step w s (s\<lparr>sy_logsReader := False, sy_main := Stopping k\<rparr>)"
| stop_timeout: "sy_main s = Stopping (Suc k) \<Longrightarrow> stopWorkers_step w s (s\<lparr>sy_main := Stopping 0\<rparr>)"
| workers_stopped: "sy_main s = Stopping 0 \<Longrightarrow> stopWorkers_step w s (s\<lparr>sy_main := StoppingCollector\<rparr>)"

text \<open>
  The end of \<^verbatim>\<open>Start\<close>: the collector, if there is one, is told to stop, for which it must be waiting;
  then comes the last flush.
\<close>

inductive shutdown_step :: "'u world \<Rightarrow> System \<Rightarrow> System \<Rightarrow> bool" for w where
  no_collector:
    "sy_main s = StoppingCollector \<Longrightarrow> w_collector w = None \<Longrightarrow> shutdown_step w s (s\<lparr>sy_main := LastFlush\<rparr>)"
| stop_collector:
    "sy_main s = StoppingCollector \<Longrightarrow> w_collector w = Some oc \<Longrightarrow> sy_collector s = CollectorWaiting \<Longrightarrow>
     shutdown_step w s (s\<lparr>sy_collector := CollectorOff, sy_main := LastFlush\<rparr>)"
| last_flush:
    "sy_main s = LastFlush \<Longrightarrow> take_metrics (sy_nozzle s) = (m, n) \<Longrightarrow>
     shutdown_step w s
       (s\<lparr>sy_nozzle := n, sy_taken := sy_taken s @ [m],
          sy_main := PostingMetrics True m (nz_totalMessagesReceived (sy_nozzle s)) timestamp 0\<rparr>)"

section \<open>The system's steps\<close>

inductive nozzle_step :: "'u world \<Rightarrow> System \<Rightarrow> System \<Rightarrow> bool" for w where
  consumer: "consumer_step s s' \<Longrightarrow> nozzle_step w s s'"
| worker: "worker_step w s s' \<Longrightarrow> nozzle_step w s s'"
| metrics_reader: "metrics_reader_step s s' \<Longrightarrow> nozzle_step w s s'"
| logs_reader: "logs_reader_step s s' \<Longrightarrow> nozzle_step w s s'"
| refresh: "refresh_step w s s' \<Longrightarrow> nozzle_step w s s'"
| collector: "collector_step w s s' \<Longrightarrow> nozzle_step w s s'"
| push: "push_step w s s' \<Longrightarrow> nozzle_step w s s'"
| run: "run_step w s s' \<Longrightarrow> nozzle_step w s s'"
| flush: "flush_step w s s' \<Longrightarrow> nozzle_step w s s'"
| stopWorkers: "stopWorkers_step w s s' \<Longrightarrow> nozzle_step w s s'"
| shutdown: "shutdown_step w s s' \<Longrightarrow> nozzle_step w s s'"

text \<open>A panic in a goroutine ends the process: nothing is reached after it.\<close>

inductive reachable :: "'u world \<Rightarrow> System \<Rightarrow> System \<Rightarrow> bool" for w s0 where
  start: "reachable w s0 s0"
| step: "reachable w s0 s \<Longrightarrow> \<not> sy_crashed s \<Longrightarrow> nozzle_step w s s' \<Longrightarrow> reachable w s0 s'"

lemma reachable_trans: "reachable w s1 s2 \<Longrightarrow> reachable w s0 s1 \<Longrightarrow> reachable w s0 s2"
  by (induction rule: reachable.induct) (auto intro: reachable.step)

lemmas background_cases = consumer_step.cases worker_step.cases metrics_reader_step.cases logs_reader_step.cases
  refresh_step.cases collector_step.cases push_step.cases

lemmas main_cases = run_step.cases flush_step.cases stopWorkers_step.cases shutdown_step.cases

text \<open>The main goroutine's steps, for the rules that are about it.\<close>

definition main_step :: "'u world \<Rightarrow> System \<Rightarrow> System \<Rightarrow> bool" where
  "main_step w s s' \<longleftrightarrow> run_step w s s' \<or> flush_step w s s' \<or> stopWorkers_step w s s' \<or> shutdown_step w s s'"

lemma nozzle_step_main:
  "nozzle_step w s s' \<Longrightarrow> main_step w s s' \<or> sy_main s' = sy_main s"
  by (elim nozzle_step.cases) (auto simp: main_step_def elim: background_cases)

section \<open>Invariants\<close>

text \<open>
  What a property of the states must satisfy to hold in every state that the goroutines reach; the
  development's invariants are instances.
\<close>

locale system_invariant =
  fixes w :: "'u world" and s0 :: System and inv :: "System \<Rightarrow> bool"
  assumes initially: "inv s0"
    and kept: "nozzle_step w s s' \<Longrightarrow> inv s \<Longrightarrow> inv s'"
begin

lemma holds: "reachable w s0 s \<Longrightarrow> inv s"
  by (induction rule: reachable.induct) (blast intro: initially kept)+

lemma holds_later: "reachable w s s' \<Longrightarrow> inv s \<Longrightarrow> inv s'"
  by (induction rule: reachable.induct) (blast intro: kept)+

end

end
