(* ===== verification/Package_Types.thy ===== *)
theory Package_Types
  imports Nozzle Org_Collector
begin

text \<open>
  The form of a metric on its way from the parsers to the posts: its tags are sorted, its key has the
  hash of its own tags, it has a point, and its type is one that the API knows or is left open. All
  producers (the infrastructure parser, the app parser, the collector of the organizations and the
  nozzle's internal metrics) make metrics of this form and collecting them keeps it.
\<close>

section \<open>The form of a metric\<close>

definition well_typed :: "MetricPackage \<Rightarrow> bool" where
  "well_typed p \<longleftrightarrow>
     sorted (mv_Tags (mp_Value p)) \<and>
     mk_TagsHash (mp_Key p) = snd (HashTags (mv_Tags (mp_Value p))) \<and>
     mv_Points (mp_Value p) \<noteq> [] \<and>
     mv_Type (mp_Value p) \<in> {[], GAUGE, COUNT}"

definition well_typed_map :: "MetricsMap \<Rightarrow> bool" where
  "well_typed_map m \<longleftrightarrow> list_all (\<lambda>(k, v). well_typed \<lparr>mp_Key = k, mp_Value = v\<rparr>) m"

lemma HashTags_again: "HashTags ts = (s, h) \<Longrightarrow> sorted s \<and> h = snd (HashTags s)"
  by (auto simp: HashTags_def Let_def sorted_sort_id)

lemma set_gput_subset: "set (gput k v m) \<subseteq> insert (k, v) (set m)"
  by (induction m) auto

lemma well_typed_gput:
  "well_typed_map m \<Longrightarrow> well_typed \<lparr>mp_Key = k, mp_Value = v\<rparr> \<Longrightarrow> well_typed_map (gput k v m)"
  using set_gput_subset [of k v m] by (auto simp: well_typed_map_def list_all_iff)

lemma well_typed_gget: "well_typed_map m \<Longrightarrow> gget m k = Some v \<Longrightarrow> well_typed \<lparr>mp_Key = k, mp_Value = v\<rparr>"
  by (auto simp: well_typed_map_def list_all_iff dest: gget_in_set)

section \<open>Collecting\<close>

lemma well_typed_Add: "well_typed_map m \<Longrightarrow> well_typed p \<Longrightarrow> well_typed_map (Add m (mp_Key p) (mp_Value p))"
  by (auto simp: Add_def well_typed_def intro!: well_typed_gput split: option.split dest: well_typed_gget)

lemma well_typed_add_package: "well_typed_map m \<Longrightarrow> list_all well_typed pkg \<Longrightarrow> well_typed_map (add_package m pkg)"
  by (induction pkg arbitrary: m) (simp_all add: add_package_def well_typed_Add)

section \<open>The producers\<close>

lemma ParseMetrics_well_typed: "ParseMetrics p e = Ret (Inr ps) \<Longrightarrow> list_all well_typed ps"
proof -
  obtain s h where sh: "HashTags (parseTags e (ip_Environment p) (ip_DeploymentUUIDRegex p) (ip_JobPartitionUUIDRegex p)
      @ ip_CustomTags p) = (s, h)" by fastforce
  have "list_all well_typed (value_packages e h s nv)" for nv
    using HashTags_again [OF sh] by (simp add: value_packages_def list_all_iff well_typed_def)
  then show "ParseMetrics p e = Ret (Inr ps) \<Longrightarrow> list_all well_typed ps"
    using sh by (auto simp: ParseMetrics_def Let_def bind_outcome_Ret_iff list_all_iff split: message.splits if_splits)
qed

lemma mkMetrics_well_typed: "list_all well_typed (mkMetrics now a names ms ts)"
proof -
  obtain s h where sh: "HashTags (appendTagIfNotEmpty (app_Tags a @ ts) ''source_id'' (app_GUID a)) = (s, h)" by fastforce
  show ?thesis using HashTags_again [OF sh] sh by (auto simp: mkMetrics_def Let_def list_all_iff well_typed_def)
qed

lemma parse_app_well_typed: "parse_app am now c key a e = Ret (c', Inr ps) \<Longrightarrow> list_all well_typed ps"
  by (auto simp: parse_app_def parseContainerMetric_def getMetrics_def bind_outcome_Ret_iff mkMetrics_well_typed Let_def)

lemma AppParser_Parse_well_typed:
  assumes "AppParser_Parse cfg am now c e = Ret (c', Inr ps)"
  shows "list_all well_typed ps"
proof (cases "IsContainerMetric (ev_Message e) \<and> ev_SourceId e \<noteq> []")
  case False
  with assms show ?thesis by (auto simp: AppParser_Parse_def Let_def split: if_splits)
next
  case True
  with assms obtain d r where "getAppData cfg am c (ev_SourceId e) = Ret (d, r)"
    by (auto simp: AppParser_Parse_def Let_def bind_outcome_Ret_iff)
  with True assms show ?thesis
    by (cases r) (auto simp: AppParser_Parse_def Let_def parse_app_well_typed split: option.splits)
qed

lemma parseAppMetric_well_typed: "parseAppMetric cfg p now c e = Ret (c', Inr ps) \<Longrightarrow> list_all well_typed ps"
  by (auto simp: parseAppMetric_def AppParser_Parse_well_typed split: option.splits if_splits)

lemma ProcessMetric_well_typed:
  assumes "ProcessMetric cfg p now c e = Ret (c', Some ps)"
  shows "list_all well_typed ps"
proof -
  obtain r where r: "ParseMetrics (infra_parser p (prc_customTags p)) e = Ret r"
    using assms by (auto simp: ProcessMetric_def bind_outcome_Ret_iff)
  show ?thesis
  proof (cases r)
    case (Inr qs)
    with assms r show ?thesis by (simp add: ProcessMetric_def ParseMetrics_well_typed)
  next
    case (Inl err)
    with assms r obtain d t where "parseAppMetric cfg p now c e = Ret (d, t)"
      by (auto simp: ProcessMetric_def bind_outcome_Ret_iff)
    with assms r Inl show ?thesis by (cases t) (simp_all add: ProcessMetric_def parseAppMetric_well_typed)
  qed
qed

lemma org_package_well_typed: "well_typed (org_package rng now ts org q)"
proof -
  obtain s h where sh: "HashTags (ts @ getTagsFromOrg rng org) = (s, h)" by fastforce
  then show ?thesis using HashTags_again [OF sh] by (simp add: org_package_def well_typed_def)
qed

lemma orgs_loop_well_typed: "list_all well_typed (orgs_loop rng now ts quotas i orgs)"
  by (induction orgs arbitrary: i) (simp_all add: org_package_well_typed split: option.split)

lemma pushMetrics_well_typed: "pushMetrics orders now oc = Ret pkg \<Longrightarrow> list_all well_typed pkg"
  by (auto simp: pushMetrics_def bind_outcome_Ret_iff orgs_loop_well_typed)

lemma put_internal_well_typed:
  assumes "well_typed_map m" and "type \<in> {GAUGE, COUNT}"
  shows "well_typed_map (put_internal client t name type v m)"
proof -
  obtain s h where sh: "HashTags ([''deployment:'' @ dd_deployment client, ''ip:'' @ dd_ip client] @ dd_customTags client) = (s, h)"
    by fastforce
  have "well_typed \<lparr>mp_Key = \<lparr>mk_Name = name, mk_TagsHash = h\<rparr>,
      mp_Value = \<lparr>mv_Tags = s, mv_Points = [\<lparr>pt_Timestamp = t, pt_Value = f64_of_uint64 v\<rparr>], mv_Host = [], mv_Type = type\<rparr>\<rparr>"
    using HashTags_again [OF sh] assms(2) by (simp add: well_typed_def)
  from well_typed_gput [OF assms(1) this] sh show ?thesis
    by (simp add: put_internal_def MakeInternalMetric_def Let_def del: fst_HashTags)
qed

lemma internal_metrics_well_typed: "well_typed_map (fst mn) \<Longrightarrow> well_typed_map (fst (internal_metrics client t r mn))"
  by (cases mn) (simp add: internal_defs put_internal_well_typed)

lemma post_account_well_typed:
  "post_account post t r i c mn = Ret mn' \<Longrightarrow> well_typed_map (fst mn) \<Longrightarrow> well_typed_map (fst mn')"
  using internal_metrics_well_typed [of mn c t r] by (auto simp: post_account_def bind_outcome_Ret_iff split: prod.splits)

end
