(* ===== verification/Nozzle_Inv.thy ===== *)
theory Nozzle_Inv
  imports Nozzle_System Package_Types
begin

text \<open>
  The invariants of the nozzle's goroutines: the accounts of the metrics, logs and messages, the
  capacities of the channels, the invariant of the app cache, and the form of every entry on its way
  from the parsers to the posts. Each goroutine keeps them; the locale \<open>system_invariant\<close> then gives them
  for all reachable states.
\<close>

section \<open>What the operations leave alone\<close>

text \<open>The part of the state that posting and handling a message do not touch.\<close>

definition core :: "Nozzle \<Rightarrow> Envelope list \<times> MetricPackage list list \<times> LogMessage list \<times> MetricsMap \<times> LogMessage list
    \<times> uint64 \<times> bool \<times> bool" where
  "core n = (nz_messages n, nz_processedMetrics n, nz_processedLogs n, nz_metricsMap n, nz_logsBuffer n,
     nz_totalMessagesReceived n, nz_tickedOnce n, nz_firstTick n)"

lemma core_handleMessage [simp]: "core (handleMessage n e) = core n"
  by (simp add: handleMessage_def AlertSlowConsumerError_def core_def split: message.split)

lemma core_reset [simp]: "core (ResetSlowConsumerError n) = core n"
  by (simp add: ResetSlowConsumerError_def core_def)

lemma core_log_account: "log_account post i c buffer n = Ret n' \<Longrightarrow> core n' = core n"
  by (auto simp: log_account_def bind_outcome_Ret_iff core_def)

lemma core_totals [simp]: "core (add_metrics_sent n) = core n" "core (add_logs_sent n) = core n"
  by (simp_all add: add_metrics_sent_def add_logs_sent_def core_def)

lemma core_internal_metrics: "core (snd (internal_metrics client t r mn)) = core (snd mn)"
  by (cases mn) (simp add: internal_defs core_def)

lemma core_post_account: "post_account post t r i c mn = Ret mn' \<Longrightarrow> core (snd mn') = core (snd mn)"
  using core_internal_metrics [of c t r mn]
  by (auto simp: post_account_def bind_outcome_Ret_iff core_def split: prod.splits)

lemma wf_post_account: "post_account post t r i c mn = Ret mn' \<Longrightarrow> wf_gomap (fst mn) \<Longrightarrow> wf_gomap (fst mn')"
  using wf_internal_metrics [of mn c t r] by (auto simp: post_account_def bind_outcome_Ret_iff split: prod.splits)

text \<open>The ways in which a worker handles a message.\<close>

lemma work_message_cases:
  assumes "work_message w rng c n e = Ret (n', next)"
  obtains (ignored) "n' = n" "next = Idle"
  | (log) l where "cfg_EnableApplicationLogs (w_config w)" "n' = n" "next = SendLog l"
  | (infra) ps where "n' = handleMessage n e" "next = SendMetrics ps"
      "ParseMetrics (infra_parser (w_processor w) (prc_customTags (w_processor w))) e = Ret (Inr ps)"
  | (app) "n' = handleMessage n e" "next = app_metric (w_processor w) c e"
proof -
  consider "\<not> keepMessage (w_config w) e"
    | "keepMessage (w_config w) e" "cfg_EnableApplicationLogs (w_config w)" "is_log (ev_Message e)"
    | r where "keepMessage (w_config w) e" "\<not> (cfg_EnableApplicationLogs (w_config w) \<and> is_log (ev_Message e))"
        "ParseMetrics (infra_parser (w_processor w) (prc_customTags (w_processor w))) e = Ret r"
    using assms by (fastforce simp: work_message_def Let_def bind_outcome_Ret_iff split: if_splits)
  then show thesis
  proof cases
    case 2
    with assms obtain r where "n' = n" "next = (case r of None \<Rightarrow> Idle | Some l \<Rightarrow> SendLog l)"
      by (auto simp: work_message_def Let_def bind_outcome_Ret_iff)
    with 2(2) show ?thesis by (cases r) (auto intro: ignored log)
  next
    case (3 r)
    with assms show ?thesis by (cases r) (auto simp: work_message_def Let_def intro: infra app)
  qed (use assms in \<open>auto simp: work_message_def intro: ignored\<close>)
qed

lemma work_message_core: "work_message w rng c n e = Ret (n', next) \<Longrightarrow> core n' = core n \<and> next \<noteq> Stopped"
  by (elim work_message_cases) (simp_all add: app_metric_def)

lemma app_step_next: "app_step w (c, x) (c', x') \<Longrightarrow> x' \<noteq> Stopped \<and> x' \<noteq> SendLog l"
  by (elim app_step_cases) (simp_all split: option.split)

lemma end_tick_Ret:
  "end_tick n = Ret n' \<Longrightarrow> n' = n \<and> \<not> nz_firstTick n \<or>
     n' = n\<lparr>nz_firstTick := False, nz_tickedOnce := True\<rparr> \<and> nz_firstTick n \<and> \<not> nz_tickedOnce n"
  by (auto simp: end_tick_def split: if_splits)

section \<open>The accounts\<close>

definition within_caps :: "System \<Rightarrow> bool" where
  "within_caps s \<longleftrightarrow> length (nz_messages (sy_nozzle s)) \<le> messages_cap \<and>
     length (nz_processedMetrics (sy_nozzle s)) \<le> processed_cap \<and>
     length (nz_processedLogs (sy_nozzle s)) \<le> processed_cap"

text \<open>The points under a key in a sequence of packages.\<close>

definition key_points :: "MetricKey \<Rightarrow> MetricPackage list list \<Rightarrow> Point list" where
  "key_points k pkgs = concat (map (\<lambda>p. mv_Points (mp_Value p)) (filter (\<lambda>p. mp_Key p = k) (concat pkgs)))"

definition metrics_accounted :: "System \<Rightarrow> bool" where
  "metrics_accounted s \<longleftrightarrow>
     sy_sent s = sy_read s @ nz_processedMetrics (sy_nozzle s) \<and>
     (\<forall>k. concat (map (\<lambda>m. points_of m k) (sy_taken s)) @ points_of (nz_metricsMap (sy_nozzle s)) k =
            key_points k (sy_read s))"

definition logs_accounted :: "System \<Rightarrow> bool" where
  "logs_accounted s \<longleftrightarrow>
     sy_sentLogs s = concat (sy_takenLogs s) @ nz_logsBuffer (sy_nozzle s) @ nz_processedLogs (sy_nozzle s)"

definition messages_counted :: "System \<Rightarrow> bool" where
  "messages_counted s \<longleftrightarrow>
     nz_totalMessagesReceived (sy_nozzle s) =
       of_nat (length (sy_read s) + length (concat (sy_takenLogs s)) + length (nz_logsBuffer (sy_nozzle s)))"

definition maps_ok :: "System \<Rightarrow> bool" where
  "maps_ok s \<longleftrightarrow> wf_gomap (nz_metricsMap (sy_nozzle s)) \<and> list_all wf_gomap (sy_taken s) \<and>
     (case sy_main s of PostingMetrics final m received timestamp i \<Rightarrow> wf_gomap m | _ \<Rightarrow> True)"

definition ticked_ok :: "System \<Rightarrow> bool" where
  "ticked_ok s \<longleftrightarrow> nz_tickedOnce (sy_nozzle s) = (\<not> nz_firstTick (sy_nozzle s))"

lemma key_points_append: "key_points k (ps @ qs) = key_points k ps @ key_points k qs"
  by (simp add: key_points_def)

lemma key_points_snoc:
  "key_points k (pkgs @ [pkg]) =
     key_points k pkgs @ concat (map (\<lambda>p. mv_Points (mp_Value p)) (filter (\<lambda>p. mp_Key p = k) pkg))"
  by (simp add: key_points_def)

definition data_inv :: "System \<Rightarrow> bool" where
  "data_inv s \<longleftrightarrow> within_caps s \<and> metrics_accounted s \<and> logs_accounted s \<and> messages_counted s \<and>
     maps_ok s \<and> ticked_ok s"

lemmas data_inv_defs = data_inv_def within_caps_def metrics_accounted_def logs_accounted_def
  messages_counted_def maps_ok_def ticked_ok_def

lemma data_inv_core:
  "core (sy_nozzle s') = core (sy_nozzle s) \<Longrightarrow> sy_sent s' = sy_sent s \<Longrightarrow> sy_read s' = sy_read s \<Longrightarrow>
   sy_taken s' = sy_taken s \<Longrightarrow> sy_sentLogs s' = sy_sentLogs s \<Longrightarrow> sy_takenLogs s' = sy_takenLogs s \<Longrightarrow>
   (maps_ok s \<Longrightarrow> maps_ok s') \<Longrightarrow> data_inv s \<Longrightarrow> data_inv s'"
  by (simp add: data_inv_def within_caps_def metrics_accounted_def logs_accounted_def messages_counted_def
      ticked_ok_def core_def)

lemma worker_data_inv: "worker_step w s s' \<Longrightarrow> data_inv s \<Longrightarrow> data_inv s'"
proof (induction rule: worker_step.induct)
  case (work i s e es rng n nw)
  then show ?case using work_message_core [OF work(4)] by (simp add: data_inv_defs core_def)
qed (simp_all add: data_inv_defs)

lemma metrics_reader_data_inv: "metrics_reader_step s s' \<Longrightarrow> data_inv s \<Longrightarrow> data_inv s'"
proof (induction rule: metrics_reader_step.induct)
  case (read_metrics s pkg pkgs)
  then show ?case
    by (simp add: data_inv_defs read_metrics_def points_of_add_package key_points_snoc wf_add_package flip: append_assoc)
qed

lemma logs_reader_data_inv: "logs_reader_step s s' \<Longrightarrow> data_inv s \<Longrightarrow> data_inv s'"
  by (induction rule: logs_reader_step.induct) (simp add: data_inv_defs read_log_def)

lemma consumer_data_inv: "consumer_step s s' \<Longrightarrow> data_inv s \<Longrightarrow> data_inv s'"
  by (induction rule: consumer_step.induct) (simp_all add: data_inv_defs)

lemma refresh_data_inv: "refresh_step w s s' \<Longrightarrow> data_inv s \<Longrightarrow> data_inv s'"
  by (induction rule: refresh_step.induct) (simp_all add: data_inv_defs)

lemma collector_data_inv: "collector_step w s s' \<Longrightarrow> data_inv s \<Longrightarrow> data_inv s'"
  by (induction rule: collector_step.induct) (simp_all add: data_inv_defs)

lemma push_data_inv: "push_step w s s' \<Longrightarrow> data_inv s \<Longrightarrow> data_inv s'"
  by (induction rule: push_step.induct) (simp_all add: data_inv_defs)

lemma run_data_inv: "run_step w s s' \<Longrightarrow> data_inv s \<Longrightarrow> data_inv s'"
proof (induction rule: run_step.induct)
  case (tick s m n timestamp)
  then show ?case by (auto simp: data_inv_defs take_metrics_def points_of_def)
next
  case (end_of_tick s n)
  then show ?case using end_tick_Ret [OF end_of_tick(2)] by (auto simp: data_inv_defs)
qed (simp_all add: data_inv_defs)

lemma flush_data_inv: "flush_step w s s' \<Longrightarrow> data_inv s \<Longrightarrow> data_inv s'"
proof (induction rule: flush_step.induct)
  case (post_metrics s final m received timestamp i rng http m' n)
  note facts = core_post_account [OF post_metrics(3)] wf_post_account [OF post_metrics(3)]
  show ?case
    by (rule data_inv_core [OF _ _ _ _ _ _ _ post_metrics(4)]) (use post_metrics facts in \<open>simp_all add: maps_ok_def core_def\<close>)
next
  case (post_logs s final buffer i http n)
  note facts = core_log_account [OF post_logs(3)]
  show ?case
    by (rule data_inv_core [OF _ _ _ _ _ _ _ post_logs(4)]) (use post_logs facts in \<open>simp_all add: maps_ok_def core_def\<close>)
next
  case (take_logs s final buffer n)
  then show ?case by (auto simp: data_inv_defs take_logs_def)
qed (simp_all add: data_inv_defs ResetSlowConsumerError_def add_metrics_sent_def add_logs_sent_def)

lemma stopWorkers_data_inv: "stopWorkers_step w s s' \<Longrightarrow> data_inv s \<Longrightarrow> data_inv s'"
  by (induction rule: stopWorkers_step.induct) (simp_all add: data_inv_defs)

lemma shutdown_data_inv: "shutdown_step w s s' \<Longrightarrow> data_inv s \<Longrightarrow> data_inv s'"
proof (induction rule: shutdown_step.induct)
  case (last_flush s m n timestamp)
  then show ?case by (auto simp: data_inv_defs take_metrics_def points_of_def)
qed (simp_all add: data_inv_defs)

lemmas goroutines_data_inv = worker_data_inv metrics_reader_data_inv logs_reader_data_inv consumer_data_inv
  refresh_data_inv collector_data_inv push_data_inv run_data_inv flush_data_inv stopWorkers_data_inv shutdown_data_inv

lemma step_data_inv: "nozzle_step w s s' \<Longrightarrow> data_inv s \<Longrightarrow> data_inv s'"
  by (induction rule: nozzle_step.induct) (blast intro: goroutines_data_inv)+

lemma initial_data_inv: "data_inv (initial w cache)"
  by (simp add: data_inv_defs initial_def NewNozzle_def points_of_def key_points_def)

interpretation accounts: system_invariant w "initial w cache" data_inv for w cache
  by unfold_locales (rule initial_data_inv, rule step_data_inv)

section \<open>The app cache\<close>

definition cache_inv :: "AppCache \<Rightarrow> System \<Rightarrow> bool" where
  "cache_inv cache s \<longleftrightarrow> cache_ok cache \<longrightarrow> cache_ok (sy_cache s)"

lemma mark_warm_ok [simp]: "cache_ok (mark_warm c) \<longleftrightarrow> cache_ok c"
  by (simp add: mark_warm_def SetWarmedUp_def cache_ok_def)

lemma has_source_at [simp]: "has_source p \<Longrightarrow> has_source (processor_at src p)"
  by (auto simp: has_source_def processor_at_def parser_at_def split: option.splits)

lemma parse_app_cache:
  "parse_app am now c key a e = Ret (c', r) \<Longrightarrow> c' = c\<lparr>ac_apps := gput key (a\<lparr>app_Host := parseHost e\<rparr>) (ac_apps c)\<rparr>"
  by (auto simp: parse_app_def Let_def bind_outcome_Ret_iff)

lemma app_step_cache_ok:
  assumes "app_step w (c, x) (c', x')" and "cache_ok c"
  shows "cache_ok c'"
  using assms(1)
proof (cases rule: app_step_cases [consumes 1, case_names found missing fetched not_fetched add parse])
  case (add cfapp app e)
  then show ?thesis using cache.inv_add [OF assms(2), of "w_config w" cfapp] by simp
next
  case (parse am key app now e pkgs)
  then show ?thesis using cache_ok_host [OF assms(2)] by (simp add: parse_app_cache [OF parse(5)])
qed (use assms(2) in simp_all)

text \<open>Only the workers and the refresh change the cache.\<close>

lemma step_cache:
  "nozzle_step w s s' \<Longrightarrow> worker_step w s s' \<or> refresh_step w s s' \<or> sy_cache s' = sy_cache s"
  by (elim nozzle_step.cases) (auto elim: background_cases main_cases)

lemma refresh_cache_ok: "refresh_step w s s' \<Longrightarrow> cache_ok (sy_cache s) \<Longrightarrow> cache_ok (sy_cache s')"
  by (induction rule: refresh_step.induct) (simp_all add: cache.inv_add)

lemma worker_cache_ok: "worker_step w s s' \<Longrightarrow> cache_ok (sy_cache s) \<Longrightarrow> cache_ok (sy_cache s')"
  by (induction rule: worker_step.induct) (simp_all add: app_step_cache_ok)

lemma step_cache_inv: "nozzle_step w s s' \<Longrightarrow> cache_inv cache s \<Longrightarrow> cache_inv cache s'"
  using step_cache [of w s s'] refresh_cache_ok [of w s s'] worker_cache_ok [of w s s'] by (auto simp: cache_inv_def)

interpretation cached: system_invariant w "initial w cache" "cache_inv cache" for w cache
  by unfold_locales (simp add: cache_inv_def initial_def, rule step_cache_inv)

lemma reachable_cache_ok: "reachable w (initial w cache) s \<Longrightarrow> cache_ok cache \<Longrightarrow> cache_ok (sy_cache s)"
  using cached.holds [of w cache s] by (simp add: cache_inv_def)

section \<open>The workers that parse app metrics\<close>

text \<open>
  A worker only looks up the app of a container metric, when the app parser is configured; the app whose
  metrics it parses is in the cache, from which nothing is ever removed.
\<close>

fun worker_ready :: "'u world \<Rightarrow> AppCache \<Rightarrow> worker \<Rightarrow> bool" where
  "worker_ready w c (LookingUp e) \<longleftrightarrow> prc_appMetrics (w_processor w) \<noteq> None \<and> IsContainerMetric (ev_Message e)"
| "worker_ready w c (Fetching e) \<longleftrightarrow> prc_appMetrics (w_processor w) \<noteq> None \<and> IsContainerMetric (ev_Message e)"
| "worker_ready w c (Adding cfapp e) \<longleftrightarrow> prc_appMetrics (w_processor w) \<noteq> None \<and> IsContainerMetric (ev_Message e)"
| "worker_ready w c (ParsingApp key e) \<longleftrightarrow>
     prc_appMetrics (w_processor w) \<noteq> None \<and> IsContainerMetric (ev_Message e) \<and> AppCache_Get c key \<noteq> None"
| "worker_ready w c _ \<longleftrightarrow> True"

definition workers_inv :: "'u world \<Rightarrow> System \<Rightarrow> bool" where
  "workers_inv w s \<longleftrightarrow> list_all (worker_ready w (sy_cache s)) (sy_workers s)"

definition cache_grows :: "AppCache \<Rightarrow> AppCache \<Rightarrow> bool" where
  "cache_grows c c' \<longleftrightarrow> (\<forall>key. AppCache_Get c key \<noteq> None \<longrightarrow> AppCache_Get c' key \<noteq> None)"

lemma AppCache_Add_grows: "cache_grows c (fst (AppCache_Add cfg c x))"
  by (auto simp: cache_grows_def AppCache_Add_def AppCache_Get_def Let_def gget_gput split: option.splits prod.splits)

lemma AppCache_Add_there:
  "AppCache_Add cfg c x = (c', Some app) \<Longrightarrow> AppCache_Get c' (cf_GUID x) \<noteq> None"
  by (auto simp: AppCache_Add_def AppCache_Get_def Let_def gget_gput split: option.splits prod.splits if_splits)

lemma worker_ready_grows: "worker_ready w c x \<Longrightarrow> cache_grows c c' \<Longrightarrow> worker_ready w c' x"
  by (cases x) (auto simp: cache_grows_def)

lemma app_step_ready:
  assumes "app_step w (c, x) (c', x')" and "worker_ready w c x"
  shows "worker_ready w c' x' \<and> cache_grows c c'"
  using assms(1)
proof (cases rule: app_step_cases [consumes 1, case_names found missing fetched not_fetched add parse])
  case (add cfapp app e)
  then show ?thesis
    using AppCache_Add_grows [of c "w_config w" cfapp] AppCache_Add_there [of "w_config w" c cfapp c'] assms(2)
    by (cases app) simp_all
next
  case (parse am key app now e pkgs)
  then show ?thesis
    by (auto simp: parse_app_cache [OF parse(5)] cache_grows_def AppCache_Get_def gget_gput)
qed (use assms(2) in \<open>auto simp: cache_grows_def\<close>)

lemma work_message_ready: "work_message w rng c n e = Ret (n', next) \<Longrightarrow> worker_ready w c' next"
  by (elim work_message_cases) (simp_all add: app_metric_def)

lemma list_all_update: "list_all P xs \<Longrightarrow> P x \<Longrightarrow> list_all P (xs[i := x])"
  using set_update_subset_insert [of xs i x] by (auto simp: list_all_iff)

lemma list_all_nth: "list_all P xs \<Longrightarrow> i < length xs \<Longrightarrow> xs ! i = x \<Longrightarrow> P x"
  by (auto simp: list_all_length)

lemma workers_inv_grows:
  "workers_inv w s \<Longrightarrow> cache_grows (sy_cache s) (sy_cache s') \<Longrightarrow> sy_workers s' = sy_workers s \<Longrightarrow> workers_inv w s'"
  unfolding workers_inv_def by (metis (mono_tags, lifting) list.pred_mono_strong worker_ready_grows)

lemma worker_workers_inv: "worker_step w s s' \<Longrightarrow> workers_inv w s \<Longrightarrow> workers_inv w s'"
proof (induction rule: worker_step.induct)
  case (work i s e es rng n nw)
  then show ?case using work_message_ready [OF work(4)] by (simp add: workers_inv_def list_all_update)
next
  case (app i s c nw)
  have "worker_ready w (sy_cache s) (sy_workers s ! i)" using app(1,3) by (simp add: workers_inv_def list_all_length)
  note step = app_step_ready [OF app(2) this]
  have "workers_inv w (s\<lparr>sy_cache := c\<rparr>)" by (rule workers_inv_grows [OF app(3)]) (simp_all add: step)
  with step show ?case by (simp add: workers_inv_def list_all_update)
qed (simp_all add: workers_inv_def list_all_update)

lemma refresh_workers_inv: "refresh_step w s s' \<Longrightarrow> workers_inv w s \<Longrightarrow> workers_inv w s'"
  by (induction rule: refresh_step.induct)
    (auto elim!: workers_inv_grows simp: AppCache_Add_grows, auto simp: cache_grows_def mark_warm_def SetWarmedUp_def AppCache_Get_def)

lemma step_workers:
  "nozzle_step w s s' \<Longrightarrow> worker_step w s s' \<or> refresh_step w s s' \<or> stopWorkers_step w s s' \<or>
     sy_workers s' = sy_workers s \<and> sy_cache s' = sy_cache s"
  by (elim nozzle_step.cases) (auto elim: background_cases main_cases)

lemma stop_workers_inv: "stopWorkers_step w s s' \<Longrightarrow> workers_inv w s \<Longrightarrow> workers_inv w s'"
  by (induction rule: stopWorkers_step.induct) (simp_all add: workers_inv_def list_all_update)

lemma step_workers_inv: "nozzle_step w s s' \<Longrightarrow> workers_inv w s \<Longrightarrow> workers_inv w s'"
  using step_workers [of w s s'] worker_workers_inv refresh_workers_inv stop_workers_inv
  by (auto simp: workers_inv_def)

lemma initial_workers_inv: "workers_inv w (initial w cache)"
  by (simp add: workers_inv_def initial_def list_all_iff)

interpretation working: system_invariant w "initial w cache" "workers_inv w" for w cache
  by unfold_locales (rule initial_workers_inv, rule step_workers_inv)

section \<open>The form of the metrics\<close>

text \<open>What a worker, a goroutine of the collector and the main goroutine hold.\<close>

fun worker_typed :: "worker \<Rightarrow> bool" where
  "worker_typed (SendMetrics pkg) = list_all well_typed pkg"
| "worker_typed _ = True"

fun push_typed :: "push \<Rightarrow> bool" where
  "push_typed (SendingPackages pkg) = list_all well_typed pkg"
| "push_typed _ = True"

fun main_typed :: "main_pc \<Rightarrow> bool" where
  "main_typed (PostingMetrics final m received timestamp i) = well_typed_map m"
| "main_typed _ = True"

definition typed_inv :: "System \<Rightarrow> bool" where
  "typed_inv s \<longleftrightarrow>
     list_all worker_typed (sy_workers s) \<and> list_all push_typed (sy_pushes s) \<and>
     list_all (list_all well_typed) (nz_processedMetrics (sy_nozzle s)) \<and>
     well_typed_map (nz_metricsMap (sy_nozzle s)) \<and> main_typed (sy_main s)"

lemma work_message_typed:
  assumes "work_message w rng c n e = Ret (n', next)"
  shows "worker_typed next"
  using assms by (elim work_message_cases) (simp_all add: app_metric_def ParseMetrics_well_typed)

lemma app_step_typed: "app_step w (c, x) (c', x') \<Longrightarrow> worker_typed x'"
  by (elim app_step_cases) (auto simp: parse_app_well_typed split: option.split)

lemma worker_typed_inv: "worker_step w s s' \<Longrightarrow> typed_inv s \<Longrightarrow> typed_inv s'"
proof (induction rule: worker_step.induct)
  case (work i s e es rng n nw)
  then show ?case
    using work_message_core [OF work(4)] work_message_typed [OF work(4)]
    by (simp add: typed_inv_def core_def list_all_update)
next
  case (app i s c nw)
  then show ?case using app_step_typed [OF app(2)] by (simp add: typed_inv_def list_all_update)
next
  case (send_metrics i s pkg)
  then have "list_all well_typed pkg"
    using list_all_nth [of worker_typed "sy_workers s" i "SendMetrics pkg"] by (simp add: typed_inv_def)
  with send_metrics show ?case by (simp add: typed_inv_def list_all_update)
qed (simp_all add: typed_inv_def list_all_update)

lemma push_typed_inv: "push_step w s s' \<Longrightarrow> typed_inv s \<Longrightarrow> typed_inv s'"
proof (induction rule: push_step.induct)
  case (collect oc i s orders now osrc pkg)
  then show ?case by (simp add: typed_inv_def list_all_update pushMetrics_well_typed)
next
  case (push i s pkg)
  then have "list_all well_typed pkg"
    using list_all_nth [of push_typed "sy_pushes s" i "SendingPackages pkg"] by (simp add: typed_inv_def)
  with push show ?case by (simp add: typed_inv_def list_all_update)
qed (simp_all add: typed_inv_def)

lemma flush_typed_inv: "flush_step w s s' \<Longrightarrow> typed_inv s \<Longrightarrow> typed_inv s'"
proof (induction rule: flush_step.induct)
  case (post_metrics s final m received timestamp i rng http m' n)
  then show ?case
    using core_post_account [OF post_metrics(3)] post_account_well_typed [OF post_metrics(3)]
    by (simp add: typed_inv_def core_def)
next
  case (post_logs s final buffer i http n)
  then show ?case using core_log_account [OF post_logs(3)] by (simp add: typed_inv_def core_def)
qed (auto simp: typed_inv_def take_logs_def ResetSlowConsumerError_def add_metrics_sent_def add_logs_sent_def)

lemma main_typed_inv:
  "run_step w s s' \<Longrightarrow> typed_inv s \<Longrightarrow> typed_inv s'"
proof (induction rule: run_step.induct)
  case (end_of_tick s n)
  then show ?case using end_tick_Ret [OF end_of_tick(2)] by (auto simp: typed_inv_def)
qed (auto simp: typed_inv_def take_metrics_def well_typed_map_def)

lemma stop_typed_inv: "stopWorkers_step w s s' \<Longrightarrow> typed_inv s \<Longrightarrow> typed_inv s'"
  by (induction rule: stopWorkers_step.induct) (simp_all add: typed_inv_def list_all_update)

lemma shutdown_typed_inv: "shutdown_step w s s' \<Longrightarrow> typed_inv s \<Longrightarrow> typed_inv s'"
  by (induction rule: shutdown_step.induct) (auto simp: typed_inv_def take_metrics_def well_typed_map_def)

lemma reader_typed_inv: "metrics_reader_step s s' \<Longrightarrow> typed_inv s \<Longrightarrow> typed_inv s'"
  by (induction rule: metrics_reader_step.induct) (simp add: typed_inv_def read_metrics_def well_typed_add_package)

lemma other_typed_inv:
  "logs_reader_step s s' \<or> consumer_step s s' \<or> refresh_step w s s' \<or> collector_step w s s' \<Longrightarrow> typed_inv s \<Longrightarrow> typed_inv s'"
  by (elim disjE logs_reader_step.cases consumer_step.cases refresh_step.cases collector_step.cases)
    (simp_all add: typed_inv_def read_log_def)

lemma step_typed_inv: "nozzle_step w s s' \<Longrightarrow> typed_inv s \<Longrightarrow> typed_inv s'"
  by (induction rule: nozzle_step.induct)
    (blast intro: worker_typed_inv push_typed_inv flush_typed_inv main_typed_inv stop_typed_inv shutdown_typed_inv
      reader_typed_inv other_typed_inv)+

lemma initial_typed_inv: "typed_inv (initial w cache)"
  by (simp add: typed_inv_def initial_def NewNozzle_def well_typed_map_def list_all_iff)

interpretation typed: system_invariant w "initial w cache" typed_inv for w cache
  by unfold_locales (rule initial_typed_inv, rule step_typed_inv)

section \<open>The properties of the invariants\<close>

text \<open>
  C2: No metric point is lost, repeated or reordered between the parsers and the posts, in any
  interleaving: under every key, the points of the packages sent to the nozzle are, in order, those in
  the maps taken for posting, those in the current map and those still in the channel.
\<close>

theorem metric_points_conserved:
  assumes "reachable w (initial w cache) s"
  shows "key_points k (sy_sent s) =
    concat (map (\<lambda>m. points_of m k) (sy_taken s)) @ points_of (nz_metricsMap (sy_nozzle s)) k @
    key_points k (nz_processedMetrics (sy_nozzle s))"
proof -
  have "metrics_accounted s" using accounts.holds [OF assms] by (simp add: data_inv_def)
  then show ?thesis by (simp add: metrics_accounted_def key_points_append flip: append_assoc)
qed

definition sample_world :: "string world" where
  "sample_world = \<lparr>w_config = zero_Config\<lparr>cfg_NumWorkers := 1, cfg_EnableApplicationLogs := True,
       cfg_FlushDurationSeconds := 15\<rparr>,
     w_processor = sample_processor, w_clients = [some_client], w_compress = (\<lambda>_. Some ''xy''), w_urls = plain_urls,
     w_collector = Some sample_collector\<rparr>"

text \<open>What the sample collector sends: one package, for its organization with a quota.\<close>

definition sample_package :: MetricPackage where
  "sample_package = org_package (\<lambda>_ m. m) 3 [''env:x''] sample_org \<lparr>oq_GUID = ''q'', oq_MemoryLimit = 6\<rparr>"

lemma sample_push: "\<exists>src. pushMetrics (\<lambda>_ _ m. m) (\<lambda>_. 3) (collector_at src sample_collector) = Ret [sample_package]"
  by (intro exI [of _ "the (oc_cfClient sample_collector)"])
    (simp add: pushMetrics_def collector_source_def collector_at_def sample_collector_def sample_package_def
      quota_map_def sample_org_def gget_str_def)

lemma sample_tickers: "\<exists>p. flush_ticker (w_config sample_world) = Ret p" "\<exists>p j. collector_ticker sample_collector = Ret (p, j)"
proof -
  show "\<exists>p. flush_ticker (w_config sample_world) = Ret p" by (simp add: flush_ticker_def nanos_eq sample_world_def)
  have "oc_queryInterval sample_collector \<noteq> 0" by (simp add: sample_collector_def)
  then show "\<exists>p j. collector_ticker sample_collector = Ret (p, j)"
    using GetTickerWithJitter_no_panic by (metis collector_ticker_def)
qed

text \<open>The collector has sent its first package.\<close>

definition pushed_system :: System where
  "pushed_system = (initial sample_world newAppCache)
     \<lparr>sy_nozzle := NewNozzle\<lparr>nz_processedMetrics := [[sample_package]]\<rparr>, sy_collector := CollectorWaiting,
      sy_pushes := [Pushed], sy_sent := [[sample_package]]\<rparr>"

lemma reachable_pushed: "reachable sample_world (initial sample_world newAppCache) pushed_system"
proof -
  let ?i = "initial sample_world newAppCache" and ?p = "[sample_package]"
  let ?s1 = "?i\<lparr>sy_collector := CollectorWaiting, sy_pushes := [Collecting]\<rparr>"
  let ?s2 = "?s1\<lparr>sy_pushes := [SendingPackages ?p]\<rparr>"
  obtain src where push: "pushMetrics (\<lambda>_ _ m. m) (\<lambda>_. 3) (collector_at src sample_collector) = Ret ?p"
    using sample_push by blast
  obtain period j where t: "collector_ticker sample_collector = Ret (period, j)" using sample_tickers(2) by blast
  have oc: "w_collector sample_world = Some sample_collector" by (simp add: sample_world_def)
  note i = initial_def NewNozzle_def oc processed_cap_def
  have 1: "nozzle_step sample_world ?i ?s1"
    using collector_step.collector_start [OF oc _ t, of ?i] by (intro nozzle_step.collector) (simp add: i)
  have 2: "nozzle_step sample_world ?s1 ?s2"
    using push_step.collect [OF oc, of 0 ?s1, OF _ _ push] by (intro nozzle_step.push) simp
  have 3: "nozzle_step sample_world ?s2 pushed_system"
    using push_step.push [of 0 ?s2 ?p sample_world] by (intro nozzle_step.push) (simp add: i pushed_system_def)
  have ok: "\<not> sy_crashed ?i" by (simp add: initial_def)
  have r1: "reachable sample_world ?i ?s1" by (rule reachable.step [OF reachable.start ok 1])
  have r2: "reachable sample_world ?i ?s2" by (rule reachable.step [OF r1 _ 2]) (simp add: ok)
  show ?thesis by (rule reachable.step [OF r2 _ 3]) (simp add: ok)
qed

text \<open>The package was read, and the first tick has taken it.\<close>

definition ticking_system :: System where
  "ticking_system = pushed_system
     \<lparr>sy_nozzle := NewNozzle\<lparr>nz_totalMessagesReceived := 1\<rparr>, sy_read := [[sample_package]],
      sy_taken := [add_package [] [sample_package]],
      sy_main := PostingMetrics False (add_package [] [sample_package]) 1 7 0\<rparr>"

lemma reachable_ticking: "reachable sample_world (initial sample_world newAppCache) ticking_system"
proof -
  let ?i = "initial sample_world newAppCache" and ?p = "[sample_package]"
  let ?m = "add_package [] ?p"
  let ?s4 = "pushed_system\<lparr>sy_nozzle := NewNozzle\<lparr>nz_totalMessagesReceived := 1, nz_metricsMap := ?m\<rparr>, sy_read := [?p]\<rparr>"
  let ?s5 = "?s4\<lparr>sy_main := Running\<rparr>"
  obtain p where f: "flush_ticker (w_config sample_world) = Ret p" using sample_tickers(1) by blast
  note i = pushed_system_def initial_def NewNozzle_def
  have 4: "nozzle_step sample_world pushed_system ?s4"
    using metrics_reader_step.read_metrics [of pushed_system ?p "[]"]
    by (intro nozzle_step.metrics_reader) (simp add: i read_metrics_def)
  have 5: "nozzle_step sample_world ?s4 ?s5"
    using run_step.run [of ?s4, OF _ f] by (intro nozzle_step.run) (simp add: i)
  have 6: "nozzle_step sample_world ?s5 ticking_system"
    using run_step.tick [of ?s5 ?m "NewNozzle\<lparr>nz_totalMessagesReceived := 1\<rparr>" sample_world 7]
    by (intro nozzle_step.run) (simp add: i take_metrics_def ticking_system_def)
  have ok: "\<not> sy_crashed pushed_system" by (simp add: i)
  have r4: "reachable sample_world ?i ?s4" by (rule reachable.step [OF reachable_pushed ok 4])
  have r5: "reachable sample_world ?i ?s5" by (rule reachable.step [OF r4 _ 5]) (simp add: ok)
  show ?thesis by (rule reachable.step [OF r5 _ 6]) (simp add: ok)
qed

theorem metric_points_conserved_witness:
  "points_of (hd (sy_taken ticking_system)) (mp_Key sample_package) = mv_Points (mp_Value sample_package)"
  using metric_points_conserved [OF reachable_ticking, of "mp_Key sample_package"]
  by (simp add: ticking_system_def pushed_system_def initial_def NewNozzle_def key_points_def points_of_def)

text \<open>
  C6: Logs keep their order and none is lost: the logs sent are those taken for posting, then those in
  the buffer, then those in the channel. The count of received messages is the number of packages and
  logs that were read, modulo its width, and no channel holds more than its capacity.
\<close>

theorem logs_conserved:
  assumes "reachable w (initial w cache) s"
  shows "sy_sentLogs s = concat (sy_takenLogs s) @ nz_logsBuffer (sy_nozzle s) @ nz_processedLogs (sy_nozzle s) \<and>
    nz_totalMessagesReceived (sy_nozzle s) =
      of_nat (length (sy_read s) + length (concat (sy_takenLogs s)) + length (nz_logsBuffer (sy_nozzle s))) \<and>
    length (nz_messages (sy_nozzle s)) \<le> messages_cap \<and>
    length (nz_processedMetrics (sy_nozzle s)) \<le> processed_cap \<and>
    length (nz_processedLogs (sy_nozzle s)) \<le> processed_cap"
  using accounts.holds [OF assms]
  by (simp add: data_inv_def logs_accounted_def messages_counted_def within_caps_def)

theorem logs_conserved_witness:
  "nz_totalMessagesReceived (sy_nozzle ticking_system) = of_nat (length (sy_read ticking_system))"
  using logs_conserved [OF reachable_ticking]
  by (simp add: ticking_system_def pushed_system_def initial_def NewNozzle_def)

text \<open>
  C9: Every metric is well-typed on its way. In every reachable state, the packages in the channel and the
  entries of the map and of the map that is being posted, the internal metrics among them, have sorted
  tags, the hash of their own tags in their key, at least one point and a type that the API knows or
  none: what two workers, the collector and the main goroutine put under one key agrees in its tags' hash.
\<close>

theorem metrics_well_typed:
  assumes "reachable w (initial w cache) s"
  shows "list_all (list_all well_typed) (nz_processedMetrics (sy_nozzle s)) \<and>
    well_typed_map (nz_metricsMap (sy_nozzle s)) \<and> main_typed (sy_main s)"
  using typed.holds [OF assms] by (simp add: typed_inv_def)

theorem metrics_well_typed_witness: "well_typed_map (add_package [] [sample_package])"
  using metrics_well_typed [OF reachable_ticking] by (simp add: ticking_system_def)

end
