(* ===== verification/Nozzle_Spec.thy ===== *)
theory Nozzle_Spec
  imports Nozzle_Inv
begin

text \<open>
  What the nozzle promises of its buffers, without goroutines, counters, clients or the cache: a
  queue of packages is collected into the sequence of points of each key, and a flush hands all of
  them over; logs are queued, buffered and handed over in order. The system of goroutines refines this
  specification.
\<close>

section \<open>The specification\<close>

record buffers =
  bf_queue :: "MetricPackage list list"
  bf_points :: "MetricKey \<Rightarrow> Point list"
  bf_flushed :: "(MetricKey \<Rightarrow> Point list) list"
  bf_logQueue :: "LogMessage list"
  bf_logs :: "LogMessage list"
  bf_flushedLogs :: "LogMessage list list"

definition no_buffers :: buffers where
  "no_buffers = \<lparr>bf_queue = [], bf_points = (\<lambda>_. []), bf_flushed = [], bf_logQueue = [], bf_logs = [],
     bf_flushedLogs = []\<rparr>"

inductive buffer_step :: "buffers \<Rightarrow> buffers \<Rightarrow> bool" where
  idle: "buffer_step b b"
| send: "length (bf_queue b) < processed_cap \<Longrightarrow> buffer_step b (b\<lparr>bf_queue := bf_queue b @ [pkg]\<rparr>)"
| collect:
    "bf_queue b = pkg # pkgs \<Longrightarrow>
     buffer_step b (b\<lparr>bf_queue := pkgs, bf_points := (\<lambda>k. bf_points b k @ key_points k [pkg])\<rparr>)"
| flush: "buffer_step b (b\<lparr>bf_flushed := bf_flushed b @ [bf_points b], bf_points := (\<lambda>_. [])\<rparr>)"
| send_log: "length (bf_logQueue b) < processed_cap \<Longrightarrow> buffer_step b (b\<lparr>bf_logQueue := bf_logQueue b @ [l]\<rparr>)"
| collect_log:
    "bf_logQueue b = l # ls \<Longrightarrow> buffer_step b (b\<lparr>bf_logQueue := ls, bf_logs := bf_logs b @ [l]\<rparr>)"
| flush_logs: "buffer_step b (b\<lparr>bf_flushedLogs := bf_flushedLogs b @ [bf_logs b], bf_logs := []\<rparr>)"

section \<open>The buffers of a system\<close>

definition buffers_of :: "System \<Rightarrow> buffers" where
  "buffers_of s =
     \<lparr>bf_queue = nz_processedMetrics (sy_nozzle s), bf_points = points_of (nz_metricsMap (sy_nozzle s)),
      bf_flushed = map points_of (sy_taken s), bf_logQueue = nz_processedLogs (sy_nozzle s),
      bf_logs = nz_logsBuffer (sy_nozzle s), bf_flushedLogs = sy_takenLogs s\<rparr>"

lemma buffers_of_core: "core (sy_nozzle s') = core (sy_nozzle s) \<Longrightarrow> sy_taken s' = sy_taken s \<Longrightarrow>
    sy_takenLogs s' = sy_takenLogs s \<Longrightarrow> buffer_step (buffers_of s) (buffers_of s')"
  using buffer_step.idle by (simp add: buffers_of_def core_def)

lemma points_of_Nil: "points_of [] = (\<lambda>_. [])"
  by (simp add: points_of_def fun_eq_iff)

lemma worker_refines: "worker_step w s s' \<Longrightarrow> buffer_step (buffers_of s) (buffers_of s')"
proof (induction rule: worker_step.induct)
  case (work i s e es rng n nw)
  then show ?case using work_message_core [OF work(4)] buffer_step.idle by (simp add: buffers_of_def core_def)
next
  case (send_metrics i s pkg)
  then show ?case using buffer_step.send [of "buffers_of s" pkg] by (simp add: buffers_of_def)
next
  case (send_log i s l)
  then show ?case using buffer_step.send_log [of "buffers_of s" l] by (simp add: buffers_of_def)
qed (simp_all add: buffers_of_def buffer_step.idle)

lemma push_refines: "push_step w s s' \<Longrightarrow> buffer_step (buffers_of s) (buffers_of s')"
proof (induction rule: push_step.induct)
  case (push i s pkg)
  then show ?case using buffer_step.send [of "buffers_of s" pkg] by (simp add: buffers_of_def)
qed (simp_all add: buffers_of_def buffer_step.idle)

lemma metrics_reader_refines: "metrics_reader_step s s' \<Longrightarrow> buffer_step (buffers_of s) (buffers_of s')"
proof (induction rule: metrics_reader_step.induct)
  case (read_metrics s pkg pkgs)
  have "points_of (add_package m pkg) = (\<lambda>k. points_of m k @ key_points k [pkg])" for m
    by (simp add: fun_eq_iff points_of_add_package key_points_def)
  with read_metrics show ?case
    using buffer_step.collect [of "buffers_of s" pkg pkgs] by (simp add: buffers_of_def read_metrics_def)
qed

lemma logs_reader_refines: "logs_reader_step s s' \<Longrightarrow> buffer_step (buffers_of s) (buffers_of s')"
proof (induction rule: logs_reader_step.induct)
  case (read_logs s l ls)
  then show ?case using buffer_step.collect_log [of "buffers_of s" l ls] by (simp add: buffers_of_def read_log_def)
qed

lemma take_metrics_refines:
  "take_metrics (sy_nozzle s) = (m, n) \<Longrightarrow>
   buffer_step (buffers_of s) (buffers_of (s\<lparr>sy_nozzle := n, sy_taken := sy_taken s @ [m], sy_main := pc\<rparr>))"
  using buffer_step.flush [of "buffers_of s"] by (auto simp: buffers_of_def take_metrics_def points_of_Nil)

lemma run_refines: "run_step w s s' \<Longrightarrow> buffer_step (buffers_of s) (buffers_of s')"
proof (induction rule: run_step.induct)
  case (end_of_tick s n)
  then show ?case using end_tick_Ret [OF end_of_tick(2)] buffer_step.idle by (auto simp: buffers_of_def)
qed (simp_all add: take_metrics_refines, simp_all add: buffers_of_def buffer_step.idle)

lemma flush_refines: "flush_step w s s' \<Longrightarrow> buffer_step (buffers_of s) (buffers_of s')"
proof (induction rule: flush_step.induct)
  case (take_logs s final buffer n)
  then show ?case using buffer_step.flush_logs [of "buffers_of s"] by (auto simp: buffers_of_def take_logs_def)
next
  case (post_metrics s final m received timestamp i rng http m' n)
  then show ?case using core_post_account [OF post_metrics(3)] by (intro buffers_of_core) simp_all
next
  case (post_logs s final buffer i http n)
  then show ?case using core_log_account [OF post_logs(3)] by (intro buffers_of_core) simp_all
qed (simp_all add: buffers_of_core)

lemma shutdown_refines: "shutdown_step w s s' \<Longrightarrow> buffer_step (buffers_of s) (buffers_of s')"
  by (induction rule: shutdown_step.induct)
    (simp_all add: take_metrics_refines, simp_all add: buffers_of_def buffer_step.idle)

lemma other_refines:
  "consumer_step s s' \<or> refresh_step w s s' \<or> collector_step w s s' \<or> stopWorkers_step w s s' \<Longrightarrow>
   buffer_step (buffers_of s) (buffers_of s')"
  by (elim disjE background_cases main_cases) (simp_all add: buffers_of_def buffer_step.idle)

lemma step_refines: "nozzle_step w s s' \<Longrightarrow> buffer_step (buffers_of s) (buffers_of s')"
  by (induction rule: nozzle_step.induct)
    (auto intro: worker_refines push_refines metrics_reader_refines logs_reader_refines run_refines flush_refines
      shutdown_refines other_refines)

lemma initial_refines: "buffers_of (initial w cache) = no_buffers"
  by (simp add: buffers_of_def initial_def NewNozzle_def no_buffers_def points_of_Nil)

section \<open>The refinement\<close>

text \<open>
  C3: The goroutines implement the buffers. Whatever goroutine runs next, its step is one step of the
  specification on the system's buffers (sending, collecting or handing over one of the two kinds,
  or none), and the buffers are empty at the start; so what is handed over to the posts in any
  interleaving is what the sequential specification hands over.
\<close>

theorem nozzle_refines_buffers:
  assumes "reachable w (initial w cache) s"
  shows "buffer_step\<^sup>*\<^sup>* no_buffers (buffers_of s) \<and>
    (\<forall>s'. nozzle_step w s s' \<longrightarrow> buffer_step (buffers_of s) (buffers_of s'))"
proof
  show "buffer_step\<^sup>*\<^sup>* no_buffers (buffers_of s)"
    using assms
  proof (induction rule: reachable.induct)
    case start
    then show ?case by (simp add: initial_refines)
  next
    case (step s s')
    from step.IH step_refines [OF step(3)] show ?case by (rule rtranclp.rtrancl_into_rtrancl)
  qed
qed (use step_refines in blast)

theorem nozzle_refines_buffers_witness:
  "buffer_step\<^sup>*\<^sup>* no_buffers (buffers_of ticking_system) \<and>
   bf_flushed (buffers_of ticking_system) = [points_of (add_package [] [sample_package])]"
  using nozzle_refines_buffers [OF reachable_ticking] by (simp add: buffers_of_def ticking_system_def)

end
