(* ===== verification/Nozzle_Safety.thy ===== *)
theory Nozzle_Safety
  imports Nozzle_Inv
begin

text \<open>
  When the process panics: for API keys of four characters and intervals that are not zero, only when a
  worker meets a gauge entry without a value.
\<close>

section \<open>What the world provides\<close>

definition clients_ok :: "'u world \<Rightarrow> bool" where
  "clients_ok w \<longleftrightarrow> list_all (\<lambda>c. 4 \<le> length (dd_apiKey c)) (w_clients w)"

text \<open>The intervals of the flushes and of the two background loops are not zero, in the width in which they are used.\<close>

definition intervals_ok :: "'u world \<Rightarrow> bool" where
  "intervals_ok w \<longleftrightarrow>
     cfg_FlushDurationSeconds (w_config w) \<noteq> 0 \<and>
     (case prc_appMetrics (w_processor w) of None \<Rightarrow> True | Some am \<Rightarrow> grab_seconds (am_grabInterval am) \<noteq> 0) \<and>
     (case w_collector w of None \<Rightarrow> True | Some oc \<Rightarrow> oc_queryInterval oc \<noteq> 0)"

text \<open>The collector of the organizations, if there is one, has a client to ask.\<close>

definition collector_ok :: "'u world \<Rightarrow> bool" where
  "collector_ok w \<longleftrightarrow>
     (case w_collector w of None \<Rightarrow> True | Some oc \<Rightarrow> oc_cfClient oc \<noteq> None \<or> oc_dcaClient oc \<noteq> None)"

lemma post_account_total:
  assumes "clients_ok w" and "i < length (w_clients w)"
  shows "\<exists>mn'. post_account (\<lambda>_. PostMetrics compress rng U http) t r i (w_clients w ! i) mn = Ret mn'"
proof -
  have "4 \<le> length (dd_apiKey (w_clients w ! i))" using assms by (simp add: clients_ok_def list_all_length)
  then show ?thesis by (simp add: post_account_def PostMetrics_def split: prod.split)
qed

lemma log_account_total:
  assumes "clients_ok w" and "i < length (w_clients w)"
  shows "\<exists>n'. log_account (\<lambda>_. PostLogs compress U http) i (w_clients w ! i) buffer n = Ret n'"
proof -
  have "4 \<le> length (dd_apiKey (w_clients w ! i))" using assms by (simp add: clients_ok_def list_all_length)
  then show ?thesis by (simp add: log_account_def PostLogs_def)
qed

lemma ticker_ok:
  assumes "interval \<noteq> 0"
  shows "GetTickerWithJitter interval f64_tenth \<noteq> Panic"
    and "GetTickerWithJitter interval f64_tenth = Ret (p, j) \<Longrightarrow> jitterWait j rnd \<noteq> Panic"
  using GetTickerWithJitter_no_panic [OF assms, of rnd] by auto

section \<open>The panics of each goroutine\<close>

text \<open>
  A worker panics on an envelope that it keeps and that has a gauge entry without a value. The steps with
  the app cache do not panic: there is a client to ask, and the metrics of a container are all there.
\<close>

lemma ParseMetrics_no_panic: "\<not> has_nil_value (ev_Message e) \<Longrightarrow> ParseMetrics p e \<noteq> Panic"
  using ParseMetrics_total [of e p] by (cases "infra_metric (ev_Message e)") (auto simp: ParseMetrics_unfold)

lemma work_message_panic:
  assumes "work_message w rng c n e = Panic" and "cache_ok c"
  shows "keepMessage (w_config w) e \<and> has_nil_value (ev_Message e)"
  using assms(1) ProcessLog_ok [OF assms(2), of "w_config w" "w_processor w" rng e]
    ParseMetrics_no_panic [of e "infra_parser (w_processor w) (prc_customTags (w_processor w))"]
  by (auto simp: work_message_def Let_def bind_outcome_Panic_iff split: if_splits)

lemma fetch_app_at:
  assumes "has_source (w_processor w)" and "prc_appMetrics (w_processor w) = Some am"
  shows "fetch_app (parser_at src am) g = Some (src_GetApplication src g)"
  using assms by (auto simp: has_source_def fetch_app_def parser_at_def)

lemma app_no_panic:
  assumes "worker_ready w c x" and "cache_ok c" and "has_source (w_processor w)"
  shows "\<not> app_panic w (c, x)"
proof
  assume "app_panic w (c, x)"
  then show False
  proof (cases rule: app_panic_cases [consumes 1, case_names fetch_panic parse_panic])
    case (fetch_panic am src e)
    then show False using fetch_app_at [OF assms(3) fetch_panic(2)] by simp
  next
    case (parse_panic am key app now e)
    then have "IsContainerMetric (ev_Message e)" using assms(1) by simp
    from parse_app_Ret [OF this assms(2) parse_panic(3), of am now] parse_panic(4) show False by auto
  qed
qed

lemma worker_crash:
  assumes "worker_step w s s'" and "\<not> sy_crashed s" and "sy_crashed s'"
    and "cache_ok (sy_cache s)" and "has_source (w_processor w)" and "workers_inv w s"
  shows "\<exists>e es. nz_messages (sy_nozzle s') = e # es \<and> keepMessage (w_config w) e \<and> has_nil_value (ev_Message e)"
  using assms
proof (induction rule: worker_step.induct)
  case (work_panic i s e es rng)
  then show ?case using work_message_panic [OF work_panic(4)] by simp
next
  case (app_panic i s)
  have "worker_ready w (sy_cache s) (sy_workers s ! i)" using app_panic(1,7) by (simp add: workers_inv_def list_all_length)
  from app_no_panic [OF this app_panic(5,6)] app_panic(2) show ?case by blast
qed simp_all

lemma refresh_no_crash: "refresh_step w s s' \<Longrightarrow> intervals_ok w \<Longrightarrow> sy_crashed s' = sy_crashed s"
  by (induction rule: refresh_step.induct) (auto simp: intervals_ok_def refresh_ticker_def dest: ticker_ok)

lemma collector_no_crash: "collector_step w s s' \<Longrightarrow> intervals_ok w \<Longrightarrow> sy_crashed s' = sy_crashed s"
  by (induction rule: collector_step.induct) (auto simp: intervals_ok_def collector_ticker_def dest: ticker_ok)

lemma pushMetrics_at:
  "oc_cfClient oc \<noteq> None \<or> oc_dcaClient oc \<noteq> None \<Longrightarrow> pushMetrics orders now (collector_at src oc) \<noteq> Panic"
  by (auto simp: pushMetrics_def collector_source_def collector_at_def)

lemma push_no_crash: "push_step w s s' \<Longrightarrow> collector_ok w \<Longrightarrow> sy_crashed s' = sy_crashed s"
  by (induction rule: push_step.induct) (simp_all add: pushMetrics_at collector_ok_def)

lemma run_no_crash: "run_step w s s' \<Longrightarrow> intervals_ok w \<Longrightarrow> ticked_ok s \<Longrightarrow> sy_crashed s' = sy_crashed s"
proof (induction rule: run_step.induct)
  case (end_of_tick_panic s)
  then show ?case by (auto simp: end_tick_def ticked_ok_def split: if_splits)
qed (simp_all add: flush_ticker_Panic intervals_ok_def)

lemma flush_no_crash: "flush_step w s s' \<Longrightarrow> clients_ok w \<Longrightarrow> sy_crashed s' = sy_crashed s"
proof (induction rule: flush_step.induct)
  case (post_metrics_panic s final m received timestamp i rng http)
  then show ?case using post_account_total [OF post_metrics_panic(4,2)] by (metis outcome.distinct(1))
next
  case (post_logs_panic s final buffer i http)
  then show ?case using log_account_total [OF post_logs_panic(4,2)] by (metis outcome.distinct(1))
qed simp_all

lemma other_no_crash:
  "consumer_step s s' \<or> metrics_reader_step s s' \<or> logs_reader_step s s' \<or> stopWorkers_step w s s' \<or> shutdown_step w s s' \<Longrightarrow>
   sy_crashed s' = sy_crashed s"
  by (auto elim: background_cases main_cases)

section \<open>The panics of the process\<close>

lemma step_crash:
  assumes "nozzle_step w s s'" and "\<not> sy_crashed s" and "sy_crashed s'"
    and "clients_ok w" and "intervals_ok w" and "cache_ok (sy_cache s)" and "has_source (w_processor w)" and "ticked_ok s"
    and "workers_inv w s" and "collector_ok w"
  shows "\<exists>e es. nz_messages (sy_nozzle s') = e # es \<and> keepMessage (w_config w) e \<and> has_nil_value (ev_Message e)"
  using assms
proof (cases rule: nozzle_step.cases)
  case worker
  from worker_crash [OF this assms(2,3,6,7,9)] show ?thesis .
next
  case refresh
  from refresh_no_crash [OF this assms(5)] assms(2,3) show ?thesis by simp
next
  case collector
  from collector_no_crash [OF this assms(5)] assms(2,3) show ?thesis by simp
next
  case push
  from push_no_crash [OF this assms(10)] assms(2,3) show ?thesis by simp
next
  case run
  from run_no_crash [OF this assms(5,8)] assms(2,3) show ?thesis by simp
next
  case flush
  from flush_no_crash [OF this assms(4)] assms(2,3) show ?thesis by simp
qed (use assms(2,3) other_no_crash [of s s' w] in blast)+

text \<open>The process crashes only in the step that handles such an envelope.\<close>

lemma crash_cause:
  assumes "reachable w (initial w cache) s" and "sy_crashed s"
    and "cache_ok cache" and "has_source (w_processor w)" and "clients_ok w" and "intervals_ok w" and "collector_ok w"
  shows "\<exists>e es. nz_messages (sy_nozzle s) = e # es \<and> keepMessage (w_config w) e \<and> has_nil_value (ev_Message e)"
  using assms(1)
proof (cases rule: reachable.cases)
  case start
  with assms(2) show ?thesis by (simp add: initial_def)
next
  case (step s0)
  have "ticked_ok s0" using accounts.holds [OF step(1)] by (simp add: data_inv_def)
  from step_crash [OF step(3,2) assms(2,5,6) reachable_cache_ok [OF step(1) assms(3)] assms(4) this working.holds [OF step(1)] assms(7)]
  show ?thesis .
qed

text \<open>Without the interval of the flushes the process panics as soon as the main goroutine runs.\<close>

lemma zero_flush_interval:
  assumes "cfg_FlushDurationSeconds (w_config w) = 0" and "sy_main s = Starting"
  shows "\<forall>s'. run_step w s s' \<longrightarrow> sy_crashed s'" and "\<exists>s'. run_step w s s'"
proof -
  have p: "flush_ticker (w_config w) = Panic" using assms(1) by (simp add: flush_ticker_Panic)
  show "\<forall>s'. run_step w s s' \<longrightarrow> sy_crashed s'" using assms(2) p by (auto elim: run_step.cases)
  show "\<exists>s'. run_step w s s'" using run_step.run_panic [OF assms(2) p] by blast
qed

text \<open>An envelope that a worker cannot process.\<close>

definition nil_gauge :: Envelope where
  "nil_gauge = uuid_envelope\<lparr>ev_Message := Envelope_Gauge [(''g'', None)]\<rparr>"

lemma nil_gauge_panic:
  assumes "keepMessage (w_config w) nil_gauge"
  shows "work_message w rng c n nil_gauge = Panic"
proof -
  have m: "infra_metric (ev_Message nil_gauge)" "\<not> is_log (ev_Message nil_gauge)" "getValues (ev_Message nil_gauge) = Panic"
    by (simp_all add: nil_gauge_def infra_metric_def is_log_def container_loop_eq container_keys_def gauge_key_ok_def)
  then have "ParseMetrics p nil_gauge = Panic" for p by (simp add: ParseMetrics_unfold Let_def)
  with m(2) assms show ?thesis by (simp add: work_message_def)
qed

end
