(* ===== verification/Nozzle_Shutdown.thy ===== *)
theory Nozzle_Shutdown
  imports Nozzle_Safety "HOL-Library.Sublist"
begin

text \<open>
  Shutting down: how far the main goroutine is from the end once it was told to stop, that it gets there in
  every fair run, and what is lost on the way.
\<close>

section \<open>The distance to the end\<close>

text \<open>\<open>accounts\<close> is the number of clients, \<open>stops\<close> that of the stop messages.\<close>

fun shutdown_rank :: "nat \<Rightarrow> nat \<Rightarrow> main_pc \<Rightarrow> nat option" where
  "shutdown_rank accounts stops StopRequested = Some (2 * accounts + 9 + stops)"
| "shutdown_rank accounts stops (Stopping k) = Some (2 * accounts + 8 + k)"
| "shutdown_rank accounts stops StoppingCollector = Some (2 * accounts + 7)"
| "shutdown_rank accounts stops LastFlush = Some (2 * accounts + 6)"
| "shutdown_rank accounts stops (PostingMetrics final m received timestamp i) =
     (if final then Some (accounts + 5 + (accounts - i)) else None)"
| "shutdown_rank accounts stops (MetricsPosted final) = (if final then Some (accounts + 4) else None)"
| "shutdown_rank accounts stops (TakingLogs final) = (if final then Some (accounts + 3) else None)"
| "shutdown_rank accounts stops (PostingLogs final buffer i) = (if final then Some (2 + (accounts - i)) else None)"
| "shutdown_rank accounts stops (LogsPosted final) = (if final then Some 1 else None)"
| "shutdown_rank accounts stops Finished = Some 0"
| "shutdown_rank accounts stops Starting = None"
| "shutdown_rank accounts stops Running = None"
| "shutdown_rank accounts stops EndOfTick = None"

abbreviation rank_of :: "'u world \<Rightarrow> System \<Rightarrow> nat option" where
  "rank_of w s \<equiv> shutdown_rank (length (w_clients w)) (nat (stopWorkers_count (w_config w))) (sy_main s)"

lemma main_step_rank:
  "main_step w s s' \<Longrightarrow> rank_of w s = Some r \<Longrightarrow> sy_crashed s' \<and> sy_main s' = sy_main s \<or> (\<exists>r'<r. rank_of w s' = Some r')"
  unfolding main_step_def by (elim disjE main_cases) (auto split: if_splits)

lemma step_rank:
  "nozzle_step w s s' \<Longrightarrow> rank_of w s = Some r \<Longrightarrow> sy_main s' = sy_main s \<or> (\<exists>r'<r. rank_of w s' = Some r')"
  using nozzle_step_main main_step_rank by blast

text \<open>Shutting down starts with the signal.\<close>

lemma step_rank_None:
  "nozzle_step w s s' \<Longrightarrow> rank_of w s = None \<Longrightarrow>
   rank_of w s' = None \<or> sy_main s' = StopRequested"
proof -
  have "main_step w s s' \<Longrightarrow> rank_of w s = None \<Longrightarrow>
      rank_of w s' = None \<or> sy_main s' = StopRequested"
    unfolding main_step_def by (elim disjE main_cases) (auto split: if_splits)
  then show "nozzle_step w s s' \<Longrightarrow> rank_of w s = None \<Longrightarrow> ?thesis" using nozzle_step_main by fastforce
qed

definition rank_bound :: "'u world \<Rightarrow> nat" where
  "rank_bound w = 2 * length (w_clients w) + 9 + nat (stopWorkers_count (w_config w))"

definition rank_inv :: "'u world \<Rightarrow> System \<Rightarrow> bool" where
  "rank_inv w s \<longleftrightarrow> (case rank_of w s of None \<Rightarrow> True | Some r \<Rightarrow> r \<le> rank_bound w)"

interpretation ranked: system_invariant w "initial w cache" "rank_inv w" for w cache
proof unfold_locales
  show "rank_inv w (initial w cache)" by (simp add: rank_inv_def initial_def)
next
  fix s s'
  assume step: "nozzle_step w s s'" and inv: "rank_inv w s"
  show "rank_inv w s'"
  proof (cases "rank_of w s")
    case None
    with step_rank_None [OF step] show ?thesis by (auto simp: rank_inv_def rank_bound_def)
  next
    case (Some r)
    with step_rank [OF step Some] inv show ?thesis by (auto simp: rank_inv_def)
  qed
qed

section \<open>The collector is there to be stopped\<close>

definition collector_inv :: "'u world \<Rightarrow> System \<Rightarrow> bool" where
  "collector_inv w s \<longleftrightarrow>
     (w_collector w \<noteq> None \<and> sy_collector s = CollectorOff \<longrightarrow>
        (\<exists>r. rank_of w s = Some r \<and> r < 2 * length (w_clients w) + 7))"

lemma step_collector:
  "nozzle_step w s s' \<Longrightarrow> sy_collector s' = CollectorOff \<Longrightarrow> sy_collector s = CollectorOff \<or> sy_main s' = LastFlush"
  by (elim nozzle_step.cases) (auto elim: background_cases main_cases)

interpretation collecting: system_invariant w "initial w cache" "collector_inv w" for w cache
proof unfold_locales
  show "collector_inv w (initial w cache)" by (auto simp: collector_inv_def initial_def)
next
  fix s s'
  assume step: "nozzle_step w s s'" and inv: "collector_inv w s"
  show "collector_inv w s'"
    using step_collector [OF step] step_rank [OF step] inv by (fastforce simp: collector_inv_def)
qed

section \<open>The end is reached\<close>

text \<open>One or two steps bring the main goroutine closer to the end.\<close>

lemma reachable_one: "nozzle_step w s s' \<Longrightarrow> \<not> sy_crashed s \<Longrightarrow> reachable w s s'"
  by (rule reachable.step [OF reachable.start])

lemma collector_waits:
  assumes "intervals_ok w" and "w_collector w = Some oc" and "sy_collector s \<noteq> CollectorOff" and "\<not> sy_crashed s"
  shows "\<exists>s'. reachable w s s' \<and> \<not> sy_crashed s' \<and> sy_collector s' = CollectorWaiting \<and> sy_main s' = sy_main s"
proof -
  have i: "oc_queryInterval oc \<noteq> 0" using assms(1,2) by (simp add: intervals_ok_def)
  obtain p j where t: "collector_ticker oc = Ret (p, j)" and jw: "jitterWait j id \<noteq> Panic"
    using GetTickerWithJitter_no_panic [OF i, of id] by (auto simp: collector_ticker_def)
  then obtain x where x: "jitterWait j id = Ret x" by (cases "jitterWait j id") auto
  let ?s = "s\<lparr>sy_collector := CollectorWaiting, sy_pushes := sy_pushes s @ [Collecting]\<rparr>"
  show ?thesis
  proof (cases "sy_collector s")
    case CollectorStarting
    from reachable_one [OF nozzle_step.collector [OF collector_step.collector_start [OF assms(2) this t]] assms(4)]
    show ?thesis using assms(4) by (intro exI [of _ ?s]) simp
  next
    case CollectorJitter
    from reachable_one [OF nozzle_step.collector [OF collector_step.collector_jitter [OF assms(2) this t x]] assms(4)]
    show ?thesis using assms(4) by (intro exI [of _ ?s]) simp
  next
    case CollectorWaiting
    then show ?thesis using assms(4) reachable.start by (intro exI [of _ s]) simp
  qed (use assms(3) in simp)
qed

lemma collector_stops:
  assumes "sy_main s = StoppingCollector" and "collector_inv w s" and "intervals_ok w" and "\<not> sy_crashed s"
  shows "\<exists>s'. reachable w s s' \<and> \<not> sy_crashed s' \<and> sy_main s' = LastFlush"
proof (cases "w_collector w")
  case None
  from reachable_one [OF nozzle_step.shutdown [OF shutdown_step.no_collector [OF assms(1) None]] assms(4)]
  show ?thesis using assms(4) by (intro exI [of _ "s\<lparr>sy_main := LastFlush\<rparr>"]) simp
next
  case (Some oc)
  with assms(1,2) have "sy_collector s \<noteq> CollectorOff" by (auto simp: collector_inv_def)
  from collector_waits [OF assms(3) Some this assms(4)] obtain t where
    t: "reachable w s t" "\<not> sy_crashed t" "sy_collector t = CollectorWaiting" "sy_main t = StoppingCollector"
    using assms(1) by auto
  from reachable.step [OF t(1,2) nozzle_step.shutdown [OF shutdown_step.stop_collector [OF t(4) Some t(3)]]]
  show ?thesis using t(2) by (intro exI [of _ "t\<lparr>sy_collector := CollectorOff, sy_main := LastFlush\<rparr>"]) simp
qed

lemma flush_advances:
  assumes "rank_of w s = Some r" and "0 < r" and "r \<le> 2 * length (w_clients w) + 6"
    and "clients_ok w" and "\<not> sy_crashed s"
  shows "\<exists>s'. nozzle_step w s s' \<and> \<not> sy_crashed s' \<and> (\<exists>r'<r. rank_of w s' = Some r')"
proof (cases "sy_main s")
  case LastFlush
  obtain m n where "take_metrics (sy_nozzle s) = (m, n)" by fastforce
  from nozzle_step.shutdown [OF shutdown_step.last_flush [OF LastFlush this]] LastFlush assms show ?thesis by fastforce
next
  case (PostingMetrics final m q t i)
  show ?thesis
  proof (cases "i < length (w_clients w)")
    case True
    obtain mn where "post_account (\<lambda>_. PostMetrics (w_compress w) (\<lambda>_. id) (w_urls w) (\<lambda>_ _. NoResponse)) t q i
        (w_clients w ! i) (m, sy_nozzle s) = Ret mn"
      using post_account_total [OF assms(4) True] by blast
    with flush_step.post_metrics [OF PostingMetrics True, of "\<lambda>_. id" "\<lambda>_ _. NoResponse"] PostingMetrics True assms
    show ?thesis by (cases mn) (fastforce intro!: nozzle_step.flush split: if_splits)
  next
    case False
    from nozzle_step.flush [OF flush_step.count_metrics [OF PostingMetrics False]] PostingMetrics assms
    show ?thesis by (fastforce split: if_splits)
  qed
next
  case (MetricsPosted final)
  with nozzle_step.flush [OF flush_step.metrics_posted [OF MetricsPosted, of w]] assms show ?thesis
    by (fastforce split: if_splits)
next
  case (TakingLogs final)
  obtain b n where "take_logs (sy_nozzle s) = (b, n)" by fastforce
  from nozzle_step.flush [OF flush_step.take_logs [OF TakingLogs this]] TakingLogs assms show ?thesis
    by (fastforce split: if_splits)
next
  case (PostingLogs final b i)
  show ?thesis
  proof (cases "i < length (w_clients w)")
    case True
    obtain n where "log_account (\<lambda>_. PostLogs (w_compress w) (w_urls w) (\<lambda>_ _. NoResponse)) i (w_clients w ! i) b
        (sy_nozzle s) = Ret n"
      using log_account_total [OF assms(4) True] by blast
    with nozzle_step.flush [OF flush_step.post_logs [OF PostingLogs True]] PostingLogs True assms show ?thesis
      by (fastforce split: if_splits)
  next
    case False
    from nozzle_step.flush [OF flush_step.count_logs [OF PostingLogs False]] PostingLogs assms show ?thesis
      by (fastforce split: if_splits)
  qed
next
  case (LogsPosted final)
  with nozzle_step.flush [OF flush_step.logs_posted [OF LogsPosted, of w]] assms show ?thesis
    by (fastforce split: if_splits)
qed (use assms in simp_all)

lemma shutdown_advances:
  assumes "rank_of w s = Some r" and "0 < r" and "clients_ok w" and "intervals_ok w" and "\<not> sy_crashed s"
    and "collector_inv w s"
  shows "\<exists>s'. reachable w s s' \<and> \<not> sy_crashed s' \<and> (\<exists>r'<r. rank_of w s' = Some r')"
proof (cases "r \<le> 2 * length (w_clients w) + 6")
  case True
  from flush_advances [OF assms(1,2) True assms(3,5)] show ?thesis using reachable_one assms(5) by blast
next
  case False
  with assms(1) consider k where "sy_main s = Stopping k" | "sy_main s = StoppingCollector" | "sy_main s = StopRequested"
    by (cases "sy_main s") (auto split: if_splits)
  then show ?thesis
  proof cases
    case (1 k)
    let ?next = "if k = 0 then StoppingCollector else Stopping 0"
    have "stopWorkers_step w s (s\<lparr>sy_main := ?next\<rparr>)"
      using stopWorkers_step.workers_stopped [of s w] stopWorkers_step.stop_timeout [of s "k - 1" w] 1 by (cases k) simp_all
    from reachable_one [OF nozzle_step.stopWorkers [OF this] assms(5)] 1 assms show ?thesis
      by (intro exI [of _ "s\<lparr>sy_main := ?next\<rparr>"]) (auto split: if_splits)
  next
    case 2
    from collector_stops [OF 2 assms(6,4,5)] 2 assms(1) show ?thesis by fastforce
  next
    case 3
    from reachable_one [OF nozzle_step.stopWorkers [OF stopWorkers_step.stop_refresh [OF 3]] assms(5)] 3 assms(1,5)
    show ?thesis by fastforce
  qed
qed

lemma shutdown_reaches:
  assumes "rank_of w s = Some r" and "clients_ok w" and "intervals_ok w" and "\<not> sy_crashed s" and "collector_inv w s"
  shows "\<exists>s'. reachable w s s' \<and> \<not> sy_crashed s' \<and> sy_main s' = Finished"
  using assms
proof (induction r arbitrary: s rule: less_induct)
  case (less r)
  show ?case
  proof (cases "r = 0")
    case True
    with less.prems(1) have "sy_main s = Finished" by (cases "sy_main s") (auto split: if_splits)
    with less.prems(4) reachable.start show ?thesis by blast
  next
    case False
    with shutdown_advances [of w s r] less.prems obtain t r' where
      t: "reachable w s t" "\<not> sy_crashed t" "r' < r" "rank_of w t = Some r'" by auto
    have "collector_inv w t" by (rule collecting.holds_later [OF t(1) less.prems(5)])
    with less.IH [OF t(3,4) less.prems(2,3) t(2)] obtain s' where
      "reachable w t s'" "\<not> sy_crashed s'" "sy_main s' = Finished" by blast
    with t(1) reachable_trans show ?thesis by blast
  qed
qed

section \<open>What is lost\<close>

text \<open>Without its reader the channel of packages only fills up.\<close>

definition unread :: "System \<Rightarrow> MetricPackage list list \<Rightarrow> MetricPackage list list \<Rightarrow> bool" where
  "unread s pkgs collected \<longleftrightarrow>
     \<not> sy_metricsReader s \<and> prefix pkgs (nz_processedMetrics (sy_nozzle s)) \<and> sy_read s = collected"

lemma worker_unread: "worker_step w s s' \<Longrightarrow> unread s pkgs rd \<Longrightarrow> unread s' pkgs rd"
proof (induction rule: worker_step.induct)
  case (work i s e es rng n nw)
  then show ?case using work_message_core [OF work(4)] by (simp add: unread_def core_def)
qed (simp_all add: unread_def)

lemma flush_unread: "flush_step w s s' \<Longrightarrow> unread s pkgs rd \<Longrightarrow> unread s' pkgs rd"
proof (induction rule: flush_step.induct)
  case (post_metrics s final m received timestamp i rng http m' n)
  then show ?case using core_post_account [OF post_metrics(3)] by (simp add: unread_def core_def)
next
  case (post_logs s final buffer i http n)
  then show ?case using core_log_account [OF post_logs(3)] by (simp add: unread_def core_def)
qed (auto simp: unread_def take_logs_def ResetSlowConsumerError_def add_metrics_sent_def add_logs_sent_def)

lemma run_unread: "run_step w s s' \<Longrightarrow> unread s pkgs rd \<Longrightarrow> unread s' pkgs rd"
proof (induction rule: run_step.induct)
  case (end_of_tick s n)
  then show ?case using end_tick_Ret [OF end_of_tick(2)] by (auto simp: unread_def)
qed (auto simp: unread_def take_metrics_def)

lemma other_unread:
  "consumer_step s s' \<or> metrics_reader_step s s' \<or> logs_reader_step s s' \<or> refresh_step w s s' \<or> collector_step w s s' \<or>
     push_step w s s' \<or> stopWorkers_step w s s' \<or> shutdown_step w s s' \<Longrightarrow> unread s pkgs rd \<Longrightarrow> unread s' pkgs rd"
  by (elim disjE background_cases main_cases) (auto simp: unread_def read_log_def take_metrics_def)

lemma step_unread: "nozzle_step w s s' \<Longrightarrow> unread s pkgs rd \<Longrightarrow> unread s' pkgs rd"
  using worker_unread flush_unread run_unread other_unread by (elim nozzle_step.cases) blast+

lemma reachable_unread: "reachable w s s' \<Longrightarrow> unread s pkgs rd \<Longrightarrow> unread s' pkgs rd"
  by (induction rule: reachable.induct) (auto intro: step_unread)

section \<open>Fair runs\<close>

text \<open>
  A run: each state is followed by that of a step of any goroutine, or by itself (nothing happens). It is fair to a
  goroutine if that is not kept from stepping for ever: when it can step again and again, it does.
\<close>

definition run_of :: "'u world \<Rightarrow> (nat \<Rightarrow> System) \<Rightarrow> bool" where
  "run_of w \<sigma> \<longleftrightarrow> (\<forall>n. \<sigma> (Suc n) = \<sigma> n \<or> \<not> sy_crashed (\<sigma> n) \<and> nozzle_step w (\<sigma> n) (\<sigma> (Suc n)))"

definition fair_to :: "(System \<Rightarrow> System \<Rightarrow> bool) \<Rightarrow> (nat \<Rightarrow> System) \<Rightarrow> bool" where
  "fair_to step \<sigma> \<longleftrightarrow> ((\<forall>n. \<exists>m\<ge>n. \<exists>s'. step (\<sigma> m) s') \<longrightarrow> (\<forall>n. \<exists>m\<ge>n. step (\<sigma> m) (\<sigma> (Suc m))))"

lemma run_reachable: "run_of w \<sigma> \<Longrightarrow> reachable w s0 (\<sigma> 0) \<Longrightarrow> reachable w s0 (\<sigma> n)"
proof (induction n)
  case (Suc n)
  then have "\<sigma> (Suc n) = \<sigma> n \<or> \<not> sy_crashed (\<sigma> n) \<and> nozzle_step w (\<sigma> n) (\<sigma> (Suc n))" by (simp add: run_of_def)
  with Suc reachable.step show ?case by metis
qed simp

lemma run_rank:
  assumes "run_of w \<sigma>" and "rank_of w (\<sigma> n) = Some r"
  shows "\<exists>r'\<le>r. rank_of w (\<sigma> (n + k)) = Some r'"
proof (induction k)
  case (Suc k)
  then obtain r' where r': "r' \<le> r" "rank_of w (\<sigma> (n + k)) = Some r'" by blast
  have "\<sigma> (Suc (n + k)) = \<sigma> (n + k) \<or> nozzle_step w (\<sigma> (n + k)) (\<sigma> (Suc (n + k)))" using assms(1) by (auto simp: run_of_def)
  then show ?case
  proof
    assume "nozzle_step w (\<sigma> (n + k)) (\<sigma> (Suc (n + k)))"
    from step_rank [OF this r'(2)] r' show ?thesis by fastforce
  qed (use r' in auto)
qed (use assms(2) in simp)

text \<open>The main goroutine can step unless it waits for the collector or has ended.\<close>

lemma main_enabled:
  assumes "rank_of w s = Some r" and "sy_main s \<noteq> Finished"
    and "sy_main s = StoppingCollector \<Longrightarrow> w_collector w = None \<or> sy_collector s = CollectorWaiting"
  shows "\<exists>s'. main_step w s s'"
proof (cases "sy_main s")
  case LastFlush
  obtain m n where "take_metrics (sy_nozzle s) = (m, n)" by fastforce
  from shutdown_step.last_flush [OF LastFlush this] show ?thesis by (auto simp: main_step_def)
next
  case (PostingMetrics final m q t i)
  show ?thesis
  proof (cases "i < length (w_clients w)")
    case True
    show ?thesis
    proof (cases "post_account (\<lambda>_. PostMetrics (w_compress w) (\<lambda>_. id) (w_urls w) (\<lambda>_ _. NoResponse)) t q i
        (w_clients w ! i) (m, sy_nozzle s)")
      case Panic
      from flush_step.post_metrics_panic [OF PostingMetrics True Panic] show ?thesis by (auto simp: main_step_def)
    next
      case (Ret mn)
      with flush_step.post_metrics [OF PostingMetrics True, of "\<lambda>_. id" "\<lambda>_ _. NoResponse" "fst mn" "snd mn"]
      show ?thesis by (auto simp: main_step_def)
    qed
  next
    case False
    from flush_step.count_metrics [OF PostingMetrics False] show ?thesis by (auto simp: main_step_def)
  qed
next
  case (MetricsPosted final)
  from flush_step.metrics_posted [OF this] show ?thesis by (auto simp: main_step_def)
next
  case (TakingLogs final)
  obtain b n where "take_logs (sy_nozzle s) = (b, n)" by fastforce
  from flush_step.take_logs [OF TakingLogs this] show ?thesis by (auto simp: main_step_def)
next
  case (PostingLogs final b i)
  show ?thesis
  proof (cases "i < length (w_clients w)")
    case True
    show ?thesis
    proof (cases "log_account (\<lambda>_. PostLogs (w_compress w) (w_urls w) (\<lambda>_ _. NoResponse)) i (w_clients w ! i) b (sy_nozzle s)")
      case Panic
      from flush_step.post_logs_panic [OF PostingLogs True Panic] show ?thesis by (auto simp: main_step_def)
    next
      case (Ret n)
      from flush_step.post_logs [OF PostingLogs True Ret] show ?thesis by (auto simp: main_step_def)
    qed
  next
    case False
    from flush_step.count_logs [OF PostingLogs False] show ?thesis by (auto simp: main_step_def)
  qed
next
  case (LogsPosted final)
  from flush_step.logs_posted [OF this] show ?thesis by (auto simp: main_step_def)
next
  case StopRequested
  from stopWorkers_step.stop_refresh [OF this] show ?thesis by (auto simp: main_step_def)
next
  case (Stopping k)
  then show ?thesis
    using stopWorkers_step.workers_stopped [of s w] stopWorkers_step.stop_timeout [of s "k - 1" w]
    by (cases k) (auto simp: main_step_def)
next
  case StoppingCollector
  with assms(3) shutdown_step.no_collector [OF StoppingCollector, of w] shutdown_step.stop_collector [OF StoppingCollector, of w]
  show ?thesis by (cases "w_collector w") (auto simp: main_step_def)
qed (use assms in simp_all)

text \<open>The collector can step until it waits, and then it does wait or the process has crashed.\<close>

lemma collector_enabled:
  assumes "intervals_ok w" and "w_collector w = Some oc" and "sy_collector s \<in> {CollectorStarting, CollectorJitter}"
  shows "\<exists>s'. collector_step w s s'"
proof -
  have i: "oc_queryInterval oc \<noteq> 0" using assms(1,2) by (simp add: intervals_ok_def)
  obtain p j where t: "collector_ticker oc = Ret (p, j)" and jw: "jitterWait j id \<noteq> Panic"
    using GetTickerWithJitter_no_panic [OF i, of id] by (auto simp: collector_ticker_def)
  then obtain x where x: "jitterWait j id = Ret x" by (cases "jitterWait j id") auto
  show ?thesis
    using assms(3) collector_step.collector_start [OF assms(2) _ t] collector_step.collector_jitter [OF assms(2) _ t x] by blast
qed

lemma collector_then_waits:
  "collector_step w s s' \<Longrightarrow> sy_collector s \<in> {CollectorStarting, CollectorJitter} \<Longrightarrow>
   sy_collector s' = CollectorWaiting \<or> sy_crashed s'"
  by (induction rule: collector_step.induct) auto

lemma fair_shutdown:
  assumes "reachable w (initial w cache) (\<sigma> 0)" and "rank_of w (\<sigma> 0) = Some r" and "intervals_ok w"
    and "run_of w \<sigma>" and "fair_to (main_step w) \<sigma>" and "fair_to (collector_step w) \<sigma>"
  shows "\<exists>n. sy_main (\<sigma> n) = Finished \<or> sy_crashed (\<sigma> n)"
proof (rule ccontr)
  assume "\<not> ?thesis"
  then have going: "sy_main (\<sigma> n) \<noteq> Finished" "\<not> sy_crashed (\<sigma> n)" for n by auto
  define k where "k = (LEAST k. \<exists>n. rank_of w (\<sigma> n) = Some k)"
  have "\<exists>n. rank_of w (\<sigma> n) = Some k" unfolding k_def by (rule LeastI_ex) (use assms(2) in blast)
  then obtain N where N: "rank_of w (\<sigma> N) = Some k" by blast
  have least: "k \<le> k'" if "rank_of w (\<sigma> n) = Some k'" for n k' unfolding k_def by (rule Least_le) (use that in blast)
  have rank: "rank_of w (\<sigma> n) = Some k" if "N \<le> n" for n
    using run_rank [OF assms(4) N, of "n - N"] least that by fastforce
  have "\<not> main_step w (\<sigma> n) (\<sigma> (Suc n))" if "N \<le> n" for n
  proof
    assume "main_step w (\<sigma> n) (\<sigma> (Suc n))"
    from main_step_rank [OF this rank [OF that]] going least show False by fastforce
  qed
  with assms(5) obtain M where "\<forall>m\<ge>M. \<not> (\<exists>s'. main_step w (\<sigma> m) s')" unfolding fair_to_def by blast
  then have stuck: "sy_main (\<sigma> n) = StoppingCollector \<and> w_collector w \<noteq> None \<and> sy_collector (\<sigma> n) \<noteq> CollectorWaiting"
    if "max N M \<le> n" for n
    using main_enabled [OF rank [of n] going(1) [of n]] that by fastforce
  have inv: "collector_inv w (\<sigma> n)" for n by (rule collecting.holds [OF run_reachable [OF assms(4,1)]])
  have on: "sy_collector (\<sigma> n) \<in> {CollectorStarting, CollectorJitter}" if "max N M \<le> n" for n
    using stuck [OF that] inv [of n] by (cases "sy_collector (\<sigma> n)") (auto simp: collector_inv_def)
  obtain oc where oc: "w_collector w = Some oc" using stuck [of "max N M"] by auto
  have "\<forall>n. \<exists>m\<ge>n. \<exists>s'. collector_step w (\<sigma> m) s'"
  proof
    fix n
    have "\<exists>s'. collector_step w (\<sigma> (max n (max N M))) s'" by (rule collector_enabled [OF assms(3) oc on]) simp
    then show "\<exists>m\<ge>n. \<exists>s'. collector_step w (\<sigma> m) s'" by (intro exI [of _ "max n (max N M)"]) simp
  qed
  with assms(6) obtain m where m: "max N M \<le> m" "collector_step w (\<sigma> m) (\<sigma> (Suc m))" unfolding fair_to_def by blast
  from collector_then_waits [OF m(2) on [OF m(1)]] stuck [of "Suc m"] m(1) going show False by auto
qed

text \<open>Every path to a state is the start of a run that stays there.\<close>

lemma reachable_run: "reachable w s s' \<Longrightarrow> \<exists>\<sigma> N. \<sigma> 0 = s \<and> run_of w \<sigma> \<and> (\<forall>n\<ge>N. \<sigma> n = s')"
proof (induction rule: reachable.induct)
  case start
  show ?case by (intro exI [of _ "\<lambda>_. s"] exI [of _ 0]) (simp add: run_of_def)
next
  case (step t t')
  then obtain \<sigma> N where r: "\<sigma> 0 = s" "run_of w \<sigma>" "\<forall>n\<ge>N. \<sigma> n = t" by blast
  let ?\<sigma> = "\<lambda>n. if n \<le> N then \<sigma> n else t'"
  have "run_of w ?\<sigma>"
    unfolding run_of_def
  proof
    fix n
    consider "Suc n \<le> N" | "n = N" | "N < n" by linarith
    then show "?\<sigma> (Suc n) = ?\<sigma> n \<or> \<not> sy_crashed (?\<sigma> n) \<and> nozzle_step w (?\<sigma> n) (?\<sigma> (Suc n))"
    proof cases
      case 1
      with r(2) show ?thesis by (simp add: run_of_def)
    next
      case 2
      with r(3) step.hyps show ?thesis by simp
    qed simp
  qed
  with r(1) show ?case by (intro exI [of _ ?\<sigma>] exI [of _ "Suc N"]) simp
qed

text \<open>The collector is gone when it has been stopped, and if there is none.\<close>

definition collector_gone :: "'u world \<Rightarrow> System \<Rightarrow> bool" where
  "collector_gone w s \<longleftrightarrow>
     (w_collector w = None \<or> (\<exists>r. rank_of w s = Some r \<and> r < 2 * length (w_clients w) + 7) \<longrightarrow> sy_collector s = CollectorOff)"

lemma collector_off_step:
  "nozzle_step w s s' \<Longrightarrow> sy_collector s = CollectorOff \<Longrightarrow> sy_collector s' = CollectorOff"
  by (elim nozzle_step.cases) (auto elim: background_cases main_cases)

lemma collector_stopped_step:
  assumes "nozzle_step w s s'" and "rank_of w s' = Some r'" and "r' < 2 * length (w_clients w) + 7"
  shows "(\<exists>r. rank_of w s = Some r \<and> r < 2 * length (w_clients w) + 7) \<or> w_collector w = None \<or> sy_collector s' = CollectorOff"
proof -
  have "main_step w s s' \<Longrightarrow> ?thesis"
    using assms(2,3) unfolding main_step_def by (elim disjE main_cases) (auto split: if_splits)
  with nozzle_step_main [OF assms(1)] assms(2,3) show ?thesis by auto
qed

interpretation stopped: system_invariant w "initial w cache" "collector_gone w" for w cache
proof unfold_locales
  show "collector_gone w (initial w cache)" by (auto simp: collector_gone_def initial_def)
next
  fix s s'
  assume "nozzle_step w s s'" and "collector_gone w s"
  then show "collector_gone w s'"
    using collector_off_step [of w s s'] collector_stopped_step [of w s s'] by (auto simp: collector_gone_def)
qed

lemma ended_fair:
  assumes "reachable w (initial w cache) t" and "sy_main t = Finished" and "\<forall>n\<ge>N. \<sigma> n = t"
  shows "fair_to (main_step w) \<sigma>" and "fair_to (collector_step w) \<sigma>"
proof -
  have "\<not> main_step w t s'" for s' using assms(2) unfolding main_step_def by (auto elim: main_cases)
  then show "fair_to (main_step w) \<sigma>" using assms(3) by (fastforce simp: fair_to_def)
  have "sy_collector t = CollectorOff" using stopped.holds [OF assms(1)] assms(2) by (simp add: collector_gone_def)
  then have "\<not> collector_step w t s'" for s' by (auto elim: collector_step.cases)
  then show "fair_to (collector_step w) \<sigma>" using assms(3) by (fastforce simp: fair_to_def)
qed

section \<open>The properties of the shut-down\<close>

text \<open>
  C7: Shutting down ends. The API keys have at least four characters, the intervals are not zero, and the cache
  and the collector have a client to ask (as in every started process). From every state that is reached after the stop signal, every run of the goroutines that is fair to the main one and to the collector
  gets to the end, whatever the others do, unless a worker meets a gauge entry without a value. For every step of
  any goroutine leaves the main goroutine where it is or brings it closer to the end, from which it is at
  most as many steps away as there are stop messages, two for each account, and nine. The end can always be
  reached without a panic. (A fair run lets a goroutine step that is able to again and again: the
  collector chooses between its ticker and the stop message at random, so it cannot pass over the message for ever.)
\<close>

theorem shutdown_ends:
  assumes "reachable w (initial w cache) s" and "\<not> sy_crashed s" and "clients_ok w" and "intervals_ok w"
    and "collector_ok w" and "has_source (w_processor w)" and "cache_ok cache"
    and "shutdown_rank (length (w_clients w)) (nat (stopWorkers_count (w_config w))) (sy_main s) = Some r"
  shows "r \<le> nat (stopWorkers_count (w_config w)) + 2 * length (w_clients w) + 9 \<and>
    (\<forall>s'. nozzle_step w s s' \<longrightarrow> sy_main s' = sy_main s \<or>
       (\<exists>r'<r. shutdown_rank (length (w_clients w)) (nat (stopWorkers_count (w_config w))) (sy_main s') = Some r')) \<and>
    (\<forall>\<sigma>. \<sigma> 0 = s \<and> run_of w \<sigma> \<and> fair_to (main_step w) \<sigma> \<and> fair_to (collector_step w) \<sigma> \<longrightarrow>
       (\<exists>n. sy_main (\<sigma> n) = Finished \<or>
          sy_crashed (\<sigma> n) \<and> (\<exists>e es. nz_messages (sy_nozzle (\<sigma> n)) = e # es \<and> keepMessage (w_config w) e \<and> has_nil_value (ev_Message e)))) \<and>
    (\<exists>s'. reachable w s s' \<and> \<not> sy_crashed s' \<and> sy_main s' = Finished)"
proof (intro conjI allI impI)
  show "r \<le> nat (stopWorkers_count (w_config w)) + 2 * length (w_clients w) + 9"
    using ranked.holds [OF assms(1)] assms(8) by (simp add: rank_inv_def rank_bound_def)
next
  fix \<sigma> assume \<sigma>: "\<sigma> 0 = s \<and> run_of w \<sigma> \<and> fair_to (main_step w) \<sigma> \<and> fair_to (collector_step w) \<sigma>"
  then have r: "reachable w (initial w cache) (\<sigma> n)" for n using run_reachable [of w \<sigma>] assms(1) by simp
  obtain n where "sy_main (\<sigma> n) = Finished \<or> sy_crashed (\<sigma> n)"
    using fair_shutdown [of w cache \<sigma> r] r [of 0] \<sigma> assms(4,8) by auto
  with crash_cause [OF r _ assms(7,6,3,4,5)] show "\<exists>n. sy_main (\<sigma> n) = Finished \<or>
      sy_crashed (\<sigma> n) \<and> (\<exists>e es. nz_messages (sy_nozzle (\<sigma> n)) = e # es \<and> keepMessage (w_config w) e \<and> has_nil_value (ev_Message e))"
    by blast
next
  show "\<exists>s'. reachable w s s' \<and> \<not> sy_crashed s' \<and> sy_main s' = Finished"
    by (rule shutdown_reaches [OF assms(8,3,4,2) collecting.holds [OF assms(1)]])
qed (use step_rank [OF _ assms(8)] in blast)

text \<open>The sample system after the stop signal; its process has one worker and two readers, and the reader of the metrics was stopped first.\<close>

definition stopping_system :: System where
  "stopping_system = pushed_system\<lparr>sy_metricsReader := False, sy_refreshStop := True, sy_main := Stopping 1\<rparr>"

lemma reachable_stopping: "reachable sample_world (initial sample_world newAppCache) stopping_system"
proof -
  let ?w = sample_world and ?i = "initial sample_world newAppCache" and ?s3 = pushed_system
  let ?s4 = "?s3\<lparr>sy_main := Running\<rparr>" and ?s5 = "?s3\<lparr>sy_main := StopRequested\<rparr>"
  let ?s6 = "?s3\<lparr>sy_refreshStop := True, sy_main := Stopping 2\<rparr>"
  obtain p where f: "flush_ticker (w_config ?w) = Ret p" using sample_tickers(1) by blast
  have 4: "nozzle_step ?w ?s3 ?s4"
    using run_step.run [of ?s3, OF _ f] by (intro nozzle_step.run) (simp add: pushed_system_def initial_def)
  have 5: "nozzle_step ?w ?s4 ?s5" using run_step.stop [of ?s4 ?w] by (intro nozzle_step.run) simp
  have 6: "nozzle_step ?w ?s5 ?s6"
    using stopWorkers_step.stop_refresh [of ?s5 ?w]
    by (intro nozzle_step.stopWorkers)
      (simp add: sample_world_def sample_processor_def stopWorkers_count_def StopAppMetrics_def zero_Config_def)
  have 7: "nozzle_step ?w ?s6 stopping_system"
    using stopWorkers_step.stop_metrics_reader [of ?s6 1 ?w]
    by (intro nozzle_step.stopWorkers) (simp add: pushed_system_def initial_def stopping_system_def numeral_2_eq_2)
  have ok: "\<not> sy_crashed ?s3" by (simp add: pushed_system_def initial_def)
  have r4: "reachable ?w ?i ?s4" by (rule reachable.step [OF reachable_pushed ok 4])
  have r5: "reachable ?w ?i ?s5" by (rule reachable.step [OF r4 _ 5]) (simp add: ok)
  have r6: "reachable ?w ?i ?s6" by (rule reachable.step [OF r5 _ 6]) (simp add: ok)
  show ?thesis by (rule reachable.step [OF r6 _ 7]) (simp add: ok)
qed

lemma sample_world_ok: "clients_ok sample_world" "intervals_ok sample_world"
  using some_client_key
  by (simp_all add: sample_world_def clients_ok_def intervals_ok_def sample_processor_def sample_parser_def
      sample_collector_def grab_seconds_def wrap_int_def)

text \<open>In the witness the run goes to the end and stays there.\<close>

theorem shutdown_ends_witness:
  "\<exists>\<sigma>. \<sigma> 0 = stopping_system \<and> run_of sample_world \<sigma> \<and> fair_to (main_step sample_world) \<sigma> \<and>
     fair_to (collector_step sample_world) \<sigma> \<and> (\<exists>n. sy_main (\<sigma> n) = Finished \<or> sy_crashed (\<sigma> n)) \<and>
     (\<exists>s'. reachable sample_world stopping_system s' \<and> \<not> sy_crashed s' \<and> sy_main s' = Finished)"
proof -
  have ok: "collector_ok sample_world" "has_source (w_processor sample_world)" "\<not> sy_crashed stopping_system"
    "rank_of sample_world stopping_system = Some 11"
    by (simp_all add: collector_ok_def has_source_def sample_world_def sample_collector_def sample_processor_def sample_parser_def
        stopping_system_def pushed_system_def initial_def)
  note ends = shutdown_ends [OF reachable_stopping ok(3) sample_world_ok ok(1,2) newAppCache_ok ok(4)]
  then obtain t where t: "reachable sample_world stopping_system t" "\<not> sy_crashed t" "sy_main t = Finished" by blast
  obtain \<sigma> N where \<sigma>: "\<sigma> 0 = stopping_system" "run_of sample_world \<sigma>" "\<forall>n\<ge>N. \<sigma> n = t"
    using reachable_run [OF t(1)] by blast
  note fair = ended_fair [OF reachable_trans [OF t(1) reachable_stopping] t(3) \<sigma>(3)]
  from ends \<sigma>(1,2) fair have "\<exists>n. sy_main (\<sigma> n) = Finished \<or> sy_crashed (\<sigma> n)" by blast
  with \<sigma>(1,2) fair t show ?thesis by blast
qed

text \<open>
  C37: Stopping does not drain the channel of packages. The workers and the readers take the stop messages
  in any order. Once the reader of the metrics has taken one, each package that is in the channel
  stays in it, whatever is sent later, and none is collected any more; the process still ends without
  a panic. So these packages are lost, although the last flush is there to post what is left.
\<close>

theorem shutdown_loses_packages:
  assumes "reachable w (initial w cache) s" and "\<not> sy_crashed s" and "clients_ok w" and "intervals_ok w"
    and "shutdown_rank (length (w_clients w)) (nat (stopWorkers_count (w_config w))) (sy_main s) = Some r"
    and "\<not> sy_metricsReader s"
  shows "(\<forall>s'. reachable w s s' \<longrightarrow>
       prefix (nz_processedMetrics (sy_nozzle s)) (nz_processedMetrics (sy_nozzle s')) \<and> sy_read s' = sy_read s) \<and>
    (\<exists>s'. reachable w s s' \<and> \<not> sy_crashed s' \<and> sy_main s' = Finished)"
proof
  have "unread s (nz_processedMetrics (sy_nozzle s)) (sy_read s)" using assms(6) by (simp add: unread_def)
  from reachable_unread [OF _ this] show "\<forall>s'. reachable w s s' \<longrightarrow>
       prefix (nz_processedMetrics (sy_nozzle s)) (nz_processedMetrics (sy_nozzle s')) \<and> sy_read s' = sy_read s"
    by (auto simp: unread_def)
  show "\<exists>s'. reachable w s s' \<and> \<not> sy_crashed s' \<and> sy_main s' = Finished"
    by (rule shutdown_reaches [OF assms(5,3,4,2) collecting.holds [OF assms(1)]])
qed

theorem shutdown_loses_packages_witness:
  "\<exists>s'. reachable sample_world stopping_system s' \<and> sy_main s' = Finished \<and>
     prefix [[sample_package]] (nz_processedMetrics (sy_nozzle s')) \<and> sy_read s' = []"
proof -
  have "\<not> sy_crashed stopping_system" "\<not> sy_metricsReader stopping_system" "sy_read stopping_system = []"
    "nz_processedMetrics (sy_nozzle stopping_system) = [[sample_package]]"
    "rank_of sample_world stopping_system = Some 11"
    by (simp_all add: stopping_system_def pushed_system_def initial_def sample_world_def NewNozzle_def)
  with shutdown_loses_packages [OF reachable_stopping _ sample_world_ok, of 11] show ?thesis by auto
qed

end
