(* ===== verification/Nozzle_Progress.thy ===== *)
theory Nozzle_Progress
  imports Nozzle_Shutdown
begin

text \<open>
  Progress: until the nozzle is told to stop no goroutine is stuck. From every state that is reached the
  workers and the readers can process all that was received, whatever the main goroutine is doing,
  so that a full channel only delays its senders.
\<close>

section \<open>Who is there\<close>

definition flow_inv :: "'u world \<Rightarrow> System \<Rightarrow> bool" where
  "flow_inv w s \<longleftrightarrow>
     length (sy_workers s) = nat (cfg_NumWorkers (w_config w)) \<and>
     (rank_of w s = None \<longrightarrow>
        sy_metricsReader s \<and> sy_logsReader s = cfg_EnableApplicationLogs (w_config w) \<and> Stopped \<notin> set (sy_workers s)) \<and>
     (\<not> cfg_EnableApplicationLogs (w_config w) \<longrightarrow>
        nz_processedLogs (sy_nozzle s) = [] \<and> (\<forall>l. SendLog l \<notin> set (sy_workers s)))"

lemma in_set_update: "x \<in> set (xs[i := y]) \<Longrightarrow> x = y \<or> x \<in> set xs"
  using set_update_subset_insert [of xs i y] by blast

lemma flow_inv_core:
  "core (sy_nozzle s') = core (sy_nozzle s) \<Longrightarrow> sy_workers s' = sy_workers s \<Longrightarrow> sy_metricsReader s' = sy_metricsReader s \<Longrightarrow>
   sy_logsReader s' = sy_logsReader s \<Longrightarrow> (rank_of w s' = None \<Longrightarrow> rank_of w s = None) \<Longrightarrow> flow_inv w s \<Longrightarrow> flow_inv w s'"
  by (simp add: flow_inv_def core_def)

lemma work_message_SendLog:
  "work_message w rng c n e = Ret (n', SendLog l) \<Longrightarrow> cfg_EnableApplicationLogs (w_config w)"
  by (elim work_message_cases) (auto simp: app_metric_def split: if_splits)

lemma worker_flow: "worker_step w s s' \<Longrightarrow> flow_inv w s \<Longrightarrow> flow_inv w s'"
proof (induction rule: worker_step.induct)
  case (work i s e es rng n nw)
  then show ?case
    using work_message_core [OF work(4)] work_message_SendLog [of w rng "sy_cache s" _ e n] work(4)
    by (auto simp: flow_inv_def core_def dest!: in_set_update)
next
  case (app i s cache nw)
  then show ?case using app_step_next [OF app(2)] by (auto simp: flow_inv_def dest!: in_set_update)
next
  case (send_log i s l)
  have "SendLog l \<in> set (sy_workers s)" using send_log(1,2) by (metis nth_mem)
  with send_log show ?case by (auto simp: flow_inv_def dest!: in_set_update)
qed (auto simp: flow_inv_def dest!: in_set_update)

lemma flush_flow: "flush_step w s s' \<Longrightarrow> flow_inv w s \<Longrightarrow> flow_inv w s'"
proof (induction rule: flush_step.induct)
  case (post_metrics s final m received timestamp i rng http m' n)
  then show ?case
    using core_post_account [OF post_metrics(3)] by - (rule flow_inv_core [of _ s], simp_all split: if_splits)
next
  case (post_logs s final buffer i http n)
  then show ?case using core_log_account [OF post_logs(3)] by - (rule flow_inv_core [of _ s], simp_all split: if_splits)
qed (auto simp: flow_inv_def take_logs_def ResetSlowConsumerError_def add_metrics_sent_def add_logs_sent_def split: if_splits)

lemma run_flow: "run_step w s s' \<Longrightarrow> flow_inv w s \<Longrightarrow> flow_inv w s'"
proof (induction rule: run_step.induct)
  case (end_of_tick s n)
  then show ?case using end_tick_Ret [OF end_of_tick(2)] by (auto simp: flow_inv_def)
qed (auto simp: flow_inv_def take_metrics_def)

lemma stopWorkers_flow: "stopWorkers_step w s s' \<Longrightarrow> flow_inv w s \<Longrightarrow> flow_inv w s'"
  by (induction rule: stopWorkers_step.induct) (auto simp: flow_inv_def dest!: in_set_update)

lemma shutdown_flow: "shutdown_step w s s' \<Longrightarrow> flow_inv w s \<Longrightarrow> flow_inv w s'"
  by (induction rule: shutdown_step.induct) (auto simp: flow_inv_def take_metrics_def)

lemma other_flow:
  "consumer_step s s' \<or> metrics_reader_step s s' \<or> logs_reader_step s s' \<or> refresh_step w s s' \<or> collector_step w s s' \<or>
     push_step w s s' \<Longrightarrow> flow_inv w s \<Longrightarrow> flow_inv w s'"
  by (elim disjE background_cases) (auto simp: flow_inv_def read_log_def read_metrics_def)

interpretation flowing: system_invariant w "initial w cache" "flow_inv w" for w cache
proof unfold_locales
  show "flow_inv w (initial w cache)" by (auto simp: flow_inv_def initial_def NewNozzle_def)
next
  show "nozzle_step w s s' \<Longrightarrow> flow_inv w s \<Longrightarrow> flow_inv w s'" for s s'
    using worker_flow flush_flow run_flow stopWorkers_flow shutdown_flow other_flow by (elim nozzle_step.cases) blast+
qed

section \<open>The work that is left\<close>

text \<open>Each envelope, package and log counts for the steps that it still needs.\<close>

definition is_sending :: "push \<Rightarrow> bool" where
  "is_sending p \<longleftrightarrow> (case p of SendingPackages _ \<Rightarrow> True | _ \<Rightarrow> False)"

fun worker_left :: "worker \<Rightarrow> nat" where
  "worker_left Idle = 0"
| "worker_left (LookingUp e) = 6"
| "worker_left (Fetching e) = 5"
| "worker_left (Adding cfapp e) = 4"
| "worker_left (ParsingApp key e) = 3"
| "worker_left (SendMetrics pkg) = 2"
| "worker_left (SendLog l) = 2"
| "worker_left Stopped = 1"

lemma worker_left_0: "worker_left x = 0 \<longleftrightarrow> x = Idle"
  by (cases x) simp_all

lemma worker_left_le: "worker_left x \<le> 6"
  by (cases x) simp_all

definition work_left :: "System \<Rightarrow> nat" where
  "work_left s =
     8 * length (sy_batch s) + 7 * length (nz_messages (sy_nozzle s)) + sum_list (map worker_left (sy_workers s)) +
     2 * length (filter is_sending (sy_pushes s)) +
     length (nz_processedMetrics (sy_nozzle s)) + length (nz_processedLogs (sy_nozzle s))"

definition no_nil_values :: "System \<Rightarrow> bool" where
  "no_nil_values s \<longleftrightarrow> list_all (\<lambda>e. \<not> has_nil_value (ev_Message e)) (nz_messages (sy_nozzle s) @ sy_batch s)"

lemma length_filter_update:
  "i < length xs \<Longrightarrow>
   length (filter P (xs[i := y])) + (if P (xs ! i) then 1 else 0) = length (filter P xs) + (if P y then 1 else 0)"
proof (induction xs arbitrary: i)
  case (Cons x xs)
  then show ?case by (cases i) auto
qed simp

lemma worker_left_update:
  "i < length xs \<Longrightarrow>
   sum_list (map worker_left (xs[i := y])) + worker_left (xs ! i) = sum_list (map worker_left xs) + worker_left y"
  by (induction xs arbitrary: i) (auto simp: nth_Cons split: nat.split)

lemma work_left_pos:
  assumes "0 < work_left s" and "nz_processedMetrics (sy_nozzle s) = []" and "nz_processedLogs (sy_nozzle s) = []"
    and "\<forall>i<length (sy_workers s). sy_workers s ! i = Idle"
    and "\<forall>i<length (sy_pushes s). \<not> is_sending (sy_pushes s ! i)"
  shows "nz_messages (sy_nozzle s) \<noteq> [] \<or> sy_batch s \<noteq> []"
proof -
  have "sum_list (map worker_left (sy_workers s)) = 0" "filter is_sending (sy_pushes s) = []"
    using assms(4,5) by (auto simp: filter_empty_conv in_set_conv_nth worker_left_0)
  with assms(1-3) show ?thesis by (auto simp: work_left_def)
qed

text \<open>A worker that parses the metrics of an app can always go on, whatever the remote API answers.\<close>

lemma app_advances:
  assumes "worker_ready w c x" and "cache_ok c" and "has_source (w_processor w)"
    and "x \<noteq> Idle" and "x \<noteq> Stopped" and "\<forall>pkg. x \<noteq> SendMetrics pkg" and "\<forall>l. x \<noteq> SendLog l"
  shows "\<exists>c' x'. app_step w (c, x) (c', x') \<and> worker_left x' < worker_left x"
proof (cases x)
  case (LookingUp e)
  then show ?thesis
    using app_step.found [of c e _ w] app_step.missing [of c e w] by (cases "AppCache_Get c (ev_SourceId e)") fastforce+
next
  case (Fetching e)
  with assms(1) obtain am where am: "prc_appMetrics (w_processor w) = Some am" by auto
  have f: "fetch_app (parser_at src am) (ev_SourceId e) = Some (src_GetApplication src (ev_SourceId e))" for src
    by (rule fetch_app_at [OF assms(3) am])
  show ?thesis
  proof (cases "src_GetApplication (undefined :: app_source) (ev_SourceId e)")
    case (Inl err)
    with app_step.not_fetched [OF am, of undefined e err c] f Fetching show ?thesis
      by (intro exI [of _ c] exI [of _ Idle]) simp
  next
    case (Inr cfapp)
    with app_step.fetched [OF am, of undefined e cfapp c] f Fetching show ?thesis
      by (intro exI [of _ c] exI [of _ "Adding cfapp e"]) simp
  qed
next
  case (Adding cfapp e)
  obtain c' app where "AppCache_Add (w_config w) c cfapp = (c', app)" by fastforce
  from app_step.add [OF this, of e] Adding show ?thesis
    by (intro exI [of _ c'] exI [of _ "case app of None \<Rightarrow> SendMetrics [] | Some _ \<Rightarrow> ParsingApp (cf_GUID cfapp) e"])
      (simp split: option.split)
next
  case (ParsingApp key e)
  with assms(1) obtain am a where a: "prc_appMetrics (w_processor w) = Some am" "AppCache_Get c key = Some a"
    and "IsContainerMetric (ev_Message e)" by auto
  from parse_app_Ret [OF this(3) assms(2) a(2)] obtain c' ps where "parse_app am (\<lambda>_. 0) c key a e = Ret (c', Inr ps)" by blast
  from app_step.parse [OF a this] ParsingApp show ?thesis by fastforce
qed (use assms(4-7) in simp_all)

text \<open>Some goroutine does a part of it without a panic; the main goroutine is not needed.\<close>

lemma drain_step:
  assumes "0 < work_left s" and "\<not> sy_crashed s" and "rank_of w s = None" and "flow_inv w s" and "no_nil_values s"
    and "0 < cfg_NumWorkers (w_config w)" and "cache_ok (sy_cache s)" and "has_source (w_processor w)" and "workers_inv w s"
  shows "\<exists>s'. nozzle_step w s s' \<and> \<not> sy_crashed s' \<and> sy_main s' = sy_main s \<and> no_nil_values s' \<and> work_left s' < work_left s"
proof -
  have alive: "sy_metricsReader s" "Stopped \<notin> set (sy_workers s)" "length (sy_workers s) = nat (cfg_NumWorkers (w_config w))"
    using assms(3,4) by (simp_all add: flow_inv_def)
  consider p ps where "nz_processedMetrics (sy_nozzle s) = p # ps" | l ls where "nz_processedLogs (sy_nozzle s) = l # ls"
    | i where "nz_processedMetrics (sy_nozzle s) = []" "nz_processedLogs (sy_nozzle s) = []" "i < length (sy_workers s)"
        "sy_workers s ! i \<noteq> Idle"
    | i where "nz_processedMetrics (sy_nozzle s) = []" "i < length (sy_pushes s)" "is_sending (sy_pushes s ! i)"
    | e es where "nz_messages (sy_nozzle s) = e # es" "\<forall>i<length (sy_workers s). sy_workers s ! i = Idle"
    | e es where "nz_messages (sy_nozzle s) = []" "sy_batch s = e # es"
    using work_left_pos [OF assms(1)] by (metis neq_Nil_conv)
  then show ?thesis
  proof cases
    case (1 p ps)
    from nozzle_step.metrics_reader [OF metrics_reader_step.read_metrics [OF alive(1) 1]] 1 assms(2,5) show ?thesis
      by (fastforce simp: work_left_def no_nil_values_def read_metrics_def)
  next
    case (2 l ls)
    then have "sy_logsReader s" using assms(3,4) by (auto simp: flow_inv_def)
    from nozzle_step.logs_reader [OF logs_reader_step.read_logs [OF this 2]] 2 assms(2,5) show ?thesis
      by (fastforce simp: work_left_def no_nil_values_def read_log_def)
  next
    case (3 i)
    note f = worker_left_update [OF 3(3)]
    let ?x = "sy_workers s ! i"
    have x: "?x \<noteq> Stopped" using alive(2) 3(3) by (metis nth_mem)
    consider pkg where "?x = SendMetrics pkg" | l where "?x = SendLog l"
      | "\<forall>pkg. ?x \<noteq> SendMetrics pkg" "\<forall>l. ?x \<noteq> SendLog l" by blast
    then show ?thesis
    proof cases
      case (1 pkg)
      from nozzle_step.worker [OF worker_step.send_metrics [OF 3(3) 1]] 1 3 f [of Idle] assms(2,5) show ?thesis
        by (fastforce simp: work_left_def no_nil_values_def processed_cap_def)
    next
      case (2 l)
      from nozzle_step.worker [OF worker_step.send_log [OF 3(3) 2]] 2 3 f [of Idle] assms(2,5) show ?thesis
        by (fastforce simp: work_left_def no_nil_values_def processed_cap_def)
    next
      case others: 3
      have "worker_ready w (sy_cache s) ?x" using assms(9) 3(3) by (simp add: workers_inv_def list_all_length)
      from app_advances [OF this assms(7,8) 3(4) x others] obtain c y where
        y: "app_step w (sy_cache s, ?x) (c, y)" "worker_left y < worker_left ?x" by blast
      from nozzle_step.worker [OF worker_step.app [OF 3(3) y(1)]] f [of y] y(2) assms(2,5) show ?thesis
        by (fastforce simp: work_left_def no_nil_values_def)
    qed
  next
    case (4 i)
    then obtain pkg where "sy_pushes s ! i = SendingPackages pkg" by (auto simp: is_sending_def split: push.splits)
    from nozzle_step.push [OF push_step.push [OF 4(2) this]] 4 assms(2,5) length_filter_update [OF 4(2), of is_sending Pushed]
    show ?thesis by (fastforce simp: work_left_def no_nil_values_def processed_cap_def is_sending_def)
  next
    case (5 e es)
    have i: "0 < length (sy_workers s)" "sy_workers s ! 0 = Idle" using 5(2) alive(3) assms(6) by auto
    let ?m = "work_message w (\<lambda>_. id) (sy_cache s) ((sy_nozzle s)\<lparr>nz_messages := es\<rparr>) e"
    have "?m \<noteq> Panic"
      using work_message_panic [OF _ assms(7)] 5(1) assms(5) by (auto simp: no_nil_values_def)
    then obtain n x where m: "?m = Ret (n, x)" by (cases ?m) auto
    let ?s = "s\<lparr>sy_nozzle := n, sy_workers := (sy_workers s)[0 := x]\<rparr>"
    have "nz_messages n = es" "nz_processedMetrics n = nz_processedMetrics (sy_nozzle s)"
      "nz_processedLogs n = nz_processedLogs (sy_nozzle s)"
      using work_message_core [OF m] by (simp_all add: core_def)
    then have "work_left ?s < work_left s" "no_nil_values ?s"
      using worker_left_update [OF i(1), of x] i(2) worker_left_le [of x] 5(1) assms(5)
      by (simp_all add: work_left_def no_nil_values_def)
    with nozzle_step.worker [OF worker_step.work [OF i 5(1) m]] assms(2) show ?thesis
      by (intro exI [of _ ?s]) simp
  next
    case (6 e es)
    have room: "length (nz_messages (sy_nozzle s)) < messages_cap" using 6(1) by (simp add: messages_cap_def)
    from nozzle_step.consumer [OF consumer_step.receive [OF 6(2) room]] 6 assms(2,5) show ?thesis
      by (fastforce simp: work_left_def no_nil_values_def)
  qed
qed

lemma drain:
  assumes "reachable w (initial w cache) s" and "\<not> sy_crashed s" and "rank_of w s = None" and "no_nil_values s"
    and "0 < cfg_NumWorkers (w_config w)" and "cache_ok cache" and "has_source (w_processor w)"
  shows "\<exists>s'. reachable w s s' \<and> \<not> sy_crashed s' \<and> sy_main s' = sy_main s \<and> work_left s' = 0"
  using assms(1-4)
proof (induction "work_left s" arbitrary: s rule: less_induct)
  case less
  show ?case
  proof (cases "work_left s = 0")
    case True
    with less.prems(2) reachable.start show ?thesis by blast
  next
    case False
    then obtain t where t: "nozzle_step w s t" "\<not> sy_crashed t" "sy_main t = sy_main s" "no_nil_values t" "work_left t < work_left s"
      using drain_step [OF _ less.prems(2,3) flowing.holds [OF less.prems(1)] less.prems(4) assms(5)
          reachable_cache_ok [OF less.prems(1) assms(6)] assms(7) working.holds [OF less.prems(1)]] by blast
    have r: "reachable w (initial w cache) t" by (rule reachable.step [OF less.prems(1,2) t(1)])
    have "rank_of w t = None" using t(3) less.prems(3) by simp
    from less.hyps [OF t(5) r t(2) this t(4)] obtain s' where
      "reachable w t s'" "\<not> sy_crashed s'" "sy_main s' = sy_main t" "work_left s' = 0" by blast
    with reachable_trans [OF _ reachable_one [OF t(1) less.prems(2)]] t(3) show ?thesis by metis
  qed
qed

section \<open>The property\<close>

text \<open>
  C8: The nozzle is never stuck before it is told to stop. From every state that is reached, with any
  contents of the channels, full ones included, the consumer, the workers, the collector's goroutines and
  the readers can go on until everything received is processed and collected, all workers are idle
  and nobody waits to send, without a panic and without a step of the main goroutine; this is for at
  least one worker and envelopes without a nil gauge entry.
\<close>

theorem nozzle_drains:
  assumes "reachable w (initial w cache) s" and "\<not> sy_crashed s"
    and "shutdown_rank (length (w_clients w)) (nat (stopWorkers_count (w_config w))) (sy_main s) = None"
    and "list_all (\<lambda>e. \<not> has_nil_value (ev_Message e)) (nz_messages (sy_nozzle s) @ sy_batch s)"
    and "0 < cfg_NumWorkers (w_config w)" and "cache_ok cache" and "has_source (w_processor w)"
  shows "\<exists>s'. reachable w s s' \<and> \<not> sy_crashed s' \<and> sy_main s' = sy_main s \<and>
    sy_batch s' = [] \<and> nz_messages (sy_nozzle s') = [] \<and>
    nz_processedMetrics (sy_nozzle s') = [] \<and> nz_processedLogs (sy_nozzle s') = [] \<and>
    (\<forall>x\<in>set (sy_workers s'). x = Idle) \<and> (\<forall>pkg. SendingPackages pkg \<notin> set (sy_pushes s'))"
proof -
  have "no_nil_values s" using assms(4) by (simp add: no_nil_values_def)
  from drain [OF assms(1-3) this assms(5-7)] show ?thesis
    by (force simp: work_left_def worker_left_0 filter_empty_conv is_sending_def)
qed

theorem nozzle_drains_witness:
  "\<exists>s'. reachable sample_world pushed_system s' \<and> nz_processedMetrics (sy_nozzle s') = [] \<and> nz_processedMetrics (sy_nozzle pushed_system) \<noteq> []"
proof -
  have "\<not> sy_crashed pushed_system" "rank_of sample_world pushed_system = None"
    "list_all (\<lambda>e. \<not> has_nil_value (ev_Message e)) (nz_messages (sy_nozzle pushed_system) @ sy_batch pushed_system)"
    "nz_processedMetrics (sy_nozzle pushed_system) \<noteq> []"
    by (simp_all add: pushed_system_def initial_def NewNozzle_def)
  moreover have "0 < cfg_NumWorkers (w_config sample_world)" "has_source (w_processor sample_world)"
    by (simp_all add: sample_world_def has_source_def sample_processor_def sample_parser_def)
  ultimately show ?thesis using nozzle_drains [OF reachable_pushed _ _ _ _ newAppCache_ok] by blast
qed

end
