(* ===== verification/Loggregator.thy ===== *)
theory Loggregator
  imports Config Go_Http
begin

text \<open>
  \<^verbatim>\<open>internal/client/cloudfoundry/loggregator_client.go\<close>: the consumer of the reverse log proxy's
  gateway. The streaming client of the library is a parameter; here are what it is given (the URL,
  the doer that authorizes and retries its requests, the request for the stream) and how it is stopped.
\<close>

section \<open>Authorized requests\<close>

record doer =
  do_token :: string
  do_disableACS :: bool

definition newRLPGatewayClientDoer :: "bool \<Rightarrow> doer" where
  "newRLPGatewayClientDoer disableACS = \<lparr>do_token = [], do_disableACS = disableACS\<rparr>"

text \<open>What happens during a call, in order: tokens are fetched, requests sent with a token, time passes.\<close>

datatype doer_event = FetchedToken string | Sent string | Slept

text \<open>A request to the gateway fails or has a response with a status.\<close>

type_synonym gateway_result = "int option"

text \<open>
  \<^verbatim>\<open>Do\<close>: \<open>fetch k\<close> is the token of the \<open>k\<close>-th fetch in this call, \<open>send token k\<close> the result of the \<open>k\<close>-th
  request, which has that token.
\<close>

definition doer_Do ::
  "(nat \<Rightarrow> string) \<Rightarrow> (string \<Rightarrow> nat \<Rightarrow> gateway_result) \<Rightarrow> doer \<Rightarrow> doer \<times> doer_event list \<times> gateway_result" where
  "doer_Do fetch send d =
     (let first = \<not> do_disableACS d \<and> do_token d = [];
          d = (if first then d\<lparr>do_token := fetch 0\<rparr> else d);
          events = (if first then [FetchedToken (fetch 0)] else []) @ [Sent (do_token d)];
          resp = send (do_token d) 0
      in case resp of
           None \<Rightarrow> (d, events, resp)
         | Some status \<Rightarrow>
             if do_disableACS d then (d, events, resp)
             else if status \<ge> 400 then
               (let token = fetch (if first then 1 else 0)
                in (d\<lparr>do_token := token\<rparr>, events @ [Slept, FetchedToken token, Sent token], send token 1))
             else (d, events, resp))"

section \<open>The client\<close>

text \<open>\<^verbatim>\<open>ReplaceAllString\<close> for a pattern that is a fixed text: every occurrence, from the left.\<close>

function replace_all :: "string \<Rightarrow> string \<Rightarrow> string \<Rightarrow> string" where
  "replace_all [] old new = []"
| "replace_all (c # s) old new =
     (if old \<noteq> [] \<and> has_prefix (c # s) old then new @ replace_all (drop (length old) (c # s)) old new
      else c # replace_all s old new)"
  by pat_completeness auto
termination
proof (relation "measure (\<lambda>(s, _, _). length s)")
  fix c s and old :: string
  assume "old \<noteq> [] \<and> has_prefix (c # s) old"
  then show "((drop (length old) (c # s), old, new), c # s, old, new) \<in> measure (\<lambda>(s, _, _). length s)" for new :: string
    by (cases old) auto
qed auto

record LoggregatorClient =
  lc_URL :: string
  lc_doer :: doer
  lc_stopConsumer :: "nat option"
  lc_shardId :: string

text \<open>Without a gateway URL it is guessed from the Cloud Controller's.\<close>

definition logStreamURL :: "Config \<Rightarrow> string option" where
  "logStreamURL cfg =
     (if cfg_RLPGatewayURL cfg \<noteq> [] then Some (cfg_RLPGatewayURL cfg)
      else if cfg_CloudControllerEndpoint cfg \<noteq> []
        then Some (replace_all (cfg_CloudControllerEndpoint cfg) ''://api'' ''://log-stream'')
      else None)"

definition NewLoggregatorClient :: "Config \<Rightarrow> LoggregatorClient option" where
  "NewLoggregatorClient cfg =
     (case logStreamURL cfg of
        None \<Rightarrow> None
      | Some url \<Rightarrow>
          Some \<lparr>lc_URL = url, lc_doer = newRLPGatewayClientDoer (cfg_DisableAccessControl cfg),
                lc_stopConsumer = None, lc_shardId = cfg_FirehoseSubscriptionID cfg\<rparr>)"

datatype selector = Selector_Counter | Selector_Gauge | Selector_Log

record EgressBatchRequest =
  eb_ShardId :: string
  eb_Selectors :: "selector list"

text \<open>
  The stream's context is numbered; the number stands for the function that cancels it. Stopping
  returns the context it cancels.
\<close>

definition EnvelopeStream :: "nat \<Rightarrow> LoggregatorClient \<Rightarrow> LoggregatorClient \<times> EgressBatchRequest" where
  "EnvelopeStream ctx l =
     (l\<lparr>lc_stopConsumer := Some ctx\<rparr>,
      \<lparr>eb_ShardId = lc_shardId l, eb_Selectors = [Selector_Counter, Selector_Gauge, Selector_Log]\<rparr>)"

definition Loggregator_Stop :: "LoggregatorClient \<Rightarrow> nat option" where
  "Loggregator_Stop l = lc_stopConsumer l"

section \<open>Facts\<close>

lemma replace_all_prefix: "old \<noteq> [] \<Longrightarrow> replace_all (old @ t) old new = new @ replace_all t old new"
  by (cases old) (auto simp: has_prefix_def)

lemma replace_all_id:
  assumes "\<not> contains s old" and "old \<noteq> []"
  shows "replace_all s old new = s"
  using assms
proof (induction s)
  case (Cons c s)
  then show ?case by simp
qed simp

lemma replace_all_first:
  assumes "\<And>a b. pre = a @ b \<Longrightarrow> b \<noteq> [] \<Longrightarrow> \<not> has_prefix (b @ old @ t) old" and "old \<noteq> []"
  shows "replace_all (pre @ old @ t) old new = pre @ new @ replace_all t old new"
  using assms(1)
proof (induction pre)
  case Nil
  then show ?case using assms(2) by (simp add: replace_all_prefix)
next
  case (Cons c pre)
  have "\<not> has_prefix ((c # pre) @ old @ t) old" using Cons.prems [of "[]" "c # pre"] by simp
  moreover have "replace_all (pre @ old @ t) old new = pre @ new @ replace_all t old new"
    using Cons.prems [of "c # _"] by (intro Cons.IH) (metis append_Cons)
  ultimately show ?case by simp
qed

definition sent_tokens :: "doer_event list \<Rightarrow> string list" where
  "sent_tokens es = concat (map (\<lambda>e. case e of Sent t \<Rightarrow> [t] | _ \<Rightarrow> []) es)"

definition fetched_tokens :: "doer_event list \<Rightarrow> string list" where
  "fetched_tokens es = concat (map (\<lambda>e. case e of FetchedToken t \<Rightarrow> [t] | _ \<Rightarrow> []) es)"

section \<open>The component's properties\<close>

text \<open>
  C33: The gateway is asked once or twice, never more, and the result is that of the last request. It is
  asked twice exactly if access control is on and the first response has an error status, whatever
  the error; then the second request has a token fetched in between. Without access control no token
  is fetched; otherwise one is fetched before the first request exactly if there is none yet, and the
  token that is kept is that of the last request.
\<close>

theorem doer_Do_retries_once:
  "case doer_Do fetch send d of
     (d', es, r) \<Rightarrow>
       (\<exists>t ts. sent_tokens es = t # ts \<and> t = (if \<not> do_disableACS d \<and> do_token d = [] then fetch 0 else do_token d) \<and>
          do_disableACS d' = do_disableACS d \<and>
          (if \<not> do_disableACS d \<and> (case send t 0 of Some status \<Rightarrow> 400 \<le> status | None \<Rightarrow> False)
           then (\<exists>t'. ts = [t'] \<and> r = send t' 1 \<and> do_token d' = t' \<and> last (fetched_tokens es) = t' \<and>
                   length (fetched_tokens es) = (if do_token d = [] then 2 else 1))
           else ts = [] \<and> r = send t 0 \<and> do_token d' = t \<and>
                length (fetched_tokens es) = (if \<not> do_disableACS d \<and> do_token d = [] then 1 else 0)))"
  by (simp add: doer_Do_def Let_def sent_tokens_def fetched_tokens_def split: option.split)

text \<open>
  Which gateway is used. A configured URL is used as it is. Otherwise an endpoint whose host starts
  with \<^verbatim>\<open>api\<close>, whatever follows, gives the host with \<^verbatim>\<open>log-stream\<close> in its place; any other endpoint is
  used as the gateway itself; there is no client exactly if neither is configured. Envelopes of all
  three kinds are asked for, for the configured subscription.
\<close>

lemma NewLoggregatorClient_URL:
  assumes "CHR '':'' \<notin> set scheme" and "\<not> contains host ''://api''"
  shows "(NewLoggregatorClient cfg = None \<longleftrightarrow> cfg_RLPGatewayURL cfg = [] \<and> cfg_CloudControllerEndpoint cfg = []) \<and>
    logStreamURL (cfg\<lparr>cfg_RLPGatewayURL := [], cfg_CloudControllerEndpoint := scheme @ ''://api'' @ host\<rparr>) =
      Some (scheme @ ''://log-stream'' @ host) \<and>
    (if host = [] then True else logStreamURL (cfg\<lparr>cfg_RLPGatewayURL := [], cfg_CloudControllerEndpoint := host\<rparr>) = Some host)"
proof -
  have "\<not> has_prefix (b @ ''://api'' @ host) ''://api''" if "scheme = a @ b" "b \<noteq> []" for a b
    using that assms(1) by (cases b) (auto simp: has_prefix_def)
  then have "replace_all (scheme @ ''://api'' @ host) ''://api'' ''://log-stream'' =
      scheme @ ''://log-stream'' @ replace_all host ''://api'' ''://log-stream''"
    by (intro replace_all_first) simp_all
  with replace_all_id [OF assms(2)] show ?thesis
    by (simp add: NewLoggregatorClient_def logStreamURL_def del: replace_all.simps)
qed

lemma NewLoggregatorClient_URL_witness:
  "logStreamURL (zero_Config\<lparr>cfg_RLPGatewayURL := [], cfg_CloudControllerEndpoint := ''https://apiary.x''\<rparr>) =
     Some ''https://log-streamary.x''"
  using NewLoggregatorClient_URL [of "''https''" "''ary.x''" zero_Config] by (simp add: has_prefix_def)

end
