(* ===== verification/Uaa.thy ===== *)
theory Uaa
  imports Go_Http Go_Floats
begin

text \<open>
  \<^verbatim>\<open>internal/uaatokenfetcher\<close>: the client of the UAA, \<^verbatim>\<open>uaa_client.go\<close>, and the token fetcher that uses
  it, \<^verbatim>\<open>uaa_token_fetcher.go\<close>.

  Parameters: the network, parsing a URL (\<open>parse\<close> gives the text of the parsed URL), decoding a JSON
  object (its members so far, and whether decoding succeeded) and what \<^verbatim>\<open>fmt\<close> writes for a value that is
  no string. The library's decoder fills a map with strings, numbers, booleans, null and composite
  values.
\<close>

section \<open>Data\<close>

datatype json =
    JString string
  | JNumber float64
  | JBool bool
  | JNull
  | JComposite

datatype uaa_error =
    MissingURL
  | BadUAAURL
  | UAARequestError
  | UAAStatus int
  | ExpiresInError
  | UAADecodeError
  | UAAReadError
  | MissingMember string

record uaa_client =
  uaa_URL :: string

type_synonym json_decoder = "string \<Rightarrow> (string, json) gomap \<times> bool"

definition uaa_NewClient :: "(string \<Rightarrow> string option) \<Rightarrow> string \<Rightarrow> uaa_error + uaa_client" where
  "uaa_NewClient parse uaaUrl =
     (if length uaaUrl = 0 then Inl MissingURL
      else case parse uaaUrl of None \<Rightarrow> Inl BadUAAURL | Some u \<Rightarrow> Inr \<lparr>uaa_URL = u\<rparr>)"

section \<open>Formatting\<close>

text \<open>
  \<^verbatim>\<open>Sprintf("%s", v)\<close> of a member that may be absent, which reads as nil. Values that are no strings are
  written with the parameter \<open>bad\<close>, but for nil.
\<close>

fun sprint_s :: "(json \<Rightarrow> string) \<Rightarrow> json option \<Rightarrow> string" where
  "sprint_s bad (Some (JString s)) = s"
| "sprint_s bad (Some JNull) = ''%!s(<nil>)''"
| "sprint_s bad None = ''%!s(<nil>)''"
| "sprint_s bad (Some v) = bad v"

text \<open>
  \<^verbatim>\<open>ParseFloat(Sprintf("%f", v))\<close>: a number is written with six decimals and read back, \<open>six\<close>; what is
  written for any other value is no number.
\<close>

fun parse_sprint_f :: "(float64 \<Rightarrow> float64) \<Rightarrow> json \<Rightarrow> float64 option" where
  "parse_sprint_f six (JNumber x) = Some (six x)"
| "parse_sprint_f six _ = None"

section \<open>Tokens\<close>

text \<open>A request with the basic authentication of a user; the header is an opaque function of the two.\<close>

definition token_request :: "(string \<Rightarrow> string \<Rightarrow> string) \<Rightarrow> uaa_client \<Rightarrow> string \<Rightarrow> string \<Rightarrow> Request" where
  "token_request basic c username password =
     \<lparr>rq_Method = ''POST'', rq_URL = uaa_URL c @ ''/oauth/token'',
      rq_Header = [(''Authorization'', basic username password),
                   (''Content-Type'', ''application/x-www-form-urlencoded'')],
      rq_Body = encode_form [(''client_id'', username), (''grant_type'', ''client_credentials'')]\<rparr>"

definition GetAuthTokenWithExpiresIn ::
  "(string \<Rightarrow> string \<Rightarrow> string) \<Rightarrow> (Request \<Rightarrow> reply) \<Rightarrow> json_decoder \<Rightarrow> (json \<Rightarrow> string) \<Rightarrow> (float64 \<Rightarrow> float64)
     \<Rightarrow> uaa_client \<Rightarrow> string \<Rightarrow> string \<Rightarrow> string \<times> int \<times> uaa_error option" where
  "GetAuthTokenWithExpiresIn basic send decode bad six c username password =
     (case send (token_request basic c username password) of
        NotARequest \<Rightarrow> ([], -1, Some UAARequestError)
      | NoReply \<Rightarrow> ([], -1, Some UAARequestError)
      | Reply status body \<Rightarrow>
          if status \<noteq> 200 then ([], -1, Some (UAAStatus status))
          else
            let (jsonData, ok) = (case body of None \<Rightarrow> ([], False) | Some b \<Rightarrow> decode b);
                err = (if ok then None else Some UAADecodeError);
                token = (\<lambda>expiresIn. (sprint_s bad (gget jsonData ''token_type'') @ '' '' @
                           sprint_s bad (gget jsonData ''access_token''), expiresIn, err))
            in case gget jsonData ''expires_in'' of
                 None \<Rightarrow> token 0
               | Some value \<Rightarrow>
                   (case parse_sprint_f six value of
                      None \<Rightarrow> ([], -1, Some ExpiresInError)
                    | Some asFloat \<Rightarrow> token (trunc_int asFloat)))"

definition GetAuthToken ::
  "(string \<Rightarrow> string \<Rightarrow> string) \<Rightarrow> (Request \<Rightarrow> reply) \<Rightarrow> json_decoder \<Rightarrow> (json \<Rightarrow> string) \<Rightarrow> (float64 \<Rightarrow> float64)
     \<Rightarrow> uaa_client \<Rightarrow> string \<Rightarrow> string \<Rightarrow> string \<times> uaa_error option" where
  "GetAuthToken basic send decode bad six c username password =
     (case GetAuthTokenWithExpiresIn basic send decode bad six c username password of
        (token, expiresIn, err) \<Rightarrow> (token, err))"

definition TokenIsAuthorized ::
  "(string \<Rightarrow> string \<Rightarrow> string) \<Rightarrow> (Request \<Rightarrow> reply) \<Rightarrow> uaa_client \<Rightarrow> string \<Rightarrow> string \<Rightarrow> string \<Rightarrow> string
     \<Rightarrow> bool \<times> uaa_error option" where
  "TokenIsAuthorized basic send c username password token client_id =
     (case send \<lparr>rq_Method = ''POST'', rq_URL = uaa_URL c @ ''/check_token'',
              rq_Header = [(''Authorization'', basic username password),
                           (''Content-Type'', ''application/x-www-form-urlencoded'')],
              rq_Body = ''token='' @ token\<rparr> of
        NotARequest \<Rightarrow> (False, Some UAARequestError)
      | NoReply \<Rightarrow> (False, Some UAARequestError)
      | Reply status body \<Rightarrow>
          if status \<noteq> 200 then (False, Some (UAAStatus status))
          else (case body of
                  None \<Rightarrow> (False, Some UAAReadError)
                | Some responseBody \<Rightarrow>
                    if contains responseBody client_id then (True, None) else (False, None)))"

definition GetRefreshToken ::
  "(string \<Rightarrow> string \<Rightarrow> string) \<Rightarrow> (Request \<Rightarrow> reply) \<Rightarrow> json_decoder \<Rightarrow> (json \<Rightarrow> string) \<Rightarrow> uaa_client
     \<Rightarrow> string \<Rightarrow> string \<Rightarrow> uaa_error + string \<times> string" where
  "GetRefreshToken basic send decode bad c clientID refreshToken =
     (case send \<lparr>rq_Method = ''POST'', rq_URL = uaa_URL c @ ''/oauth/token'',
              rq_Header = [(''Authorization'', basic clientID []),
                           (''Content-Type'', ''application/x-www-form-urlencoded''), (''Accept'', ''application/json'')],
              rq_Body = encode_form [(''client_id'', clientID), (''grant_type'', ''refresh_token''),
                                     (''refresh_token'', refreshToken)]\<rparr> of
        NotARequest \<Rightarrow> Inl UAARequestError
      | NoReply \<Rightarrow> Inl UAARequestError
      | Reply status body \<Rightarrow>
          if status \<noteq> 200 then Inl (UAAStatus status)
          else
            let (jsonData, ok) = (case body of None \<Rightarrow> ([], False) | Some b \<Rightarrow> decode b)
            in if \<not> ok then Inl UAADecodeError
               else case gget jsonData ''refresh_token'' of
                      None \<Rightarrow> Inl (MissingMember ''refresh_token'')
                    | Some newRefreshToken \<Rightarrow>
                  (case gget jsonData ''token_type'' of
                      None \<Rightarrow> Inl (MissingMember ''token_type'')
                    | Some tokenType \<Rightarrow>
                  (case gget jsonData ''access_token'' of
                      None \<Rightarrow> Inl (MissingMember ''access_token'')
                    | Some accessToken \<Rightarrow>
                        Inr (sprint_s bad (Some newRefreshToken),
                             sprint_s bad (Some tokenType) @ '' '' @ sprint_s bad (Some accessToken)))))"

section \<open>The token fetcher\<close>

record UAATokenFetcher =
  utf_uaaUrl :: string
  utf_username :: string
  utf_password :: string
  utf_insecureSSLSkipVerify :: bool

definition UAA_New :: "string \<Rightarrow> string \<Rightarrow> string \<Rightarrow> bool \<Rightarrow> UAATokenFetcher" where
  "UAA_New uaaUrl username password sslSkipVerify =
     \<lparr>utf_uaaUrl = uaaUrl, utf_username = username, utf_password = password,
      utf_insecureSSLSkipVerify = sslSkipVerify\<rparr>"

text \<open>
  The logger's fatal messages are a parameter: \<open>fatal\<close> tells whether they end the process. If they do
  not, the code goes on: with a nil client it panics, with an error it returns the token it has.
\<close>

datatype fetched = Token string | Ended | FetchPanic

definition FetchAuthToken ::
  "bool \<Rightarrow> (string \<Rightarrow> string option) \<Rightarrow> (string \<Rightarrow> string \<Rightarrow> string) \<Rightarrow> (bool \<Rightarrow> Request \<Rightarrow> reply) \<Rightarrow> json_decoder
     \<Rightarrow> (json \<Rightarrow> string) \<Rightarrow> (float64 \<Rightarrow> float64) \<Rightarrow> UAATokenFetcher \<Rightarrow> fetched" where
  "FetchAuthToken fatal parse basic send decode bad six uaa =
     (case uaa_NewClient parse (utf_uaaUrl uaa) of
        Inl err \<Rightarrow> if fatal then Ended else FetchPanic
      | Inr c \<Rightarrow>
          (case GetAuthToken basic (send (utf_insecureSSLSkipVerify uaa)) decode bad six c
                  (utf_username uaa) (utf_password uaa) of
             (authToken, None) \<Rightarrow> Token authToken
           | (authToken, Some err) \<Rightarrow> if fatal then Ended else Token authToken))"

section \<open>Facts\<close>

lemma GetAuthToken_eq:
  "GetAuthToken basic send decode bad six c username password =
     (case send (token_request basic c username password) of
        Reply status body \<Rightarrow>
          if status \<noteq> 200 then ([], Some (UAAStatus status))
          else let (d, ok) = (case body of None \<Rightarrow> ([], False) | Some b \<Rightarrow> decode b)
               in if (case gget d ''expires_in'' of None \<Rightarrow> False | Some v \<Rightarrow> parse_sprint_f six v = None)
                  then ([], Some ExpiresInError)
                  else (sprint_s bad (gget d ''token_type'') @ '' '' @ sprint_s bad (gget d ''access_token''),
                        if ok then None else Some UAADecodeError)
      | _ \<Rightarrow> ([], Some UAARequestError))"
  by (simp add: GetAuthToken_def GetAuthTokenWithExpiresIn_def Let_def split_def split: reply.split option.split)

lemma parse_sprint_f_None_iff: "parse_sprint_f six v = None \<longleftrightarrow> (\<forall>x. v \<noteq> JNumber x)"
  by (cases v) simp_all

text \<open>
  The check of a token looks for the client's name anywhere in the reply: a token that is authorized for
  a client is authorized for every part of the client's name.
\<close>

lemma TokenIsAuthorized_substring:
  assumes "TokenIsAuthorized basic send c u p token client_id = (True, None)" and "contains client_id sub"
  shows "TokenIsAuthorized basic send c u p token sub = (True, None)"
proof -
  have "contains body sub" if body: "contains body client_id" for body
  proof -
    obtain a b x y where "body = a @ client_id @ b" "client_id = x @ sub @ y"
      using body assms(2) by (auto simp: contains_iff)
    then have "body = (a @ x) @ sub @ (y @ b)" by simp
    then show ?thesis unfolding contains_iff by blast
  qed
  with assms(1) show ?thesis by (auto simp: TokenIsAuthorized_def split: reply.splits option.splits if_splits)
qed

section \<open>The component's properties\<close>

text \<open>
  The credentials of a token request can be read back from it: the server sees the user name that
  was given, whatever characters it has, with the grant type, as the form's only fields.
\<close>

lemma token_request_roundtrip:
  "decode_form (rq_Body (token_request basic c username password)) =
     [(''client_id'', username), (''grant_type'', ''client_credentials'')]"
  by (simp add: token_request_def decode_encode_form)

text \<open>
  C35: There is a token without an error exactly for a reply with status 200, a body that decodes, and an
  expiry that is absent or a number. The members of the token are not checked: from an empty object
  the token is the text of two nil values.
\<close>

theorem GetAuthToken_succeeds:
  "(GetAuthToken basic send decode bad six c username password = (t, None) \<longleftrightarrow>
      (\<exists>b d. send (token_request basic c username password) = Reply 200 (Some b) \<and> decode b = (d, True) \<and>
        (case gget d ''expires_in'' of None \<Rightarrow> True | Some v \<Rightarrow> \<exists>x. v = JNumber x) \<and>
        t = sprint_s bad (gget d ''token_type'') @ '' '' @ sprint_s bad (gget d ''access_token''))) \<and>
   GetAuthToken basic (\<lambda>_. Reply 200 (Some ''{}'')) (\<lambda>_. ([], True)) bad six c username password =
     (''%!s(<nil>) %!s(<nil>)'', None)"
proof (intro conjI iffI)
  assume "GetAuthToken basic send decode bad six c username password = (t, None)"
  then obtain b d where "send (token_request basic c username password) = Reply 200 (Some b)" "decode b = (d, True)"
    "\<not> (case gget d ''expires_in'' of None \<Rightarrow> False | Some v \<Rightarrow> parse_sprint_f six v = None)"
    "t = sprint_s bad (gget d ''token_type'') @ '' '' @ sprint_s bad (gget d ''access_token'')"
    by (auto simp: GetAuthToken_eq Let_def split: reply.splits option.splits prod.splits if_splits)
  then show "\<exists>b d. send (token_request basic c username password) = Reply 200 (Some b) \<and> decode b = (d, True) \<and>
        (case gget d ''expires_in'' of None \<Rightarrow> True | Some v \<Rightarrow> \<exists>x. v = JNumber x) \<and>
        t = sprint_s bad (gget d ''token_type'') @ '' '' @ sprint_s bad (gget d ''access_token'')"
    by (intro exI [of _ b] exI [of _ d]) (simp add: parse_sprint_f_None_iff split: option.splits)
qed (auto simp: GetAuthToken_eq split: option.splits)

end
