(* ===== verification/Logger.thy ===== *)
theory Logger
  imports Go_Strings
begin

text \<open>
  \<^verbatim>\<open>internal/logger\<close>: how the logger is set up and how the streaming client's log is forwarded to it. The
  logging library itself writes the messages: a logger is its configuration and name, and a message is
  a value that the operations return. \<open>windows\<close> is the platform that the program is built for.
\<close>

section \<open>Setting up\<close>

datatype log_level = LOG_INFO | LOG_DEBUG

datatype sink = StdoutSink | FileSink string | SyslogSink string

record log_config =
  lgc_Sinks :: "sink list"
  lgc_Level :: log_level
  lgc_EnableLOC :: bool

record Logger =
  lg_config :: log_config
  lg_name :: string

type_synonym log_message = "log_level \<times> string"

definition GetNewSyslogSink :: "bool \<Rightarrow> string \<Rightarrow> sink outcome" where
  "GetNewSyslogSink windows namespace = (if windows then Panic else Ret (SyslogSink namespace))"

text \<open>The logger, and the message that it logs at once.\<close>

definition NewLogger :: "bool \<Rightarrow> bool \<Rightarrow> string \<Rightarrow> string \<Rightarrow> string \<Rightarrow> (Logger \<times> log_message) outcome" where
  "NewLogger windows verbose logFilePath name syslogNamespace =
     (let level = (if verbose then LOG_DEBUG else LOG_INFO);
          first = (if trim_space logFilePath = [] then StdoutSink else FileSink logFilePath)
      in bind_outcome
           (if syslogNamespace \<noteq> [] then bind_outcome (GetNewSyslogSink windows syslogNamespace) (\<lambda>s. Ret [first, s])
            else Ret [first])
           (\<lambda>sinks. Ret (\<lparr>lg_config = \<lparr>lgc_Sinks = sinks, lgc_Level = level, lgc_EnableLOC = True\<rparr>, lg_name = name\<rparr>,
                        (LOG_DEBUG, ''Component '' @ name @ '' in debug mode!''))))"

section \<open>Forwarding\<close>

record RLPLogForwarder =
  fw_log :: Logger

definition NewRLPLogForwarder :: "Logger \<Rightarrow> RLPLogForwarder" where
  "NewRLPLogForwarder log = \<lparr>fw_log = log\<rparr>"

text \<open>\<^verbatim>\<open>Write\<close> returns the number of bytes written; there is no error. The message goes to the logger.\<close>

definition Forwarder_Write :: "RLPLogForwarder \<Rightarrow> string \<Rightarrow> nat \<times> Logger \<times> log_message" where
  "Forwarder_Write f p = (length p, fw_log f, (LOG_DEBUG, ''message forwarded from RLP client: '' @ p))"

section \<open>Facts\<close>

text \<open>Setting up only panics for a system log on Windows; there is always a sink, and one more for the system log.\<close>

lemma NewLogger_Panic: "NewLogger windows verbose path name ns = Panic \<longleftrightarrow> windows \<and> ns \<noteq> []"
  by (simp add: NewLogger_def GetNewSyslogSink_def Let_def)

lemma trim_space_Nil: "trim_space s = [] \<longleftrightarrow> list_all is_space s"
proof -
  have "(\<forall>x\<in>set (dropWhile is_space s). is_space x) \<longleftrightarrow> dropWhile is_space s = []"
    using hd_dropWhile [of is_space s] set_dropWhileD [of _ is_space s] by (metis empty_iff empty_set hd_in_set)
  then show ?thesis by (simp add: trim_space_def dropWhile_eq_Nil_conv list_all_iff)
qed

lemma NewLogger_sinks:
  assumes "NewLogger windows verbose path name ns = Ret (log, msg)"
  shows "length (lgc_Sinks (lg_config log)) = (if ns = [] then 1 else 2)"
    and "hd (lgc_Sinks (lg_config log)) = (if list_all is_space path then StdoutSink else FileSink path)"
  using assms
  by (auto simp: NewLogger_def GetNewSyslogSink_def Let_def trim_space_Nil split: if_splits)

end
