(* ===== verification/Nozzle_Start.thy ===== *)
theory Nozzle_Start
  imports Nozzle_Spec Nozzle_Progress Loggregator Uaa Logger
begin

text \<open>
  Starting the process: \<^verbatim>\<open>main\<close> in \<^verbatim>\<open>main.go\<close> and \<^verbatim>\<open>Start\<close> in \<^verbatim>\<open>internal/nozzle/nozzle.go\<close>, up to the
  point where the goroutines run. The result is the world and the initial state of the system's step
  relation.

  The outside world is an argument: the machine's address, what the Cluster Agent and the Cloud
  Controller answer, the cache that is already there, and the library's compression and URL functions.
\<close>

section \<open>The sources of apps and organizations\<close>

text \<open>The Cluster Agent at one time: how it replies and how its replies are decoded.\<close>

record dca_api =
  api_send :: agent
  api_apps :: "CFApplication list decoder"
  api_app :: "CFApplication decoder"
  api_orgs :: "V3Organization list decoder"
  api_quotas :: "CFOrgQuota list decoder"

text \<open>The app parser looks at the error first; without one there is an app.\<close>

definition dca_app_source :: "DCAClient \<Rightarrow> dca_api \<Rightarrow> app_source" where
  "dca_app_source c api =
     \<lparr>src_GetApplications =
        (case DCA_GetApplications c (api_send api) (api_apps api) of
           (cfapps, None) \<Rightarrow> Inr cfapps | (cfapps, Some err) \<Rightarrow> Inl err),
      src_GetApplication = (\<lambda>guid.
        case DCA_GetApplication c (api_send api) (api_app api) guid of
          (Some cfapp, None) \<Rightarrow> Inr cfapp | (Some cfapp, Some err) \<Rightarrow> Inl err
        | (None, Some err) \<Rightarrow> Inl err | (None, None) \<Rightarrow> Inl UnmarshalError)\<rparr>"

definition dca_org_source :: "DCAClient \<Rightarrow> dca_api \<Rightarrow> org_source" where
  "dca_org_source c api =
     \<lparr>os_GetV3Orgs = DCA_GetV3Orgs c (api_send api) (api_orgs api),
      os_GetV2OrgQuotas = DCA_GetV2OrgQuotas c (api_send api) (api_quotas api)\<rparr>"

text \<open>
  The nozzle and the collector each connect with clients of their own: \<open>dcaN\<close> and \<open>cfN\<close> are for the
  nozzle, \<open>dcaO\<close> and \<open>cfO\<close> for the collector. For the Cloud Controller it is given whether the
  library's client can be set up.
\<close>

record 'u surroundings =
  su_localIP :: "string option"
  su_endpoints :: "(string, string list) gomap"
  su_dcaN :: "nat \<Rightarrow> agent"
  su_dcaO :: "nat \<Rightarrow> agent"
  su_version :: "Version decoder"
  su_api :: dca_api
  su_cfN :: bool
  su_cfO :: bool
  su_cfApps :: app_source
  su_cfOrgs :: org_listings
  su_globalCache :: "AppCache option"
  su_compress :: compressor
  su_urls :: "'u url_ops"

section \<open>Start\<close>

datatype 'a start_result = StartPanic | StartExit | StartError | Started 'a

text \<open>
  The client for the apps: a missing token or endpoint is only logged, without a client the app metrics
  are switched off by the processor.
\<close>

definition nozzle_clients :: "'u surroundings \<Rightarrow> Config \<Rightarrow> (app_source option \<times> app_source option) start_result" where
  "nozzle_clients u config =
     (if cfg_DCAEnabled config then
        (case NewDCAClient config (su_dcaN u) (su_version u) of
           MissingToken \<Rightarrow> Started (None, None)
         | Exit \<Rightarrow> StartExit
         | Connected c \<Rightarrow> Started (None, Some (dca_app_source c (su_api u))))
      else case NewClient config (su_cfN u) of
             Inl err \<Rightarrow> Started (None, None)
           | Inr c \<Rightarrow> Started (Some (su_cfApps u), None))"

definition start_collector :: "'u surroundings \<Rightarrow> Config \<Rightarrow> OrgCollector option start_result" where
  "start_collector u config =
     (if cfg_DCAEnabled config then
        (case NewDCAClient config (su_dcaO u) (su_version u) of
           MissingToken \<Rightarrow> Started (NewOrgCollector config None None (cfg_CustomTags config))
         | Exit \<Rightarrow> StartExit
         | Connected c \<Rightarrow>
             Started (NewOrgCollector config None (Some (dca_org_source c (su_api u))) (cfg_CustomTags config)))
      else case NewClient config (su_cfO u) of
             Inl err \<Rightarrow> Started (NewOrgCollector config None None (cfg_CustomTags config))
           | Inr c \<Rightarrow> Started (NewOrgCollector config (Some (cf_org_source c (su_cfOrgs u))) None (cfg_CustomTags config)))"

fun bind_start :: "'a start_result \<Rightarrow> ('a \<Rightarrow> 'b start_result) \<Rightarrow> 'b start_result" where
  "bind_start (Started x) f = f x"
| "bind_start StartPanic f = StartPanic"
| "bind_start StartExit f = StartExit"
| "bind_start StartError f = StartError"

text \<open>The client of the gateway, which now holds the context of its stream, and what the stream asks for.\<close>

definition startFirehoseConsumer :: "Config \<Rightarrow> (LoggregatorClient \<times> EgressBatchRequest) option" where
  "startFirehoseConsumer config = map_option (EnvelopeStream 0) (NewLoggregatorClient config)"

definition Start :: "'u surroundings \<Rightarrow> Config \<Rightarrow> ('u world \<times> System \<times> LoggregatorClient) start_result" where
  "Start u config =
     (case NewClients (su_localIP u) (su_endpoints u) config of
        Panic \<Rightarrow> StartPanic
      | Ret ddClients \<Rightarrow>
          bind_start (nozzle_clients u config) (\<lambda>(cfClient, dcaClient).
            let (processor, cache, parseAppMetricsEnable) =
                  NewProcessor (cfg_CustomTags config) (cfg_EnvironmentName config) (cfg_AppMetrics config)
                    cfClient dcaClient (cfg_NumCacheWorkers config) (cfg_GrabInterval config) (su_globalCache u)
            in bind_start (start_collector u config) (\<lambda>orgCollector.
                 case startFirehoseConsumer config of
                   None \<Rightarrow> StartError
                 | Some (loggregatorClient, request) \<Rightarrow>
                     let w = \<lparr>w_config = config, w_processor = processor, w_clients = ddClients,
                           w_compress = su_compress u, w_urls = su_urls u, w_collector = orgCollector\<rparr>
                     in Started (w, initial w cache, loggregatorClient))))"

section \<open>Main\<close>

definition flushMinBytes :: uint32 where "flushMinBytes = 1024"

text \<open>
  The checks of \<^verbatim>\<open>main\<close>. \<open>fatal\<close> tells whether the logger's fatal messages end the process; if they do not,
  an error leaves the empty configuration that \<^verbatim>\<open>Parse\<close> returns with it.
\<close>

definition main_config :: "bool \<Rightarrow> (config_error + Config) outcome \<Rightarrow> Config option outcome" where
  "main_config fatal parsed =
     bind_outcome parsed (\<lambda>r.
       if fatal \<and> (\<exists>err. r = Inl err) then Ret None
       else let config = (case r of Inl err \<Rightarrow> zero_Config | Inr c \<Rightarrow> c)
            in if cfg_FlushMaxBytes config < flushMinBytes \<and> fatal then Ret None else Ret (Some config))"


text \<open>
  The whole of \<^verbatim>\<open>main\<close>: the logger, the configuration from the file that the flag names, its checks and
  its logged form (which may panic), the token fetcher, and the start of the nozzle. The goroutine that
  prints stack traces on a signal is left out.
\<close>

record flags =
  fl_logFile :: string
  fl_debug :: bool
  fl_config :: string

record 'u process =
  ps_log :: Logger
  ps_tokenFetcher :: UAATokenFetcher
  ps_world :: "'u world"
  ps_start :: System
  ps_loggregator :: LoggregatorClient

definition main ::
  "bool \<Rightarrow> bool \<Rightarrow> 'u surroundings \<Rightarrow> (string \<Rightarrow> string option) \<Rightarrow> (string \<Rightarrow> Config option) \<Rightarrow> env
     \<Rightarrow> (string \<Rightarrow> (string \<Rightarrow> bool) option) \<Rightarrow> flags \<Rightarrow> 'u process start_result" where
  "main windows fatal u read_file unmarshal getenv compile fl =
     (case NewLogger windows (fl_debug fl) (fl_logFile fl) ''datadog-firehose-nozzle'' [] of
        Panic \<Rightarrow> StartPanic
      | Ret (logger, started) \<Rightarrow>
     (case main_config fatal (Parse (read_file (fl_config fl)) unmarshal getenv compile) of
        Panic \<Rightarrow> StartPanic
      | Ret None \<Rightarrow> StartExit
      | Ret (Some config) \<Rightarrow>
     (case AsLogString config of
        Panic \<Rightarrow> StartPanic
      | Ret logString \<Rightarrow>
          let tokenFetcher = UAA_New (cfg_UAAURL config) (cfg_Client config) (cfg_ClientSecret config)
                (cfg_InsecureSSLSkipVerify config)
          in bind_start (Start u config) (\<lambda>(w, s0, loggregatorClient).
               Started \<lparr>ps_log = logger, ps_tokenFetcher = tokenFetcher, ps_world = w, ps_start = s0,
                 ps_loggregator = loggregatorClient\<rparr>))))"

section \<open>Facts\<close>

lemma bind_start_Started: "bind_start r f = Started y \<longleftrightarrow> (\<exists>x. r = Started x \<and> f x = Started y)"
  by (cases r) auto

lemma NewProcessor_parser:
  assumes "NewProcessor ts env app cf dca n g global = (p, c, on)"
  shows "has_source p \<and> c = GetGlobalAppCache global \<and>
    (case prc_appMetrics p of None \<Rightarrow> True | Some am \<Rightarrow> am_grabInterval am = g)"
  using assms
  by (auto simp: NewProcessor_def NewAppParser_def has_source_def Let_def GetGlobalAppCache_def
      split: if_splits option.splits)

lemma start_collector_interval:
  "start_collector u config = Started (Some oc) \<Longrightarrow> oc_queryInterval oc = cfg_OrgDataCollectionInterval config"
  by (auto simp: start_collector_def NewOrgCollector_def Let_def
      split: if_splits connection.splits sum.splits option.splits)

lemma start_collector_source:
  "start_collector u config = Started (Some oc) \<Longrightarrow> oc_cfClient oc \<noteq> None \<or> oc_dcaClient oc \<noteq> None"
  by (auto simp: start_collector_def NewOrgCollector_def Let_def
      split: if_splits connection.splits sum.splits option.splits)

lemma additional_clients_keys:
  "list_all (\<lambda>(e, keys). list_all (\<lambda>k. 4 \<le> length k) keys) es \<Longrightarrow>
   list_all (\<lambda>c. 4 \<le> length (dd_apiKey c)) (additional_clients config ip p i es)"
  by (induction config ip p i es rule: additional_clients.induct)
    (auto simp: new_client_def New_def Let_def list_all_iff)

definition keys_ok :: "'u surroundings \<Rightarrow> Config \<Rightarrow> bool" where
  "keys_ok u config \<longleftrightarrow> 4 \<le> length (cfg_DataDogAPIKey config) \<and>
     list_all (\<lambda>(e, keys). list_all (\<lambda>k. 4 \<le> length k) keys) (su_endpoints u)"

lemma NewClients_keys:
  "NewClients (su_localIP u) (su_endpoints u) config = Ret cs \<Longrightarrow> keys_ok u config \<Longrightarrow>
   list_all (\<lambda>c. 4 \<le> length (dd_apiKey c)) cs"
  using additional_clients_keys [of "su_endpoints u" config _ "proxy_of config" 0]
  by (auto simp: NewClients_def keys_ok_def Let_def new_client_def New_def split: option.splits)

lemma Start_Started:
  assumes "Start u config = Started (w, s0, lc)"
  shows "s0 = initial w (GetGlobalAppCache (su_globalCache u)) \<and> w_config w = config \<and>
    has_source (w_processor w) \<and> NewClients (su_localIP u) (su_endpoints u) config = Ret (w_clients w) \<and> collector_ok w \<and>
    (cfg_FlushDurationSeconds config \<noteq> 0 \<longrightarrow> grab_seconds (cfg_GrabInterval config) \<noteq> 0 \<longrightarrow>
       cfg_OrgDataCollectionInterval config \<noteq> 0 \<longrightarrow> intervals_ok w)"
proof -
  obtain cs cf dca where cs: "NewClients (su_localIP u) (su_endpoints u) config = Ret cs"
    and cl: "nozzle_clients u config = Started (cf, dca)"
    using assms by (auto simp: Start_def bind_start_Started split: outcome.splits)
  obtain p c on where p: "NewProcessor (cfg_CustomTags config) (cfg_EnvironmentName config) (cfg_AppMetrics config) cf dca
      (cfg_NumCacheWorkers config) (cfg_GrabInterval config) (su_globalCache u) = (p, c, on)"
    by (metis prod_cases3)
  from assms obtain oc where "start_collector u config = Started oc" and w: "s0 = initial w c" "w_config w = config"
    "w_processor w = p" "w_clients w = cs" "w_collector w = oc"
    by (auto simp: Start_def bind_start_Started cs cl p Let_def split: option.splits)
  then have "case oc of None \<Rightarrow> True
      | Some oc' \<Rightarrow> oc_queryInterval oc' = cfg_OrgDataCollectionInterval config \<and> (oc_cfClient oc' \<noteq> None \<or> oc_dcaClient oc' \<noteq> None)"
    by (auto split: option.split dest: start_collector_interval start_collector_source)
  with NewProcessor_parser [OF p] w cs show ?thesis by (auto simp: intervals_ok_def collector_ok_def split: option.splits)
qed

section \<open>The properties of a started process\<close>

text \<open>
  When the nozzle starts: the machine has an address, a gateway is configured or can be guessed,
  and, with the cluster agent enabled, neither of the two connections to it ends the process. A
  missing Cloud Controller or token does not prevent the start.
\<close>

lemma Start_succeeds:
  "(\<exists>r. Start u config = Started r) \<longleftrightarrow>
     su_localIP u \<noteq> None \<and> logStreamURL config \<noteq> None \<and>
     (if cfg_DCAEnabled config
      then NewDCAClient config (su_dcaN u) (su_version u) \<noteq> Exit \<and> NewDCAClient config (su_dcaO u) (su_version u) \<noteq> Exit
      else True)"
  by (auto simp: Start_def bind_start_Started NewClients_def nozzle_clients_def start_collector_def
      startFirehoseConsumer_def NewLoggregatorClient_def Let_def split_def
      split: option.splits connection.splits sum.splits)

text \<open>
  A nozzle that was started does not crash, whatever its goroutines, the firehose and the remote APIs do,
  until a worker meets a gauge entry without a value: starting establishes what the system's invariants
  need.
\<close>

lemma Start_safe:
  assumes "Start u config = Started (w, s0, lc)" and "keys_ok u config"
    and "cache_ok (GetGlobalAppCache (su_globalCache u))"
    and "valid_Config config" and "cfg_FlushDurationSeconds config \<noteq> 0" and "grab_seconds (cfg_GrabInterval config) \<noteq> 0"
    and "reachable w s0 s" and "sy_crashed s"
  shows "\<exists>e es. nz_messages (sy_nozzle s) = e # es \<and> keepMessage config e \<and> has_nil_value (ev_Message e)"
proof -
  note start = Start_Started [OF assms(1)]
  have "clients_ok w" using start NewClients_keys [OF _ assms(2)] by (simp add: clients_ok_def)
  moreover have "intervals_ok w" using start assms(4-6) by (simp add: valid_Config_def word_gt_0)
  ultimately show ?thesis
    using crash_cause [of w "GetGlobalAppCache (su_globalCache u)" s] start assms(3,7,8) by simp
qed

text \<open>Stopping the client that was started cancels its stream.\<close>

lemma Start_stream:
  assumes "Start u config = Started (w, s0, lc)"
  shows "Loggregator_Stop lc = Some 0"
proof -
  obtain cs cf dca where cs: "NewClients (su_localIP u) (su_endpoints u) config = Ret cs"
    and cl: "nozzle_clients u config = Started (cf, dca)"
    using assms by (auto simp: Start_def bind_start_Started split: outcome.splits)
  obtain p c on where "NewProcessor (cfg_CustomTags config) (cfg_EnvironmentName config) (cfg_AppMetrics config) cf dca
      (cfg_NumCacheWorkers config) (cfg_GrabInterval config) (su_globalCache u) = (p, c, on)"
    by (metis prod_cases3)
  with assms obtain request where "startFirehoseConsumer config = Some (lc, request)"
    by (auto simp: Start_def bind_start_Started cs cl Let_def split: option.splits)
  then show ?thesis by (auto simp: startFirehoseConsumer_def EnvelopeStream_def Loggregator_Stop_def)
qed

lemma main_Started:
  assumes "main windows True u read_file unmarshal getenv compile fl = Started p"
  shows "\<exists>config. Parse (read_file (fl_config fl)) unmarshal getenv compile = Ret (Inr config) \<and>
    flushMinBytes \<le> cfg_FlushMaxBytes config \<and>
    Start u config = Started (ps_world p, ps_start p, ps_loggregator p) \<and> w_config (ps_world p) = config"
proof -
  obtain config where c: "main_config True (Parse (read_file (fl_config fl)) unmarshal getenv compile) = Ret (Some config)"
    and p: "Start u config = Started (ps_world p, ps_start p, ps_loggregator p)"
    using assms by (auto simp: main_def bind_start_Started Let_def split: outcome.splits option.splits)
  from c obtain r where r: "Parse (read_file (fl_config fl)) unmarshal getenv compile = Ret r"
    by (auto simp: main_config_def bind_outcome_Ret_iff)
  with c have "r = Inr config" "flushMinBytes \<le> cfg_FlushMaxBytes config"
    by (cases r; simp add: main_config_def Let_def not_less split: if_splits)+
  with r p Start_Started [OF p] show ?thesis by simp
qed

text \<open>
  C4: A process that was started does not crash until a worker meets a gauge entry without a value, in any
  interleaving of its goroutines and whatever the firehose and the remote APIs send. The configuration is
  any that parsing accepts, from any file and environment, with an interval for the flushes, which
  parsing does not check, and a refresh interval that is not a multiple of \<open>2 ^ 32\<close> in seconds; the API
  keys have at least four characters, and fatal messages end the process.
\<close>

theorem main_safe:
  assumes "main windows True u read_file unmarshal getenv compile fl = Started p"
    and "keys_ok u (w_config (ps_world p))" and "cache_ok (GetGlobalAppCache (su_globalCache u))"
    and "cfg_FlushDurationSeconds (w_config (ps_world p)) \<noteq> 0"
    and "grab_seconds (cfg_GrabInterval (w_config (ps_world p))) \<noteq> 0"
    and "reachable (ps_world p) (ps_start p) s" and "sy_crashed s"
  shows "\<exists>e es. nz_messages (sy_nozzle s) = e # es \<and> keepMessage (w_config (ps_world p)) e \<and> has_nil_value (ev_Message e)"
proof -
  from main_Started [OF assms(1)] obtain config where
    c: "Parse (read_file (fl_config fl)) unmarshal getenv compile = Ret (Inr config)"
      "Start u config = Started (ps_world p, ps_start p, ps_loggregator p)" "w_config (ps_world p) = config" by blast
  from Start_safe [OF c(2) _ assms(3) Parse_gives_valid [OF c(1)] _ _ assms(6,7)] assms(2,4,5) c(3) show ?thesis by simp
qed

definition no_listings :: org_listings where
  "no_listings = \<lparr>li_ListV3OrganizationsByQuery = (\<lambda>_. Inr []), li_ListOrgsByQuery = (\<lambda>_. Inr []),
     li_ListOrgQuotasByQuery = (\<lambda>_. Inr [])\<rparr>"

definition plain_surroundings :: "string surroundings" where
  "plain_surroundings = \<lparr>su_localIP = Some ''10.0.0.1'', su_endpoints = [], su_dcaN = (\<lambda>_ _. NoReply), su_dcaO = (\<lambda>_ _. NoReply),
     su_version = (\<lambda>_. (zero_Version, False)),
     su_api = \<lparr>api_send = (\<lambda>_. NoReply), api_apps = (\<lambda>_. ([], False)), api_app = (\<lambda>_. (zero_CFApplication, False)),
       api_orgs = (\<lambda>_. ([], False)), api_quotas = (\<lambda>_. ([], False))\<rparr>,
     su_cfN = True, su_cfO = True, su_cfApps = sample_source, su_cfOrgs = no_listings,
     su_globalCache = None, su_compress = Some, su_urls = plain_urls\<rparr>"

definition start_config :: Config where
  "start_config = zero_Config\<lparr>cfg_DataDogAPIKey := ''0123456789'', cfg_RLPGatewayURL := ''https://log-stream.x'',
     cfg_CloudControllerEndpoint := ''https://api.x'', cfg_NumWorkers := 1, cfg_NumCacheWorkers := 1, cfg_AppMetrics := True,
     cfg_MetricPrefix := ''cf.'', cfg_GrabInterval := 10, cfg_IdleTimeoutSeconds := 60, cfg_WorkerTimeoutSeconds := 10,
     cfg_CloudControllerAPIBatchSize := 500, cfg_OrgDataCollectionInterval := 600, cfg_FlushDurationSeconds := 15,
     cfg_FlushMaxBytes := 4096\<rparr>"

lemma Parse_start_config: "Parse (Some []) (\<lambda>_. Some start_config) (\<lambda>_. []) (\<lambda>_. None) = Ret (Inr start_config)"
  by (simp add: Parse_def run_env_steps_no_env start_config_def zero_Config_def)
    (simp add: apply_defaults_def default_to_def run_worker_steps_no_env)

definition start_flags :: flags where
  "start_flags = \<lparr>fl_logFile = [], fl_debug = False, fl_config = ''config/datadog-firehose-nozzle.json''\<rparr>"

lemma main_starts:
  "\<exists>p. main False True plain_surroundings (\<lambda>_. Some []) (\<lambda>_. Some start_config) (\<lambda>_. []) (\<lambda>_. None) start_flags = Started p \<and>
     w_config (ps_world p) = start_config"
proof -
  have "\<exists>r. Start plain_surroundings start_config = Started r"
    by (simp add: Start_def NewClients_def nozzle_clients_def start_collector_def NewClient_def startFirehoseConsumer_def NewLoggregatorClient_def
        logStreamURL_def start_config_def zero_Config_def plain_surroundings_def Let_def split_def)
  then obtain w s0 lc where st: "Start plain_surroundings start_config = Started (w, s0, lc)" by auto
  moreover have "main_config True (Ret (Inr start_config)) = Ret (Some start_config)"
    by (simp add: main_config_def Let_def start_config_def flushMinBytes_def)
  moreover obtain m where "AsLogString start_config = Ret m"
    by (simp add: AsLogString_eq start_config_def zero_Config_def)
  ultimately show ?thesis
    using Start_Started [OF st]
    by (auto simp: main_def Parse_start_config NewLogger_def Let_def)
qed

theorem main_safe_witness:
  "\<exists>p s. main False True plain_surroundings (\<lambda>_. Some []) (\<lambda>_. Some start_config) (\<lambda>_. []) (\<lambda>_. None) start_flags = Started p \<and>
     reachable (ps_world p) (ps_start p) s \<and> sy_crashed s \<and> has_nil_value (ev_Message (hd (nz_messages (sy_nozzle s))))"
proof -
  obtain p where p: "main False True plain_surroundings (\<lambda>_. Some []) (\<lambda>_. Some start_config) (\<lambda>_. []) (\<lambda>_. None) start_flags
      = Started p" and c: "w_config (ps_world p) = start_config"
    using main_starts by blast
  let ?w = "ps_world p" and ?s0 = "ps_start p"
  have s0: "?s0 = initial ?w (GetGlobalAppCache (su_globalCache plain_surroundings))"
    using main_Started [OF p] Start_Started by blast
  let ?s1 = "?s0\<lparr>sy_batch := [nil_gauge]\<rparr>"
  let ?s2 = "?s0\<lparr>sy_nozzle := NewNozzle\<lparr>nz_messages := [nil_gauge]\<rparr>, sy_batch := []\<rparr>"
  have i: "sy_nozzle ?s0 = NewNozzle" "sy_workers ?s0 = [Idle]" "\<not> sy_crashed ?s0" "sy_batch ?s0 = []"
    by (simp_all add: s0 initial_def c start_config_def)
  have 1: "nozzle_step ?w ?s0 ?s1"
    using consumer_step.stream [of ?s0 "[nil_gauge]"] i by (intro nozzle_step.consumer) simp
  have 2: "nozzle_step ?w ?s1 ?s2"
    using consumer_step.receive [of ?s1 nil_gauge "[]"] i
    by (intro nozzle_step.consumer) (simp add: NewNozzle_def messages_cap_def)
  have "keepMessage (w_config ?w) nil_gauge" by (simp add: c keepMessage_def start_config_def zero_Config_def)
  then have 3: "nozzle_step ?w ?s2 (?s2\<lparr>sy_crashed := True\<rparr>)"
    using worker_step.work_panic [of 0 ?s2 nil_gauge "[]" ?w "\<lambda>_. id"] nil_gauge_panic [of ?w] i
    by (intro nozzle_step.worker) (simp add: NewNozzle_def)
  have r2: "reachable ?w ?s0 ?s2"
    using reachable.step [OF reachable.step [OF reachable.start i(3) 1] _ 2] i by simp
  have r: "reachable ?w ?s0 (?s2\<lparr>sy_crashed := True\<rparr>)" by (rule reachable.step [OF r2 _ 3]) (simp add: i)
  have "keys_ok plain_surroundings (w_config ?w)" "cache_ok (GetGlobalAppCache (su_globalCache plain_surroundings))"
    "cfg_FlushDurationSeconds (w_config ?w) \<noteq> 0" "grab_seconds (cfg_GrabInterval (w_config ?w)) \<noteq> 0"
    by (simp_all add: c keys_ok_def start_config_def plain_surroundings_def GetGlobalAppCache_def newAppCache_ok
        grab_seconds_def wrap_int_def)
  from main_safe [OF p this r] p r show ?thesis by (intro exI [of _ p] exI) fastforce
qed

end
