(* ===== verification/Nozzle_Alone.thy ===== *)
theory Nozzle_Alone
  imports Nozzle_Inv
begin

text \<open>
  What a goroutine computes when no other one interferes: the steps of the main goroutine from one tick to
  the next are the two flushes of \<open>Nozzle\<close>, the steps of the cache's refresh are its warm-up, and the steps
  of a worker are \<open>ProcessMetric\<close>. So what is shown of these functions holds of the steps.
\<close>

section \<open>The refresh of the cache\<close>

lemma refresh_adds:
  "sy_refresh s = AddingApps first cfapps \<Longrightarrow>
   (refresh_step w)\<^sup>*\<^sup>* s (s\<lparr>sy_cache := add_apps (w_config w) (sy_cache s) cfapps, sy_refresh := AddingApps first []\<rparr>)"
proof (induction cfapps arbitrary: s)
  case Nil
  then have "s\<lparr>sy_cache := add_apps (w_config w) (sy_cache s) [], sy_refresh := AddingApps first []\<rparr> = s"
    by (simp add: add_apps_def)
  then show ?case by simp
next
  case (Cons cfapp cfapps)
  let ?s = "s\<lparr>sy_cache := fst (AppCache_Add (w_config w) (sy_cache s) cfapp), sy_refresh := AddingApps first cfapps\<rparr>"
  have "(refresh_step w)\<^sup>*\<^sup>* ?s (?s\<lparr>sy_cache := add_apps (w_config w) (sy_cache ?s) cfapps, sy_refresh := AddingApps first []\<rparr>)"
    by (rule Cons.IH) simp
  with refresh_step.add_app [OF Cons.prems, of w] show ?case
    by (auto intro: converse_rtranclp_into_rtranclp simp: add_apps_def)
qed

lemma refresh_warms_up:
  assumes "prc_appMetrics (w_processor w) = Some am" and "sy_refresh s = FetchingApps first"
  shows "(refresh_step w)\<^sup>*\<^sup>* s (s\<lparr>sy_cache := warmupCache (w_config w) (parser_at src am) (sy_cache s), sy_refresh := warmed_up first\<rparr>)"
proof (cases "warmup_list (parser_at src am)")
  case (Inl err)
  from refresh_step.fetch_failed [OF assms Inl] Inl show ?thesis by (simp add: warmupCache_def r_into_rtranclp)
next
  case (Inr cfapps)
  let ?s = "s\<lparr>sy_refresh := AddingApps first cfapps\<rparr>"
  let ?t = "?s\<lparr>sy_cache := add_apps (w_config w) (sy_cache s) cfapps, sy_refresh := AddingApps first []\<rparr>"
  have 1: "refresh_step w s ?s" by (rule refresh_step.fetch [OF assms Inr])
  have 2: "(refresh_step w)\<^sup>*\<^sup>* ?s ?t" using refresh_adds [of ?s first cfapps w] by simp
  have 3: "refresh_step w ?t (?t\<lparr>sy_cache := mark_warm (sy_cache ?t), sy_refresh := warmed_up first\<rparr>)"
    by (rule refresh_step.added) simp
  from rtranclp.rtrancl_into_rtrancl [OF converse_rtranclp_into_rtranclp [OF 1 2] 3] Inr show ?thesis
    by (simp add: warmupCache_def mark_warm_def Let_def)
qed

section \<open>The flushes\<close>

lemma post_account_cong: "post i = post' i \<Longrightarrow> post_account post t r i = post_account post' t r i"
  by (simp add: post_account_def fun_eq_iff)

lemma log_account_cong: "post i = post' i \<Longrightarrow> log_account post i = log_account post' i"
  by (simp add: log_account_def fun_eq_iff)

lemma posts_metrics:
  assumes "metrics_clients (\<lambda>i. PostMetrics (w_compress w) (rng i) (w_urls w) (http i)) t r i (drop i (w_clients w)) (m, sy_nozzle s) = Ret n"
    and "sy_main s = PostingMetrics final m r t i"
  shows "(flush_step w)\<^sup>*\<^sup>* s (s\<lparr>sy_nozzle := add_metrics_sent n, sy_main := MetricsPosted final\<rparr>)"
  using assms
proof (induction "length (w_clients w) - i" arbitrary: s i m)
  case 0
  then have "\<not> i < length (w_clients w)" by simp
  from flush_step.count_metrics [OF "0.prems"(2) this] "0.prems"(1) this show ?case by (auto intro: r_into_rtranclp)
next
  case (Suc k)
  let ?post = "\<lambda>i. PostMetrics (w_compress w) (rng i) (w_urls w) (http i)"
  have i: "i < length (w_clients w)" using Suc.hyps(2) by simp
  then have "drop i (w_clients w) = w_clients w ! i # drop (i + 1) (w_clients w)" by (simp add: Cons_nth_drop_Suc)
  with Suc.prems(1) obtain mn where mn: "post_account ?post t r i (w_clients w ! i) (m, sy_nozzle s) = Ret mn"
    and rest: "metrics_clients ?post t r (i + 1) (drop (i + 1) (w_clients w)) mn = Ret n"
    by (auto simp: bind_outcome_Ret_iff)
  let ?s = "s\<lparr>sy_nozzle := snd mn, sy_main := PostingMetrics final (fst mn) r t (i + 1)\<rparr>"
  have "post_account (\<lambda>_. ?post i) t r i (w_clients w ! i) (m, sy_nozzle s) = Ret (fst mn, snd mn)"
    using mn post_account_cong [of ?post i "\<lambda>_. ?post i" t r] by simp
  from flush_step.post_metrics [OF Suc.prems(2) i this] have 1: "flush_step w s ?s" .
  have "(flush_step w)\<^sup>*\<^sup>* ?s (?s\<lparr>sy_nozzle := add_metrics_sent n, sy_main := MetricsPosted final\<rparr>)"
    by (rule Suc.hyps(1) [where i = "i + 1" and m = "fst mn"]) (use Suc.hyps(2) rest in simp_all)
  with 1 show ?case by (simp add: converse_rtranclp_into_rtranclp)
qed

lemma posts_logs:
  assumes "logs_clients (\<lambda>i. PostLogs (w_compress w) (w_urls w) (http i)) i (drop i (w_clients w)) buffer (sy_nozzle s) = Ret n"
    and "sy_main s = PostingLogs final buffer i"
  shows "(flush_step w)\<^sup>*\<^sup>* s (s\<lparr>sy_nozzle := add_logs_sent n, sy_main := LogsPosted final\<rparr>)"
  using assms
proof (induction "length (w_clients w) - i" arbitrary: s i)
  case 0
  then have "\<not> i < length (w_clients w)" by simp
  from flush_step.count_logs [OF "0.prems"(2) this] "0.prems"(1) this show ?case by (auto intro: r_into_rtranclp)
next
  case (Suc k)
  let ?post = "\<lambda>i. PostLogs (w_compress w) (w_urls w) (http i)"
  have i: "i < length (w_clients w)" using Suc.hyps(2) by simp
  then have "drop i (w_clients w) = w_clients w ! i # drop (i + 1) (w_clients w)" by (simp add: Cons_nth_drop_Suc)
  with Suc.prems(1) obtain n1 where n1: "log_account ?post i (w_clients w ! i) buffer (sy_nozzle s) = Ret n1"
    and rest: "logs_clients ?post (i + 1) (drop (i + 1) (w_clients w)) buffer n1 = Ret n"
    by (auto simp: bind_outcome_Ret_iff)
  let ?s = "s\<lparr>sy_nozzle := n1, sy_main := PostingLogs final buffer (i + 1)\<rparr>"
  have "log_account (\<lambda>_. ?post i) i (w_clients w ! i) buffer (sy_nozzle s) = Ret n1"
    using n1 log_account_cong [of ?post i "\<lambda>_. ?post i"] by simp
  from flush_step.post_logs [OF Suc.prems(2) i this] have 1: "flush_step w s ?s" .
  have "(flush_step w)\<^sup>*\<^sup>* ?s (?s\<lparr>sy_nozzle := add_logs_sent n, sy_main := LogsPosted final\<rparr>)"
    by (rule Suc.hyps(1) [where i = "i + 1"]) (use Suc.hyps(2) rest in simp_all)
  with 1 show ?case by (simp add: converse_rtranclp_into_rtranclp)
qed

lemma core_metrics_clients: "metrics_clients post t r i cs mn = Ret n' \<Longrightarrow> core n' = core (snd mn)"
  by (induction cs arbitrary: i mn) (auto simp: bind_outcome_Ret_iff dest!: core_post_account)

lemma core_logs_clients: "logs_clients post i cs buffer n = Ret n' \<Longrightarrow> core n' = core n"
  by (induction cs arbitrary: i n) (auto simp: bind_outcome_Ret_iff dest!: core_log_account)

lemma core_nozzle_postMetrics: "nozzle_postMetrics post t cs n = Ret n' \<Longrightarrow> core n' = core (n\<lparr>nz_metricsMap := []\<rparr>)"
  by (auto simp: nozzle_postMetrics_def take_metrics_def postMetrics_clients_def bind_outcome_Ret_iff dest!: core_metrics_clients)

lemma core_nozzle_postLogs: "nozzle_postLogs post cs n = Ret n' \<Longrightarrow> core n' = core (n\<lparr>nz_logsBuffer := []\<rparr>)"
  by (auto simp: nozzle_postLogs_def take_logs_def postLogs_clients_def bind_outcome_Ret_iff dest!: core_logs_clients)

lemma flush_main: "(flush_step w)\<^sup>*\<^sup>* s s' \<Longrightarrow> (main_step w)\<^sup>*\<^sup>* s s'"
  by (rule rtranclp_mono [THEN predicate2D]) (auto simp: main_step_def)

lemma metrics_flush:
  assumes "nozzle_postMetrics (\<lambda>i. PostMetrics (w_compress w) (rng i) (w_urls w) (http i)) timestamp (w_clients w) (sy_nozzle s) = Ret n"
    and "sy_main s = Running"
  shows "(main_step w)\<^sup>*\<^sup>* s
    (s\<lparr>sy_nozzle := n, sy_taken := sy_taken s @ [nz_metricsMap (sy_nozzle s)], sy_main := TakingLogs False\<rparr>)"
proof -
  let ?post = "\<lambda>i. PostMetrics (w_compress w) (rng i) (w_urls w) (http i)"
  let ?m = "nz_metricsMap (sy_nozzle s)" and ?r = "nz_totalMessagesReceived (sy_nozzle s)"
  let ?n0 = "(sy_nozzle s)\<lparr>nz_metricsMap := []\<rparr>"
  let ?s1 = "s\<lparr>sy_nozzle := ?n0, sy_taken := sy_taken s @ [?m], sy_main := PostingMetrics False ?m ?r timestamp 0\<rparr>"
  obtain n1 where n1: "metrics_clients ?post timestamp ?r 0 (w_clients w) (?m, ?n0) = Ret n1"
    "n = ResetSlowConsumerError (add_metrics_sent n1)"
    using assms(1)
    by (auto simp: nozzle_postMetrics_def take_metrics_def postMetrics_clients_def bind_outcome_Ret_iff)
  let ?s2 = "?s1\<lparr>sy_nozzle := add_metrics_sent n1, sy_main := MetricsPosted False\<rparr>"
  have 1: "main_step w s ?s1"
    using run_step.tick [OF assms(2), of ?m ?n0 w timestamp] by (simp add: main_step_def take_metrics_def)
  have 2: "(main_step w)\<^sup>*\<^sup>* ?s1 ?s2" by (rule flush_main, rule posts_metrics) (use n1 in simp_all)
  let ?s3 = "?s2\<lparr>sy_nozzle := ResetSlowConsumerError (sy_nozzle ?s2), sy_main := TakingLogs False\<rparr>"
  have 3: "main_step w ?s2 ?s3"
    using flush_step.metrics_posted [of ?s2 False w] by (simp add: main_step_def)
  have "(main_step w)\<^sup>*\<^sup>* s ?s2" using 1 2 by (rule converse_rtranclp_into_rtranclp)
  from this 3 have "(main_step w)\<^sup>*\<^sup>* s ?s3" by (rule rtranclp.rtrancl_into_rtrancl)
  moreover have "?s3 = s\<lparr>sy_nozzle := n, sy_taken := sy_taken s @ [?m], sy_main := TakingLogs False\<rparr>" by (cases s) (simp add: n1(2))
  ultimately show ?thesis by metis
qed

lemma logs_flush:
  assumes "nozzle_postLogs (\<lambda>i. PostLogs (w_compress w) (w_urls w) (http i)) (w_clients w) (sy_nozzle s) = Ret n"
    and "sy_main s = TakingLogs False"
  shows "(main_step w)\<^sup>*\<^sup>* s
    (s\<lparr>sy_nozzle := n, sy_takenLogs := sy_takenLogs s @ [nz_logsBuffer (sy_nozzle s)], sy_main := EndOfTick\<rparr>)"
proof -
  let ?post = "\<lambda>i. PostLogs (w_compress w) (w_urls w) (http i)"
  let ?b = "nz_logsBuffer (sy_nozzle s)" and ?n0 = "(sy_nozzle s)\<lparr>nz_logsBuffer := []\<rparr>"
  let ?s1 = "s\<lparr>sy_nozzle := ?n0, sy_takenLogs := sy_takenLogs s @ [?b], sy_main := PostingLogs False ?b 0\<rparr>"
  obtain n1 where n1: "logs_clients ?post 0 (w_clients w) ?b ?n0 = Ret n1" "n = ResetSlowConsumerError (add_logs_sent n1)"
    using assms(1) by (auto simp: nozzle_postLogs_def take_logs_def postLogs_clients_def bind_outcome_Ret_iff)
  let ?s2 = "?s1\<lparr>sy_nozzle := add_logs_sent n1, sy_main := LogsPosted False\<rparr>"
  have 1: "main_step w s ?s1"
    using flush_step.take_logs [OF assms(2), of ?b ?n0 w] by (simp add: main_step_def take_logs_def)
  have 2: "(main_step w)\<^sup>*\<^sup>* ?s1 ?s2" by (rule flush_main, rule posts_logs) (use n1 in simp_all)
  let ?s3 = "?s2\<lparr>sy_nozzle := ResetSlowConsumerError (sy_nozzle ?s2), sy_main := EndOfTick\<rparr>"
  have 3: "main_step w ?s2 ?s3"
    using flush_step.logs_posted [of ?s2 False w] by (simp add: main_step_def)
  have "(main_step w)\<^sup>*\<^sup>* s ?s2" using 1 2 by (rule converse_rtranclp_into_rtranclp)
  from this 3 have "(main_step w)\<^sup>*\<^sup>* s ?s3" by (rule rtranclp.rtrancl_into_rtrancl)
  moreover have "?s3 = s\<lparr>sy_nozzle := n, sy_takenLogs := sy_takenLogs s @ [?b], sy_main := EndOfTick\<rparr>" by (cases s) (simp add: n1(2))
  ultimately show ?thesis by metis
qed

section \<open>A worker\<close>

lemma app_steps:
  "(app_step w)\<^sup>*\<^sup>* (c, x) (c', x') \<Longrightarrow> i < length (sy_workers s) \<Longrightarrow> sy_workers s ! i = x \<Longrightarrow> sy_cache s = c \<Longrightarrow>
   (worker_step w)\<^sup>*\<^sup>* s (s\<lparr>sy_cache := c', sy_workers := (sy_workers s)[i := x']\<rparr>)"
proof (induction "(c', x')" arbitrary: c' x' rule: rtranclp_induct)
  case base
  then show ?case by (auto simp: list_update_id)
next
  case (step y)
  obtain c1 x1 where y: "y = (c1, x1)" by fastforce
  let ?s = "s\<lparr>sy_cache := c1, sy_workers := (sy_workers s)[i := x1]\<rparr>"
  have "(worker_step w)\<^sup>*\<^sup>* s ?s" by (rule step.hyps(3) [OF y step.prems])
  moreover have "worker_step w ?s (?s\<lparr>sy_cache := c', sy_workers := (sy_workers ?s)[i := x']\<rparr>)"
    by (rule worker_step.app) (use step.prems step.hyps(2) y in simp_all)
  ultimately show ?case by (simp add: rtranclp.rtrancl_into_rtrancl)
qed

definition after_parsing :: "parse_error + MetricPackage list \<Rightarrow> worker" where
  "after_parsing r = (case r of Inl _ \<Rightarrow> Idle | Inr metricsPackages \<Rightarrow> SendMetrics metricsPackages)"

lemma parsing_steps:
  assumes "prc_appMetrics (w_processor w) = Some am" and "IsContainerMetric (ev_Message e)"
    and "AppCache_Get c key = Some a" and "parse_app am now c key a e = Ret (c', r)"
  shows "(app_step w)\<^sup>*\<^sup>* (c, ParsingApp key e) (c', after_parsing r)"
proof -
  obtain ps where "r = Inr ps" using assms(4) by (auto simp: parse_app_def Let_def bind_outcome_Ret_iff)
  with app_step.parse [OF assms(1,3), of now e c' ps] assms(4) show ?thesis by (auto simp: after_parsing_def)
qed

text \<open>The look-up, the request, the addition and the parsing are what \<^verbatim>\<open>Parse\<close> does.\<close>

lemma app_steps_compute:
  assumes "prc_appMetrics (w_processor w) = Some am" and "IsContainerMetric (ev_Message e)" and "ev_SourceId e \<noteq> []"
    and "AppParser_Parse (w_config w) (parser_at src am) now c e = Ret (c', r)"
  shows "(app_step w)\<^sup>*\<^sup>* (c, LookingUp e) (c', after_parsing r)"
proof -
  let ?am = "parser_at src am"
  have same: "parse_app ?am n d key a e = parse_app am n d key a e" for n d key a
    by (simp add: parse_app_def parser_at_def)
  obtain c1 d where data: "getAppData (w_config w) ?am c (ev_SourceId e) = Ret (c1, d)"
    using assms(4) by (auto simp: AppParser_Parse_def assms(2,3) Let_def bind_outcome_Ret_iff)
  show ?thesis
  proof (cases "AppCache_Get c (ev_SourceId e)")
    case (Some a)
    with data assms(2-4) have p: "parse_app am now c (ev_SourceId e) a e = Ret (c', r)"
      by (auto simp: AppParser_Parse_def getAppData_def same)
    show ?thesis
      using converse_rtranclp_into_rtranclp [OF app_step.found [OF Some] parsing_steps [OF assms(1,2) Some p]] .
  next
    case None
    note miss = app_step.missing [OF None, of w]
    from data None consider err where "fetch_app ?am (ev_SourceId e) = Some (Inl err)" "c1 = c" "d = Inl err"
      | cfapp app where "fetch_app ?am (ev_SourceId e) = Some (Inr cfapp)" "AppCache_Add (w_config w) c cfapp = (c1, app)"
          "d = Inr (case app of None \<Rightarrow> None | Some _ \<Rightarrow> Some (cf_GUID cfapp))"
      by (auto simp: getAppData_def split: option.splits sum.splits prod.splits)
    then show ?thesis
    proof cases
      case (1 err)
      with data assms(2-4) have "c' = c" "after_parsing r = Idle"
        by (auto simp: AppParser_Parse_def after_parsing_def Let_def)
      with converse_rtranclp_into_rtranclp [OF miss r_into_rtranclp [where r = "app_step w", OF app_step.not_fetched [OF assms(1) 1(1)]]]
      show ?thesis by simp
    next
      case (2 cfapp app)
      have steps: "(app_step w)\<^sup>*\<^sup>* (c, LookingUp e)
          (c1, case app of None \<Rightarrow> SendMetrics [] | Some _ \<Rightarrow> ParsingApp (cf_GUID cfapp) e)"
        by (rule converse_rtranclp_into_rtranclp, rule miss, rule converse_rtranclp_into_rtranclp,
            rule app_step.fetched [OF assms(1) 2(1)], rule r_into_rtranclp, rule app_step.add [OF 2(2)])
      show ?thesis
      proof (cases app)
        case None
        with 2 data assms(2-4) have "c' = c1" "after_parsing r = SendMetrics []"
          by (auto simp: AppParser_Parse_def after_parsing_def Let_def)
        with None steps show ?thesis by simp
      next
        case (Some x)
        with AppCache_Add_there [of "w_config w" c cfapp c1 x] 2(2) obtain a where a: "AppCache_Get c1 (cf_GUID cfapp) = Some a"
          by auto
        with Some 2 data assms(2-4) have p: "parse_app am now c1 (cf_GUID cfapp) a e = Ret (c', r)"
          by (auto simp: AppParser_Parse_def Let_def same)
        from Some rtranclp_trans [OF steps] parsing_steps [OF assms(1,2) a p] show ?thesis by simp
      qed
    qed
  qed
qed

section \<open>The properties\<close>

text \<open>
  The steps compute the functions. When no other goroutine interferes, the main goroutine's steps from
  one tick back to the loop do what \<open>nozzle_postMetrics\<close>, \<open>nozzle_postLogs\<close> and \<open>end_tick\<close> compute one after
  the other, for all accounts and whatever the network answers to each; and the refresh's steps do what
  \<open>warmupCache\<close> computes on what the client returns. So the facts about the functions carry over.
\<close>

lemma steps_compute:
  assumes "sy_main s = Running"
    and "nozzle_postMetrics (\<lambda>i. PostMetrics (w_compress w) (rng i) (w_urls w) (http i)) timestamp (w_clients w) (sy_nozzle s) = Ret n1"
    and "nozzle_postLogs (\<lambda>i. PostLogs (w_compress w) (w_urls w) (http' i)) (w_clients w) n1 = Ret n2"
    and "end_tick n2 = Ret n3"
    and "prc_appMetrics (w_processor w) = Some am" and "sy_refresh s = FetchingApps first"
  shows "(main_step w)\<^sup>*\<^sup>* s
      (s\<lparr>sy_nozzle := n3, sy_taken := sy_taken s @ [nz_metricsMap (sy_nozzle s)],
         sy_takenLogs := sy_takenLogs s @ [nz_logsBuffer n1]\<rparr>) \<and>
    (refresh_step w)\<^sup>*\<^sup>* s
      (s\<lparr>sy_cache := warmupCache (w_config w) (parser_at src am) (sy_cache s), sy_refresh := warmed_up first\<rparr>)"
proof
  let ?s1 = "s\<lparr>sy_nozzle := n1, sy_taken := sy_taken s @ [nz_metricsMap (sy_nozzle s)], sy_main := TakingLogs False\<rparr>"
  let ?s2 = "?s1\<lparr>sy_nozzle := n2, sy_takenLogs := sy_takenLogs s @ [nz_logsBuffer n1], sy_main := EndOfTick\<rparr>"
  have 1: "(main_step w)\<^sup>*\<^sup>* s ?s1" by (rule metrics_flush [OF assms(2,1)])
  have 2: "(main_step w)\<^sup>*\<^sup>* ?s1 ?s2" using logs_flush [of w http' ?s1 n2] assms(3) by simp
  let ?s3 = "?s2\<lparr>sy_nozzle := n3, sy_main := Running\<rparr>"
  have 3: "main_step w ?s2 ?s3"
    using run_step.end_of_tick [of ?s2 n3 w] assms(4) by (simp add: main_step_def)
  have "(main_step w)\<^sup>*\<^sup>* s ?s2" using 1 2 by (rule rtranclp_trans)
  from this 3 have "(main_step w)\<^sup>*\<^sup>* s ?s3" by (rule rtranclp.rtrancl_into_rtrancl)
  with assms(1) show "(main_step w)\<^sup>*\<^sup>* s
      (s\<lparr>sy_nozzle := n3, sy_taken := sy_taken s @ [nz_metricsMap (sy_nozzle s)],
         sy_takenLogs := sy_takenLogs s @ [nz_logsBuffer n1]\<rparr>)"
    by (cases s) simp
qed (rule refresh_warms_up [OF assms(5,6)])

text \<open>In the witness there is one account, which accepts everything.\<close>

lemma steps_compute_witness:
  "\<exists>s'. (main_step sample_world)\<^sup>*\<^sup>* (pushed_system\<lparr>sy_main := Running\<rparr>) s' \<and> sy_main s' = Running \<and>
     sy_taken s' = [[]] \<and> nz_tickedOnce (sy_nozzle s')"
proof -
  let ?w = sample_world and ?s = "pushed_system\<lparr>sy_main := Running\<rparr>"
  have clients: "w_clients ?w = [some_client]" by (simp add: sample_world_def)
  have k: "4 \<le> length (dd_apiKey some_client)" by (rule some_client_key)
  obtain n1 where n1: "nozzle_postMetrics (\<lambda>i. PostMetrics (w_compress ?w) (\<lambda>_. rev) (w_urls ?w) (\<lambda>_ _. Response 202)) 7
      (w_clients ?w) (sy_nozzle ?s) = Ret n1"
    using k by (simp add: clients nozzle_postMetrics_def take_metrics_def flush_defs PostMetrics_def split_def)
  obtain n2 where n2: "nozzle_postLogs (\<lambda>i. PostLogs (w_compress ?w) (w_urls ?w) (\<lambda>_ _. Response 202)) (w_clients ?w) n1 = Ret n2"
    using k by (simp add: clients nozzle_postLogs_def take_logs_def postLogs_clients_def log_account_def PostLogs_def)
  have "nz_firstTick n2" "\<not> nz_tickedOnce n2"
    using core_nozzle_postMetrics [OF n1] core_nozzle_postLogs [OF n2]
    by (simp_all add: core_def pushed_system_def NewNozzle_def)
  then have n3: "end_tick n2 = Ret (n2\<lparr>nz_firstTick := False, nz_tickedOnce := True\<rparr>)" by (simp add: end_tick_def)
  have am: "prc_appMetrics (w_processor ?w) = Some sample_parser" "sy_refresh ?s = FetchingApps True"
    by (simp_all add: sample_world_def sample_processor_def pushed_system_def initial_def)
  from conjunct1 [OF steps_compute [OF _ n1 n2 n3 am]] show ?thesis
    by (intro exI conjI) (auto simp: pushed_system_def initial_def NewNozzle_def)
qed

text \<open>
  C11: A worker alone computes \<^verbatim>\<open>ProcessMetric\<close>. When a worker takes an envelope that is kept and that is no
  log, and no other goroutine interferes, its steps (receiving, looking the app up, asking for it, adding
  it, parsing) do what \<open>ProcessMetric\<close> computes with the answer of the remote API: they leave the cache that
  it returns and what it sends, for every kind of envelope.
\<close>

theorem worker_computes:
  assumes "i < length (sy_workers s)" and "sy_workers s ! i = Idle" and "nz_messages (sy_nozzle s) = e # es"
    and "keepMessage (w_config w) e" and "\<not> (cfg_EnableApplicationLogs (w_config w) \<and> is_log (ev_Message e))"
    and "ProcessMetric (w_config w) (processor_at src (w_processor w)) now (sy_cache s) e = Ret (c', r)"
  shows "(worker_step w)\<^sup>*\<^sup>* s
    (s\<lparr>sy_nozzle := handleMessage ((sy_nozzle s)\<lparr>nz_messages := es\<rparr>) e, sy_cache := c',
       sy_workers := (sy_workers s)[i := case r of None \<Rightarrow> Idle | Some metricsPackages \<Rightarrow> SendMetrics metricsPackages]\<rparr>)"
proof -
  let ?p = "w_processor w" and ?c = "sy_cache s" and ?n = "(sy_nozzle s)\<lparr>nz_messages := es\<rparr>"
  have same: "infra_parser (processor_at src ?p) (prc_customTags (processor_at src ?p)) = infra_parser ?p (prc_customTags ?p)"
    by (simp add: infra_parser_def processor_at_def)
  obtain r0 where r0: "ParseMetrics (infra_parser ?p (prc_customTags ?p)) e = Ret r0"
    using assms(6) by (auto simp: ProcessMetric_def same bind_outcome_Ret_iff)
  define x where "x = (case r0 of Inr ps \<Rightarrow> SendMetrics ps | Inl err \<Rightarrow> app_metric ?p ?c e)"
  let ?s = "s\<lparr>sy_nozzle := handleMessage ?n e, sy_workers := (sy_workers s)[i := x]\<rparr>"
  have "work_message w rng ?c ?n e = Ret (handleMessage ?n e, x)" for rng
    using assms(4,5) r0 by (auto simp: work_message_def x_def)
  from worker_step.work [OF assms(1-3) this] have 1: "worker_step w s ?s" .
  have "(app_step w)\<^sup>*\<^sup>* (?c, x) (c', case r of None \<Rightarrow> Idle | Some ps \<Rightarrow> SendMetrics ps)"
  proof (cases r0)
    case (Inr ps)
    with assms(6) r0 show ?thesis by (auto simp: ProcessMetric_def same x_def)
  next
    case (Inl err)
    with assms(6) r0 obtain r1 where r1: "parseAppMetric (w_config w) (processor_at src ?p) now ?c e = Ret (c', r1)"
      "(case r of None \<Rightarrow> Idle | Some ps \<Rightarrow> SendMetrics ps) = after_parsing r1"
      by (cases "parseAppMetric (w_config w) (processor_at src ?p) now ?c e")
        (auto simp: ProcessMetric_def same bind_outcome_Ret_iff after_parsing_def split: sum.splits)
    have x: "x = app_metric ?p ?c e" by (simp add: x_def Inl)
    show ?thesis
    proof (cases "prc_appMetrics ?p = None \<or> \<not> IsContainerMetric (ev_Message e) \<or> \<not> IsWarmedUp ?c")
      case True
      with r1(1) have "c' = ?c" "after_parsing r1 = Idle"
        by (auto simp: parseAppMetric_def processor_at_def after_parsing_def split: option.splits if_splits)
      with True x r1(2) show ?thesis by (simp add: app_metric_def)
    next
      case False
      then obtain am where am: "prc_appMetrics ?p = Some am" by auto
      with False r1(1) have p: "AppParser_Parse (w_config w) (parser_at src am) now ?c e = Ret (c', r1)"
        by (simp add: parseAppMetric_def processor_at_def)
      show ?thesis
      proof (cases "ev_SourceId e = []")
        case True
        with p False have "c' = ?c" "after_parsing r1 = SendMetrics []"
          by (auto simp: AppParser_Parse_def after_parsing_def)
        with True False am x r1(2) show ?thesis by (simp add: app_metric_def)
      next
        case src: False
        with app_steps_compute [OF am _ src p] False am x r1(2) show ?thesis by (simp add: app_metric_def)
      qed
    qed
  qed
  from app_steps [OF this, of i ?s] assms(1) have 2: "(worker_step w)\<^sup>*\<^sup>* ?s
      (?s\<lparr>sy_cache := c', sy_workers := (sy_workers ?s)[i := case r of None \<Rightarrow> Idle | Some ps \<Rightarrow> SendMetrics ps]\<rparr>)" by simp
  from converse_rtranclp_into_rtranclp [OF 1 2] show ?thesis by simp
qed

text \<open>In the witness the app is not in the cache, so that it is asked for and added.\<close>

definition container_system :: System where
  "container_system = (initial sample_world (SetWarmedUp newAppCache))\<lparr>sy_nozzle := NewNozzle\<lparr>nz_messages := [container_envelope]\<rparr>\<rparr>"

lemma sample_ProcessMetric:
  obtains c ps where "ProcessMetric (w_config sample_world) (processor_at sample_source sample_processor) (\<lambda>_. 7)
      (SetWarmedUp newAppCache) container_envelope = Ret (c, Some ps)" and "length ps = 10"
    and "AppCache_Get c ''g'' \<noteq> None"
proof -
  let ?c = "SetWarmedUp newAppCache" and ?cfg = "w_config sample_world" and ?e = container_envelope
  have c: "cache_ok ?c" "AppCache_Get ?c ''g'' = None" "IsWarmedUp ?c"
    using newAppCache_ok by (simp_all add: cache_ok_def SetWarmedUp_def AppCache_Get_def newAppCache_def IsWarmedUp_def)
  obtain c1 app where add: "AppCache_Add ?cfg ?c sample_app = (c1, app)" by fastforce
  have "app \<noteq> None" using add sample_app_identified setAppData_ok_iff [of "newApp ''g''" sample_app ?cfg] c(2) sample_app_GUID
    by (auto simp: AppCache_Add_def AppCache_Get_def split: prod.splits if_splits)
  then obtain a0 where app: "app = Some a0" by blast
  obtain a where a: "AppCache_Get c1 ''g'' = Some a"
    using AppCache_Add_there [OF add [unfolded app]] by (auto simp: sample_app_GUID)
  have m: "IsContainerMetric (ev_Message ?e)" "ev_SourceId ?e = ''g''" "\<not> infra_metric (ev_Message ?e)"
    by (simp_all add: container_envelope_def container_loop_eq infra_metric_def container_keys_def gauge_key_ok_def)
  have "cache_ok c1" using cache.inv_add [OF c(1), of ?cfg sample_app] add by simp
  from parse_app_Ret [OF m(1) this a, of "parser_at sample_source sample_parser" "\<lambda>_. 7"] obtain ps where
    p: "parse_app (parser_at sample_source sample_parser) (\<lambda>_. 7) c1 ''g'' a ?e =
        Ret (c1\<lparr>ac_apps := gput ''g'' (a\<lparr>app_Host := parseHost ?e\<rparr>) (ac_apps c1)\<rparr>, Inr ps)"
      "app_packages (a\<lparr>app_Host := parseHost ?e\<rparr>) ps" by blast
  have "getAppData ?cfg (parser_at sample_source sample_parser) ?c ''g'' = Ret (c1, Inr (Some ''g''))"
    using c(2) add app sample_app_GUID
    by (simp add: getAppData_def fetch_app_def parser_at_def sample_parser_def) (simp add: sample_source_def)
  then have "ProcessMetric ?cfg (processor_at sample_source sample_processor) (\<lambda>_. 7) ?c ?e =
      Ret (c1\<lparr>ac_apps := gput ''g'' (a\<lparr>app_Host := parseHost ?e\<rparr>) (ac_apps c1)\<rparr>, Some ps)"
    using m a p(1) c(3)
    by (simp add: ProcessMetric_app parseAppMetric_def processor_at_def sample_processor_def AppParser_Parse_def)
  moreover have "length ps = 10"
    using p(2) arg_cong [of _ _ length] by (fastforce simp: app_packages_def app_metric_names_def container_metric_names_def)
  ultimately show ?thesis by (rule that) (simp add: AppCache_Get_def gget_gput)
qed

theorem worker_computes_witness:
  "\<exists>s ps. (worker_step sample_world)\<^sup>*\<^sup>* container_system s \<and> sy_workers s = [SendMetrics ps] \<and> length ps = 10 \<and>
     AppCache_Get (sy_cache s) ''g'' \<noteq> None"
proof -
  obtain c ps where ps: "ProcessMetric (w_config sample_world) (processor_at sample_source sample_processor) (\<lambda>_. 7)
      (SetWarmedUp newAppCache) container_envelope = Ret (c, Some ps)" "length ps = 10" "AppCache_Get c ''g'' \<noteq> None"
    by (rule sample_ProcessMetric)
  have i: "sy_workers container_system = [Idle]" "sy_cache container_system = SetWarmedUp newAppCache"
    "nz_messages (sy_nozzle container_system) = [container_envelope]" "w_processor sample_world = sample_processor"
    by (simp_all add: container_system_def initial_def sample_world_def)
  have "keepMessage (w_config sample_world) container_envelope" "\<not> is_log (ev_Message container_envelope)"
    by (simp_all add: keepMessage_def sample_world_def zero_Config_def is_log_def container_envelope_def)
  with worker_computes [of 0 container_system container_envelope "[]" sample_world sample_source "\<lambda>_. 7" c "Some ps"] i ps
  show ?thesis by (intro exI conjI) auto
qed

end
