(* ===== verification/Nozzle_Delivery.thy ===== *)
theory Nozzle_Delivery
  imports Nozzle_Inv
begin

text \<open>
  From the workers to the payloads: what was collected between two flushes reaches every account. It
  composes the invariants of the steps with what the formatter shows of one batch.
\<close>

section \<open>The map that is being posted\<close>

text \<open>It is the one that was taken last, but for the nozzle's own metrics.\<close>

definition posting_inv :: "System \<Rightarrow> bool" where
  "posting_inv s \<longleftrightarrow>
     (case sy_main s of
        PostingMetrics final m received timestamp i \<Rightarrow>
          sy_taken s \<noteq> [] \<and> (\<forall>k. mk_Name k \<notin> set internal_names \<longrightarrow> gget m k = gget (last (sy_taken s)) k)
      | _ \<Rightarrow> True)"

lemma post_account_map: "post_account post t r i c mn = Ret (m', n) \<Longrightarrow> m' = fst (internal_metrics c t r mn)"
  by (auto simp: post_account_def bind_outcome_Ret_iff split: prod.splits)

lemma step_taken: "nozzle_step w s s' \<Longrightarrow> main_step w s s' \<or> sy_main s' = sy_main s \<and> sy_taken s' = sy_taken s"
  by (elim nozzle_step.cases) (auto simp: main_step_def elim: background_cases)

lemma run_posting: "run_step w s s' \<Longrightarrow> posting_inv s \<Longrightarrow> posting_inv s'"
  by (induction rule: run_step.induct) (auto simp: posting_inv_def take_metrics_def)

lemma flush_posting: "flush_step w s s' \<Longrightarrow> posting_inv s \<Longrightarrow> posting_inv s'"
proof (induction rule: flush_step.induct)
  case (post_metrics s final m received timestamp i rng http m' n)
  then show ?case by (simp add: posting_inv_def post_account_map [OF post_metrics(3)] internal_metrics_other)
qed (simp_all add: posting_inv_def)

lemma stopWorkers_posting: "stopWorkers_step w s s' \<Longrightarrow> posting_inv s'"
  by (induction rule: stopWorkers_step.induct) (simp_all add: posting_inv_def)

lemma shutdown_posting: "shutdown_step w s s' \<Longrightarrow> posting_inv s'"
  by (induction rule: shutdown_step.induct) (auto simp: posting_inv_def take_metrics_def)

lemma step_posting:
  assumes "nozzle_step w s s'" and "posting_inv s"
  shows "posting_inv s'"
proof (cases "main_step w s s'")
  case True
  with assms(2) run_posting flush_posting stopWorkers_posting shutdown_posting show ?thesis
    unfolding main_step_def by blast
next
  case False
  with step_taken [OF assms(1)] assms(2) show ?thesis by (cases "sy_main s") (simp_all add: posting_inv_def)
qed

interpretation posting: system_invariant w "initial w cache" posting_inv for w cache
  by unfold_locales (simp add: posting_inv_def initial_def, rule step_posting)

section \<open>The property\<close>

definition finite_points :: "MetricsMap \<Rightarrow> bool" where
  "finite_points m \<longleftrightarrow> (\<forall>(k, v)\<in>set m. \<forall>p\<in>set (mv_Points v). \<not> is_inf (pt_Value p))"

lemma finite_put_internal: "finite_points m \<Longrightarrow> finite_points (put_internal c t name type value m)"
  using set_gput_subset by (fastforce simp: finite_points_def put_internal_def MakeInternalMetric_def Let_def split: prod.splits)

lemma finite_internal_metrics: "finite_points (fst mn) \<Longrightarrow> finite_points (fst (internal_metrics c t r mn))"
  by (cases mn) (simp add: internal_defs finite_put_internal)

lemma filter_key: "wf_gomap m \<Longrightarrow> gget m k = Some v \<Longrightarrow> filter (\<lambda>e. fst e = k) m = [(k, v)]"
proof (induction m)
  case (Cons e m)
  obtain a b where e: "e = (a, b)" by (cases e)
  have wf: "wf_gomap m" "a \<notin> fst ` set m" using Cons.prems(1) e by (simp_all add: wf_gomap_def)
  show ?case
  proof (cases "a = k")
    case True
    then have "filter (\<lambda>e. fst e = k) m = []" using wf(2) by (auto simp: filter_empty_conv)
    with True e Cons.prems(2) show ?thesis by simp
  qed (use Cons.IH [OF wf(1)] Cons.prems(2) e in simp)
qed simp

text \<open>
  C13: What was collected is in the payloads of every account. When the turn of an account comes, the payloads
  that are made for it carry, under each key that had points when the map was taken and that is not one of the
  nozzle's own, exactly one entry, with exactly these points. What a payload carries is its text: the
  compressed JSON of a series for each entry, with the name, the type, the host, the tags that are not of high
  cardinality, and all the points that are numbers, in their order (points that are not a number are
  left out, as the code means to). So, with conservation, each point that a worker has sent and that is a number is
  in one payload of each account. This is if compressing does not fail, no point is infinite, and each entry
  fits alone; each payload is then within the limit and counts its entries.
\<close>

theorem flush_delivers:
  assumes "reachable w (initial w cache) s" and "sy_main s = PostingMetrics final m received timestamp i"
    and "post_account (\<lambda>_. PostMetrics (w_compress w) rng (w_urls w) http) timestamp received i (w_clients w ! i)
      (m, sy_nozzle s) = Ret (m', n)"
    and "\<And>str. w_compress w str \<noteq> None"
    and "\<forall>(k, v)\<in>set m. \<forall>p\<in>set (mv_Points v). \<not> is_inf (pt_Value p)"
    and "\<And>e b. e \<in> set m' \<Longrightarrow> formatMetrics (w_compress w) (dd_prefix (w_clients w ! i)) [e] = Inr b \<Longrightarrow>
      of_nat (length b) \<le> dd_maxPostBytes (w_clients w ! i)"
    and "mk_Name k \<notin> set internal_names" and "points_of (last (sy_taken s)) k \<noteq> []"
  shows "\<exists>ess v. list_all2
      (\<lambda>d es. carries (w_compress w) (dd_prefix (w_clients w ! i)) d es \<and>
         of_nat (length (fd_data d)) \<le> dd_maxPostBytes (w_clients w ! i))
      (FormatMetrics (w_compress w) rng (dd_prefix (w_clients w ! i)) (dd_maxPostBytes (w_clients w ! i)) [] m') ess \<and>
    filter (\<lambda>e. fst e = k) (concat ess) = [(k, v)] \<and> mv_Points v = points_of (last (sy_taken s)) k"
proof -
  have wf: "wf_gomap m" and same: "gget m k = gget (last (sy_taken s)) k"
    using accounts.holds [OF assms(1)] posting.holds [OF assms(1)] assms(2,7)
    by (simp_all add: data_inv_def maps_ok_def posting_inv_def)
  have m': "m' = fst (internal_metrics (w_clients w ! i) timestamp received (m, sy_nozzle s))"
    by (rule post_account_map [OF assms(3)])
  then have wf': "wf_gomap m'" using wf_internal_metrics [of "(m, sy_nozzle s)"] wf by simp
  have fin: "\<forall>(k, v)\<in>set m'. \<forall>p\<in>set (mv_Points v). \<not> is_inf (pt_Value p)"
    using finite_internal_metrics [of "(m, sy_nozzle s)"] assms(5) m' by (simp add: finite_points_def)
  obtain v where v: "gget (last (sy_taken s)) k = Some v" "mv_Points v = points_of (last (sy_taken s)) k"
    using assms(8) by (auto simp: points_of_def split: option.splits)
  then have "gget m' k = Some v" using internal_metrics_other [OF assms(7)] same m' by simp
  then have f: "filter (\<lambda>e. fst e = k) m' = [(k, v)]" by (rule filter_key [OF wf'])
  obtain ess where "list_all2
      (\<lambda>d es. carries (w_compress w) (dd_prefix (w_clients w ! i)) d es \<and>
         of_nat (length (fd_data d)) \<le> dd_maxPostBytes (w_clients w ! i))
      (FormatMetrics (w_compress w) rng (dd_prefix (w_clients w ! i)) (dd_maxPostBytes (w_clients w ! i)) [] m') ess"
    and ms: "mset (concat ess) = mset m'"
    using FormatMetrics_carries [OF wf', of "w_compress w" "dd_prefix (w_clients w ! i)" "dd_maxPostBytes (w_clients w ! i)" rng "[]"]
      assms(4,6) fin by blast
  moreover have "filter (\<lambda>e. fst e = k) (concat ess) = [(k, v)]"
  proof -
    have "mset (filter (\<lambda>e. fst e = k) (concat ess)) = {#(k, v)#}" using ms f by (metis mset_filter mset_single_iff_right)
    then show ?thesis by (simp only: mset_single_iff)
  qed
  ultimately show ?thesis using v(2) by blast
qed

theorem flush_delivers_witness:
  "\<exists>m' n d es v. post_account (\<lambda>_. PostMetrics (w_compress sample_world) (\<lambda>_. rev) plain_urls (\<lambda>_ _. Response 202)) 7 1 0
      some_client (add_package [] [sample_package], sy_nozzle ticking_system) = Ret (m', n) \<and>
    d \<in> set (FormatMetrics (w_compress sample_world) (\<lambda>_. rev) (dd_prefix some_client) (dd_maxPostBytes some_client) [] m') \<and>
    carries (w_compress sample_world) (dd_prefix some_client) d es \<and> (mp_Key sample_package, v) \<in> set es \<and>
    mv_Points v = mv_Points (mp_Value sample_package)"
proof -
  let ?m = "add_package [] [sample_package]"
  have c: "w_clients sample_world ! 0 = some_client" "w_urls sample_world = plain_urls"
    "\<And>str. w_compress sample_world str = Some ''xy''" by (simp_all add: sample_world_def)
  have m: "?m = [(mp_Key sample_package, mp_Value sample_package)]" by (simp add: add_package_def Add_def)
  obtain m' n where a: "post_account (\<lambda>_. PostMetrics (w_compress sample_world) (\<lambda>_. rev) plain_urls (\<lambda>_ _. Response 202)) 7 1 0
      some_client (?m, sy_nozzle ticking_system) = Ret (m', n)"
    using some_client_key by (simp add: post_account_def PostMetrics_def split_def)
  have main: "sy_main ticking_system = PostingMetrics False ?m 1 7 0" "sy_taken ticking_system = [?m]"
    by (simp_all add: ticking_system_def)
  have points: "points_of (last (sy_taken ticking_system)) (mp_Key sample_package) = mv_Points (mp_Value sample_package)"
    by (simp add: main m points_of_def)
  have fin: "\<forall>(k, v)\<in>set ?m. \<forall>p\<in>set (mv_Points v). \<not> is_inf (pt_Value p)"
    unfolding m by (simp add: sample_package_def org_package_def split_def)
  have name: "mk_Name (mp_Key sample_package) \<notin> set internal_names" "mv_Points (mp_Value sample_package) \<noteq> []"
    by (simp_all add: sample_package_def org_package_def internal_names_def split_def)
  have fits: "of_nat (length b) \<le> dd_maxPostBytes some_client"
    if "formatMetrics (w_compress sample_world) (dd_prefix some_client) [e] = Inr b" for e b
    using that by (auto simp: formatMetrics_def c(3) some_client_def New_def Let_def split: if_splits option.splits)
  from flush_delivers [OF reachable_ticking main(1), of "\<lambda>_. rev" "\<lambda>_ _. Response 202" m' n "mp_Key sample_package"]
    a c fin name points fits
  obtain ess v where ess: "list_all2 (\<lambda>d es. carries (w_compress sample_world) (dd_prefix some_client) d es \<and>
        of_nat (length (fd_data d)) \<le> dd_maxPostBytes some_client)
      (FormatMetrics (w_compress sample_world) (\<lambda>_. rev) (dd_prefix some_client) (dd_maxPostBytes some_client) [] m') ess"
    and f: "filter (\<lambda>e. fst e = mp_Key sample_package) (concat ess) = [(mp_Key sample_package, v)]"
    and v: "mv_Points v = mv_Points (mp_Value sample_package)" by auto
  have "(mp_Key sample_package, v) \<in> set (filter (\<lambda>e. fst e = mp_Key sample_package) (concat ess))" by (simp add: f)
  then obtain es where es: "es \<in> set ess" "(mp_Key sample_package, v) \<in> set es" by auto
  from ess es(1) have "\<exists>d\<in>set (FormatMetrics (w_compress sample_world) (\<lambda>_. rev) (dd_prefix some_client)
      (dd_maxPostBytes some_client) [] m'). carries (w_compress sample_world) (dd_prefix some_client) d es"
    by (induction rule: list_all2_induct) auto
  then obtain d where
    "d \<in> set (FormatMetrics (w_compress sample_world) (\<lambda>_. rev) (dd_prefix some_client) (dd_maxPostBytes some_client) [] m')"
    "carries (w_compress sample_world) (dd_prefix some_client) d es" by blast
  with a es(2) v show ?thesis by blast
qed

end
