(* ===== verification/Go_Slices.thy ===== *)
theory Go_Slices
  imports Prelude
begin

text \<open>
  Go's slices of strings with their backing arrays, for the code that appends to a slice which other
  goroutines also hold. An array is named by its place in the list of all arrays. The program never
  slices a slice, so every slice starts where its array does; the capacity is the array's length.
\<close>

type_synonym arrays = "string list list"

record slice =
  sl_array :: nat
  sl_len :: nat

definition capacity :: "arrays \<Rightarrow> slice \<Rightarrow> nat" where
  "capacity A s = length (A ! sl_array s)"

definition contents :: "arrays \<Rightarrow> slice \<Rightarrow> string list" where
  "contents A s = take (sl_len s) (A ! sl_array s)"

definition slice_ok :: "arrays \<Rightarrow> slice \<Rightarrow> bool" where
  "slice_ok A s \<longleftrightarrow> sl_array s < length A \<and> sl_len s \<le> capacity A s"

definition overwrite :: "'a list \<Rightarrow> nat \<Rightarrow> 'a list \<Rightarrow> 'a list" where
  "overwrite xs i ys = take i xs @ ys @ drop (i + length ys) xs"

text \<open>
  \<^verbatim>\<open>append\<close>: in place when there is room, else in a new array. How many cells a new array has beyond
  those needed is the runtime's choice, \<open>spare\<close> of the old capacity and the needed length.
\<close>

definition go_append :: "(nat \<Rightarrow> nat \<Rightarrow> nat) \<Rightarrow> arrays \<Rightarrow> slice \<Rightarrow> string list \<Rightarrow> arrays \<times> slice" where
  "go_append spare A s xs =
     (let needed = sl_len s + length xs
      in if needed \<le> capacity A s
         then (A[sl_array s := overwrite (A ! sl_array s) (sl_len s) xs], s\<lparr>sl_len := needed\<rparr>)
         else (A @ [contents A s @ xs @ replicate (spare (capacity A s) needed) []],
               \<lparr>sl_array = length A, sl_len = needed\<rparr>))"

text \<open>For small slices the runtime doubles the capacity.\<close>

definition doubling :: "nat \<Rightarrow> nat \<Rightarrow> nat" where
  "doubling old needed = 2 * old - needed"

section \<open>Facts\<close>

lemma length_contents: "slice_ok A s \<Longrightarrow> length (contents A s) = sl_len s"
  by (simp add: slice_ok_def contents_def capacity_def)

lemma length_overwrite: "i + length ys \<le> length xs \<Longrightarrow> length (overwrite xs i ys) = length xs"
  by (simp add: overwrite_def)

lemma take_overwrite: "i + length ys \<le> length xs \<Longrightarrow> take (i + length ys) (overwrite xs i ys) = take i xs @ ys"
  by (simp add: overwrite_def)

lemma take_overwrite_before: "k \<le> i \<Longrightarrow> i \<le> length xs \<Longrightarrow> take k (overwrite xs i ys) = take k xs"
  by (simp add: overwrite_def min_def)

lemma go_append_contents:
  assumes "slice_ok A s" and "go_append spare A s xs = (A', s')"
  shows "slice_ok A' s'" and "contents A' s' = contents A s @ xs" and "sl_len s' = sl_len s + length xs"
proof -
  have "slice_ok A' s' \<and> contents A' s' = contents A s @ xs \<and> sl_len s' = sl_len s + length xs"
  proof (cases "sl_len s + length xs \<le> capacity A s")
    case True
    with assms show ?thesis
      by (auto simp: go_append_def Let_def slice_ok_def capacity_def contents_def length_overwrite take_overwrite)
  next
    case False
    with assms length_contents [OF assms(1)] show ?thesis
      by (auto simp: go_append_def Let_def slice_ok_def capacity_def contents_def nth_append)
  qed
  then show "slice_ok A' s'" and "contents A' s' = contents A s @ xs" and "sl_len s' = sl_len s + length xs"
    by simp_all
qed

text \<open>
  What other slices see: a slice on another array keeps its contents, one on the same array keeps them
  up to the length of the slice that was extended.
\<close>

lemma go_append_frame:
  assumes "slice_ok A s" and "go_append spare A s xs = (A', s')" and "slice_ok A t"
    and "sl_array t \<noteq> sl_array s \<or> sl_len t \<le> sl_len s \<or> capacity A s < sl_len s + length xs"
  shows "slice_ok A' t" and "contents A' t = contents A t"
proof -
  have "slice_ok A' t \<and> contents A' t = contents A t"
  proof (cases "sl_len s + length xs \<le> capacity A s")
    case True
    with assms show ?thesis
      by (auto simp: go_append_def Let_def slice_ok_def capacity_def contents_def length_overwrite nth_list_update
          take_overwrite_before)
  next
    case False
    with assms show ?thesis
      by (auto simp: go_append_def Let_def slice_ok_def capacity_def contents_def nth_append)
  qed
  then show "slice_ok A' t" and "contents A' t = contents A t" by simp_all
qed

text \<open>A slice is full when there is no room behind it; appending to it makes a new array.\<close>

definition full :: "arrays \<Rightarrow> slice \<Rightarrow> bool" where
  "full A s \<longleftrightarrow> slice_ok A s \<and> sl_len s = capacity A s"

lemma go_append_full:
  assumes "full A s" and "xs \<noteq> []"
  shows "\<exists>B. go_append spare A s xs = (A @ [B], \<lparr>sl_array = length A, sl_len = sl_len s + length xs\<rparr>)"
  using assms by (auto simp: go_append_def full_def Let_def)

lemma go_append_grows: "go_append spare A s xs = (A', s') \<Longrightarrow> length A \<le> length A' \<and> (sl_array s' = sl_array s \<or> sl_array s' = length A)"
  by (auto simp: go_append_def Let_def split: if_splits)

end
