(* ===== verification/Log_Tags.thy ===== *)
theory Log_Tags
  imports Processor Go_Slices
begin

text \<open>
  How the workers build the tags of a log in \<^verbatim>\<open>internal/processor/processor.go\<close>, with the memory that
  they share: the tags of the cached app and the custom tags are slices that all workers hold, and
  \<^verbatim>\<open>ProcessLog\<close> appends to both. \<open>ProcessLog\<close> in \<open>Processor\<close> is what one worker computes alone; here workers
  interleave, append by append.
\<close>

section \<open>The steps of a worker\<close>

text \<open>
  The three tags of the envelope are appended to the app's tags one by one, then all of these to the
  custom tags; the result is read when the log is made.
\<close>

datatype tagger = Tagging slice "string list" | Tagged slice | LogTags "string list"

inductive tag_step :: "(nat \<Rightarrow> nat \<Rightarrow> nat) \<Rightarrow> slice \<Rightarrow> arrays \<times> tagger \<Rightarrow> arrays \<times> tagger \<Rightarrow> bool" for spare customTags where
  append_tag:
    "go_append spare A appTags [t] = (A', appTags') \<Longrightarrow>
     tag_step spare customTags (A, Tagging appTags (t # ts)) (A', Tagging appTags' ts)"
| append_all:
    "go_append spare A customTags (contents A appTags) = (A', allTags) \<Longrightarrow>
     tag_step spare customTags (A, Tagging appTags []) (A', Tagged allTags)"
| read_tags: "tag_step spare customTags (A, Tagged allTags) (A, LogTags (contents A allTags))"

inductive_cases tag_step_cases: "tag_step spare customTags (A, x) (A', x')"

text \<open>The workers interleave; each has taken a log of an app, whose tags are its slice.\<close>

inductive taggers_step ::
  "(nat \<Rightarrow> nat \<Rightarrow> nat) \<Rightarrow> slice \<Rightarrow> arrays \<times> tagger list \<Rightarrow> arrays \<times> tagger list \<Rightarrow> bool" for spare customTags where
  tagger:
    "i < length xs \<Longrightarrow> tag_step spare customTags (A, xs ! i) (A', x') \<Longrightarrow>
     taggers_step spare customTags (A, xs) (A', xs[i := x'])"

definition start_taggers :: "(slice \<times> Envelope) list \<Rightarrow> tagger list" where
  "start_taggers logs = map (\<lambda>(appTags, envelope). Tagging appTags (log_extra_tags envelope)) logs"

section \<open>Without spare room the workers do not disturb each other\<close>

text \<open>What a worker with its app's tags and its own has to come to, and what it holds on the way.\<close>

fun tagger_slice :: "tagger \<Rightarrow> slice option" where
  "tagger_slice (Tagging s ts) = Some s"
| "tagger_slice (Tagged s) = Some s"
| "tagger_slice (LogTags r) = None"

definition own_array :: "arrays \<Rightarrow> tagger \<Rightarrow> nat option" where
  "own_array A0 x =
     (case tagger_slice x of None \<Rightarrow> None
      | Some s \<Rightarrow> if sl_array s < length A0 then None else Some (sl_array s))"

fun tagger_ok :: "arrays \<Rightarrow> slice \<Rightarrow> slice \<times> Envelope \<Rightarrow> arrays \<Rightarrow> tagger \<Rightarrow> bool" where
  "tagger_ok A0 customTags (appTags, envelope) A (Tagging s ts) \<longleftrightarrow>
     slice_ok A s \<and> contents A s @ ts = contents A0 appTags @ log_extra_tags envelope \<and>
     (s = appTags \<and> ts \<noteq> [] \<or> length A0 \<le> sl_array s)"
| "tagger_ok A0 customTags (appTags, envelope) A (Tagged s) \<longleftrightarrow>
     slice_ok A s \<and> length A0 \<le> sl_array s \<and>
     contents A s = contents A0 customTags @ contents A0 appTags @ log_extra_tags envelope"
| "tagger_ok A0 customTags (appTags, envelope) A (LogTags r) \<longleftrightarrow>
     r = contents A0 customTags @ contents A0 appTags @ log_extra_tags envelope"

definition taggers_ok :: "arrays \<Rightarrow> slice \<Rightarrow> (slice \<times> Envelope) list \<Rightarrow> arrays \<times> tagger list \<Rightarrow> bool" where
  "taggers_ok A0 customTags logs s \<longleftrightarrow>
     length (snd s) = length logs \<and> take (length A0) (fst s) = A0 \<and>
     (\<forall>i<length logs. tagger_ok A0 customTags (logs ! i) (fst s) (snd s ! i)) \<and>
     (\<forall>i<length logs. \<forall>j<length logs. i \<noteq> j \<longrightarrow>
        own_array A0 (snd s ! i) = None \<or> own_array A0 (snd s ! i) \<noteq> own_array A0 (snd s ! j))"

text \<open>An append to a slice that is full or on an array of the worker's own leaves the first arrays alone.\<close>

lemma full_later: "full A0 s \<Longrightarrow> take (length A0) A = A0 \<Longrightarrow> full A s"
  by (auto simp: full_def slice_ok_def capacity_def) (metis nth_take nat_less_le length_take min.strict_boundedE not_le_imp_less take_all)+

lemma contents_later: "slice_ok A0 s \<Longrightarrow> take (length A0) A = A0 \<Longrightarrow> contents A s = contents A0 s"
  by (metis contents_def nth_take slice_ok_def)

lemma append_private:
  assumes "slice_ok A s" and "length A0 \<le> sl_array s \<or> full A s" and "xs \<noteq> []" and "take (length A0) A = A0"
    and "go_append spare A s xs = (A', s')"
  shows "take (length A0) A' = A0" and "length A0 \<le> sl_array s'"
    and "sl_array s' = sl_array s \<or> sl_array s' = length A"
    and "slice_ok A t \<Longrightarrow> sl_array t < length A0 \<or> sl_array t \<noteq> sl_array s \<Longrightarrow>
      slice_ok A' t \<and> contents A' t = contents A t"
proof -
  have len: "length A0 \<le> length A" by (metis assms(4) length_take min.cobounded1 min.commute)
  show "take (length A0) A' = A0" "length A0 \<le> sl_array s'" "sl_array s' = sl_array s \<or> sl_array s' = length A"
    using assms len by (auto simp: go_append_def Let_def full_def split: if_splits)
  assume t: "slice_ok A t" "sl_array t < length A0 \<or> sl_array t \<noteq> sl_array s"
  have "sl_array t \<noteq> sl_array s \<or> sl_len t \<le> sl_len s \<or> capacity A s < sl_len s + length xs"
    using t(2) assms(2,3) by (auto simp: full_def)
  from go_append_frame [OF assms(1,5) t(1) this] show "slice_ok A' t \<and> contents A' t = contents A t" by simp
qed

lemma tagger_ok_frame:
  assumes "tagger_ok A0 customTags l A y" and "\<And>t. tagger_slice y = Some t \<Longrightarrow> slice_ok A t \<Longrightarrow> slice_ok A' t \<and> contents A' t = contents A t"
  shows "tagger_ok A0 customTags l A' y"
  using assms by (cases l; cases y) auto

lemma own_array_bound: "tagger_ok A0 customTags l A x \<Longrightarrow> own_array A0 x = Some a \<Longrightarrow> length A0 \<le> a \<and> a < length A"
  by (cases l; cases x) (auto simp: own_array_def slice_ok_def split: if_splits)

lemma tag_step_ok:
  assumes "tag_step spare customTags (A, x) (A', x')" and "tagger_ok A0 customTags (appTags, e) A x"
    and "full A0 customTags" and "full A0 appTags" and "take (length A0) A = A0"
  shows "tagger_ok A0 customTags (appTags, e) A' x' \<and> take (length A0) A' = A0 \<and>
    own_array A0 x' \<in> {own_array A0 x, Some (length A), None} \<and>
    (\<forall>l y. tagger_ok A0 customTags l A y \<longrightarrow> own_array A0 y = None \<or> own_array A0 y \<noteq> own_array A0 x \<longrightarrow>
       tagger_ok A0 customTags l A' y)"
  using assms(1)
proof (cases rule: tag_step_cases [consumes 1, case_names 1 2 3])
  case (1 s t s' ts)
  have s: "slice_ok A s" "length A0 \<le> sl_array s \<or> full A s"
    using assms(2,4,5) 1 full_later by auto
  note p = append_private [OF s _ assms(5) 1(3)]
  have other: "sl_array r < length A0 \<or> sl_array r \<noteq> sl_array s"
    if "own_array A0 y = None \<or> own_array A0 y \<noteq> own_array A0 x" "tagger_slice y = Some r" for y r
    using that 1 by (auto simp: own_array_def split: if_splits)
  have "tagger_ok A0 customTags (appTags, e) A' x'"
    using assms(2) 1 go_append_contents [OF s(1) 1(3)] p(2) by auto
  moreover have "own_array A0 x' \<in> {own_array A0 x, Some (length A), None}"
    using p(2,3) 1 by (auto simp: own_array_def)
  moreover have "tagger_ok A0 customTags l A' y"
    if "tagger_ok A0 customTags l A y" "own_array A0 y = None \<or> own_array A0 y \<noteq> own_array A0 x" for l y
    using that(1) by (rule tagger_ok_frame) (use p(4) other [OF that(2)] in simp)
  ultimately show ?thesis using p(1) by simp
next
  case (2 s s')
  have s: "slice_ok A customTags" "full A customTags" using full_later [OF assms(3,5)] by (simp_all add: full_def)
  have c: "contents A s = contents A0 appTags @ log_extra_tags e" using assms(2) 2 by simp
  then have "contents A s \<noteq> []" by (simp add: log_extra_tags_def)
  note p = append_private [OF s(1) disjI2 [OF s(2)] this assms(5) 2(3)]
  have "contents A customTags = contents A0 customTags"
    using assms(3) contents_later [OF _ assms(5)] by (simp add: full_def)
  then have "tagger_ok A0 customTags (appTags, e) A' x'"
    using 2 c go_append_contents [OF s(1) 2(3)] p(2) by simp
  moreover have "sl_array s' = length A"
    using p(2,3) assms(3) by (auto simp: full_def slice_ok_def)
  then have "own_array A0 x' \<in> {own_array A0 x, Some (length A), None}" using 2 p(2) by (simp add: own_array_def)
  moreover have "tagger_ok A0 customTags l A' y" if "tagger_ok A0 customTags l A y" for l y
    using that
  proof (rule tagger_ok_frame)
    fix r assume "slice_ok A r"
    from go_append_frame [OF s(1) 2(3) this] show "slice_ok A' r \<and> contents A' r = contents A r"
      using s(2) \<open>contents A s \<noteq> []\<close> by (simp add: full_def)
  qed
  ultimately show ?thesis using p(1) by simp
next
  case (3 s)
  with assms show ?thesis by (auto simp: own_array_def)
qed

lemma taggers_step_ok:
  assumes "taggers_step spare customTags s s'" and "taggers_ok A0 customTags logs s"
    and "full A0 customTags" and "list_all (\<lambda>l. full A0 (fst l)) logs"
  shows "taggers_ok A0 customTags logs s'"
  using assms(1)
proof cases
  case (tagger i xs A A' x')
  have i: "i < length logs" and len: "length xs = length logs" and pre: "take (length A0) A = A0"
    using assms(2) tagger by (simp_all add: taggers_ok_def)
  have ok: "tagger_ok A0 customTags (logs ! j) A (xs ! j)" if "j < length logs" for j
    using assms(2) tagger that by (simp add: taggers_ok_def)
  have apart: "own_array A0 (xs ! j) = None \<or> own_array A0 (xs ! j) \<noteq> own_array A0 (xs ! k)"
    if "j < length logs" "k < length logs" "j \<noteq> k" for j k
    using assms(2) tagger that by (simp add: taggers_ok_def)
  obtain appTags e where l: "logs ! i = (appTags, e)" by (cases "logs ! i")
  have "full A0 appTags" using assms(4) i l by (metis fst_conv list_all_length)
  with tag_step_ok [OF tagger(4) _ assms(3) this pre, of e] ok [OF i] l
  have step: "tagger_ok A0 customTags (logs ! i) A' x'" "take (length A0) A' = A0"
    "own_array A0 x' \<in> {own_array A0 (xs ! i), Some (length A), None}"
    "\<And>l y. tagger_ok A0 customTags l A y \<Longrightarrow> own_array A0 y = None \<or> own_array A0 y \<noteq> own_array A0 (xs ! i) \<Longrightarrow>
       tagger_ok A0 customTags l A' y" by auto
  have "tagger_ok A0 customTags (logs ! j) A' (xs[i := x'] ! j)" if "j < length logs" for j
    using that step(1) step(4) [OF ok [OF that]] apart [OF that i] i len by (cases "j = i") auto
  moreover have "own_array A0 (xs[i := x'] ! j) = None \<or> own_array A0 (xs[i := x'] ! j) \<noteq> own_array A0 (xs[i := x'] ! k)"
    if "j < length logs" "k < length logs" "j \<noteq> k" for j k
    using that step(3) apart [OF that] own_array_bound [OF ok [OF that(1)]] own_array_bound [OF ok [OF that(2)]] i len
    by (cases "j = i"; cases "k = i") (auto, (metis apart less_irrefl_nat that)+)
  ultimately show ?thesis using len step(2) tagger by (simp add: taggers_ok_def)
qed

lemma taggers_ok_start:
  assumes "list_all (\<lambda>l. full A0 (fst l)) logs"
  shows "taggers_ok A0 customTags logs (A0, start_taggers logs)"
proof -
  have "tagger_ok A0 customTags (logs ! i) A0 (start_taggers logs ! i) \<and> own_array A0 (start_taggers logs ! i) = None"
    if "i < length logs" for i
  proof -
    obtain appTags e where l: "logs ! i = (appTags, e)" by (cases "logs ! i")
    with assms that have "full A0 appTags" by (metis fst_conv list_all_length)
    with l that show ?thesis by (simp add: start_taggers_def own_array_def full_def slice_ok_def log_extra_tags_def)
  qed
  then show ?thesis by (simp add: taggers_ok_def start_taggers_def)
qed

lemma taggers_reachable_ok:
  assumes "(taggers_step spare customTags)\<^sup>*\<^sup>* (A0, start_taggers logs) s" and "full A0 customTags"
    and "list_all (\<lambda>l. full A0 (fst l)) logs"
  shows "taggers_ok A0 customTags logs s"
  using assms(1)
proof (induction rule: rtranclp_induct)
  case base
  show ?case by (rule taggers_ok_start [OF assms(3)])
next
  case (step s s')
  from taggers_step_ok [OF step(2,3) assms(2,3)] show ?case .
qed

section \<open>A worker alone\<close>

lemma taggers_lift:
  assumes "(tag_step spare customTags)\<^sup>*\<^sup>* (A, x) (A', x')" and "i < length xs" and "xs ! i = x"
  shows "(taggers_step spare customTags)\<^sup>*\<^sup>* (A, xs) (A', xs[i := x'])"
  using assms(1)
proof (induction rule: rtranclp_induct2)
  case refl
  from assms(3) have "xs[i := x] = xs" by auto
  then show ?case by simp
next
  case (step B y B' y')
  have "taggers_step spare customTags (B, xs[i := y]) (B', (xs[i := y])[i := y'])"
    using assms(2) step(2) by (intro taggers_step.tagger) simp_all
  with step(3) show ?case by simp
qed

text \<open>What an append by one worker leaves as it is: slices on other arrays, and shorter ones.\<close>

definition kept :: "arrays \<Rightarrow> arrays \<Rightarrow> slice \<Rightarrow> bool" where
  "kept A A' s \<longleftrightarrow> (\<forall>t. slice_ok A t \<longrightarrow> sl_array t \<noteq> sl_array s \<or> sl_len t \<le> sl_len s \<longrightarrow>
     slice_ok A' t \<and> contents A' t = contents A t)"

lemma go_append_kept: "slice_ok A s \<Longrightarrow> go_append spare A s xs = (A', s') \<Longrightarrow> kept A A' s"
  unfolding kept_def by (meson go_append_frame)

lemma appends_tags:
  assumes "slice_ok A s"
  shows "\<exists>A' s'. (tag_step spare customTags)\<^sup>*\<^sup>* (A, Tagging s ts) (A', Tagging s' []) \<and> slice_ok A' s' \<and>
    contents A' s' = contents A s @ ts \<and> kept A A' s"
  using assms
proof (induction ts arbitrary: A s)
  case Nil
  then show ?case by (auto simp: kept_def)
next
  case (Cons t ts)
  obtain A1 s1 where a: "go_append spare A s [t] = (A1, s1)" by fastforce
  note c = go_append_contents [OF Cons.prems a]
  obtain A' s' where r: "(tag_step spare customTags)\<^sup>*\<^sup>* (A1, Tagging s1 ts) (A', Tagging s' [])" "slice_ok A' s'"
    "contents A' s' = contents A1 s1 @ ts" "kept A1 A' s1"
    using Cons.IH [OF c(1)] by blast
  have "slice_ok A' r \<and> contents A' r = contents A r"
    if "slice_ok A r" "sl_array r \<noteq> sl_array s \<or> sl_len r \<le> sl_len s" for r
  proof -
    have "slice_ok A1 r" "contents A1 r = contents A r"
      using go_append_kept [OF Cons.prems a] that by (auto simp: kept_def)
    moreover have "sl_array r \<noteq> sl_array s1 \<or> sl_len r \<le> sl_len s1"
      using that go_append_grows [OF a] c(3) by (auto simp: slice_ok_def)
    ultimately show ?thesis using r(4) by (simp add: kept_def)
  qed
  then have "kept A A' s" by (simp add: kept_def)
  moreover have "(tag_step spare customTags)\<^sup>*\<^sup>* (A, Tagging s (t # ts)) (A', Tagging s' [])"
    by (rule converse_rtranclp_into_rtranclp [OF tag_step.append_tag [OF a] r(1)])
  moreover have "contents A' s' = contents A s @ t # ts" using r(3) c(2) by simp
  ultimately show ?case using r(2) by blast
qed

lemma tagger_finishes:
  assumes "slice_ok A s" and "slice_ok A customTags"
  shows "\<exists>A'. (tag_step spare customTags)\<^sup>*\<^sup>* (A, Tagging s []) (A', LogTags (contents A customTags @ contents A s)) \<and>
    kept A A' customTags"
proof -
  obtain A' s' where a: "go_append spare A customTags (contents A s) = (A', s')" by fastforce
  from tag_step.append_all [OF a] tag_step.read_tags [of spare customTags A' s'] go_append_contents(2) [OF assms(2) a]
  have "(tag_step spare customTags)\<^sup>*\<^sup>* (A, Tagging s []) (A', LogTags (contents A customTags @ contents A s))"
    by (metis converse_rtranclp_into_rtranclp r_into_rtranclp)
  with go_append_kept [OF assms(2) a] show ?thesis by blast
qed

lemma tagger_alone:
  assumes "slice_ok A s" and "slice_ok A customTags" and "sl_array customTags \<noteq> sl_array s"
  shows "\<exists>A'. (tag_step spare customTags)\<^sup>*\<^sup>* (A, Tagging s ts) (A', LogTags (contents A customTags @ contents A s @ ts)) \<and>
    slice_ok A' s \<and> slice_ok A' customTags \<and> contents A' s = contents A s \<and> contents A' customTags = contents A customTags"
proof -
  obtain A1 s1 where 1: "(tag_step spare customTags)\<^sup>*\<^sup>* (A, Tagging s ts) (A1, Tagging s1 [])" "slice_ok A1 s1"
    "contents A1 s1 = contents A s @ ts" "kept A A1 s"
    using appends_tags [OF assms(1)] by blast
  then have c: "slice_ok A1 customTags" "contents A1 customTags = contents A customTags" "slice_ok A1 s" "contents A1 s = contents A s"
    using assms by (simp_all add: kept_def)
  obtain A2 where 2: "(tag_step spare customTags)\<^sup>*\<^sup>* (A1, Tagging s1 []) (A2, LogTags (contents A1 customTags @ contents A1 s1))"
    "kept A1 A2 customTags"
    using tagger_finishes [OF 1(2) c(1)] by blast
  have "(tag_step spare customTags)\<^sup>*\<^sup>* (A, Tagging s ts) (A2, LogTags (contents A customTags @ contents A s @ ts))"
    using rtranclp_trans [OF 1(1) 2(1)] 1(3) c(2) by simp
  moreover have "slice_ok A2 s \<and> slice_ok A2 customTags \<and> contents A2 s = contents A s \<and> contents A2 customTags = contents A customTags"
    using 2(2) c assms(3) by (simp add: kept_def)
  ultimately show ?thesis by blast
qed

section \<open>With spare room they overwrite each other\<close>

lemma overwrite_overwrite:
  "i + length ys \<le> length xs \<Longrightarrow> length ys = length zs \<Longrightarrow> overwrite (overwrite xs i ys) i zs = overwrite xs i zs"
  by (simp add: overwrite_def)

lemma overwrite_Cons:
  "i + Suc (length ys) \<le> length xs \<Longrightarrow> overwrite (overwrite xs i [y]) (Suc i) ys = overwrite xs i (y # ys)"
  by (simp add: overwrite_def add.commute)

lemma appends_in_place:
  assumes "slice_ok A s" and "sl_len s + length ts \<le> capacity A s"
  shows "(tag_step spare customTags)\<^sup>*\<^sup>* (A, Tagging s ts)
    (A[sl_array s := overwrite (A ! sl_array s) (sl_len s) ts], Tagging (s\<lparr>sl_len := sl_len s + length ts\<rparr>) [])"
  using assms
proof (induction ts arbitrary: A s)
  case Nil
  then show ?case by (simp add: overwrite_def)
next
  case (Cons t ts)
  let ?A = "A[sl_array s := overwrite (A ! sl_array s) (sl_len s) [t]]" and ?s = "s\<lparr>sl_len := sl_len s + 1\<rparr>"
  have a: "go_append spare A s [t] = (?A, ?s)" using Cons.prems by (simp add: go_append_def Let_def)
  have "capacity ?A ?s = capacity A s"
    using Cons.prems by (simp add: capacity_def slice_ok_def length_overwrite)
  with Cons.prems have "slice_ok ?A ?s" "sl_len ?s + length ts \<le> capacity ?A ?s" by (auto simp: slice_ok_def)
  from Cons.IH [OF this] have "(tag_step spare customTags)\<^sup>*\<^sup>* (?A, Tagging ?s ts)
    (A[sl_array s := overwrite (A ! sl_array s) (sl_len s) (t # ts)], Tagging (s\<lparr>sl_len := sl_len s + length (t # ts)\<rparr>) [])"
    using Cons.prems by (simp add: slice_ok_def overwrite_Cons capacity_def)
  with tag_step.append_tag [OF a] show ?case by (rule converse_rtranclp_into_rtranclp)
qed

text \<open>Both append into the same cells, and only then read.\<close>

lemma race:
  assumes "slice_ok A customTags" and "slice_ok A appTags" and "sl_array customTags \<noteq> sl_array appTags"
    and "sl_len appTags + length ts \<le> capacity A appTags" and "length us = length ts"
  shows "\<exists>A'. (taggers_step spare customTags)\<^sup>*\<^sup>* (A, [Tagging appTags ts, Tagging appTags us])
    (A', [LogTags (contents A customTags @ contents A appTags @ us), LogTags (contents A customTags @ contents A appTags @ us)])"
proof -
  let ?n = "sl_len appTags" and ?a = "sl_array appTags"
  let ?s = "appTags\<lparr>sl_len := ?n + length ts\<rparr>"
  let ?A1 = "A[?a := overwrite (A ! ?a) ?n ts]" and ?A2 = "A[?a := overwrite (A ! ?a) ?n us]"
  have a: "?a < length A" "?n + length ts \<le> length (A ! ?a)" using assms(2,4) by (simp_all add: slice_ok_def capacity_def)
  have ok1: "slice_ok ?A1 appTags" "?n + length us \<le> capacity ?A1 appTags"
    using a assms(5) by (simp_all add: slice_ok_def capacity_def length_overwrite)
  have A2: "?A1[?a := overwrite (?A1 ! ?a) ?n us] = ?A2"
    using a assms(5) by (simp add: overwrite_overwrite)
  have 1: "(taggers_step spare customTags)\<^sup>*\<^sup>* (A, [Tagging appTags ts, Tagging appTags us]) (?A1, [Tagging ?s [], Tagging appTags us])"
    using taggers_lift [OF appends_in_place [OF assms(2,4)], of 0 "[Tagging appTags ts, Tagging appTags us]"] by simp
  have 2: "(taggers_step spare customTags)\<^sup>*\<^sup>* (?A1, [Tagging ?s [], Tagging appTags us]) (?A2, [Tagging ?s [], Tagging ?s []])"
    using taggers_lift [OF appends_in_place [OF ok1, of spare customTags], of 1 "[Tagging ?s [], Tagging appTags us]"] A2 assms(5) by simp
  have s: "slice_ok ?A2 ?s" "contents ?A2 ?s = contents A appTags @ us"
    using a assms(5) take_overwrite [of ?n us "A ! ?a"]
    by (simp_all add: slice_ok_def capacity_def contents_def length_overwrite)
  have c: "slice_ok ?A2 customTags" "contents ?A2 customTags = contents A customTags"
    using assms(1,3) by (simp_all add: slice_ok_def capacity_def contents_def)
  let ?r = "LogTags (contents A customTags @ contents A appTags @ us)"
  obtain A3 where 3: "(tag_step spare customTags)\<^sup>*\<^sup>* (?A2, Tagging ?s []) (A3, ?r)" "kept ?A2 A3 customTags"
    using tagger_finishes [OF s(1) c(1), of spare] s(2) c(2) by auto
  then have k: "slice_ok A3 ?s" "slice_ok A3 customTags" "contents A3 ?s = contents A appTags @ us"
    "contents A3 customTags = contents A customTags"
    using s c assms(3) by (simp_all add: kept_def)
  obtain A4 where 4: "(tag_step spare customTags)\<^sup>*\<^sup>* (A3, Tagging ?s []) (A4, ?r)"
    using tagger_finishes [OF k(1,2), of spare] k(3,4) by auto
  have 5: "(taggers_step spare customTags)\<^sup>*\<^sup>* (?A2, [Tagging ?s [], Tagging ?s []]) (A3, [?r, Tagging ?s []])"
    using taggers_lift [OF 3(1), of 0 "[Tagging ?s [], Tagging ?s []]"] by simp
  have 6: "(taggers_step spare customTags)\<^sup>*\<^sup>* (A3, [?r, Tagging ?s []]) (A4, [?r, ?r])"
    using taggers_lift [OF 4, of 1 "[?r, Tagging ?s []]"] by simp
  from 1 2 5 6 show ?thesis by (meson rtranclp_trans)
qed

section \<open>The properties\<close>

text \<open>
  C17: When the workers may share tags. If there is no spare room behind the custom tags and behind the
  tags of the apps, any number of workers may process logs at once, of the same app too, in any
  interleaving of their appends: each log gets the custom tags, its app's tags and the three tags of its
  own envelope, what \<open>ProcessLog\<close> computes for one worker alone.
\<close>

theorem log_tags_undisturbed:
  assumes "(taggers_step spare customTags)\<^sup>*\<^sup>* (A0, start_taggers logs) (A, xs)" and "full A0 customTags"
    and "list_all (\<lambda>l. full A0 (fst l)) logs" and "i < length logs" and "logs ! i = (appTags, envelope)"
    and "contents A0 appTags = app_Tags a" and "xs ! i = LogTags r"
  shows "r = contents A0 customTags @ app_log_tags a envelope"
proof -
  have "tagger_ok A0 customTags (logs ! i) A (xs ! i)"
    using taggers_reachable_ok [OF assms(1-3)] assms(4) by (simp add: taggers_ok_def)
  with assms(5-7) show ?thesis by (simp add: app_log_tags_def)
qed

text \<open>
  The samples: an app with nine tags, which are appended one by one to a slice that starts empty and whose
  capacity is doubled, so that there are sixteen cells; and two logs of its instances 0 and 1.
\<close>

definition nine_tags :: "string list" where
  "nine_tags = map (\<lambda>c. [c, CHR '':'', c]) ''abcdefghi''"

definition sample_arrays :: "arrays \<times> slice" where
  "sample_arrays = foldl (\<lambda>(A, s) t. go_append doubling A s [t]) ([[], []], \<lparr>sl_array = 1, sl_len = 0\<rparr>) nine_tags"

definition sample_app :: App where
  "sample_app = (newApp ''g'')\<lparr>app_Tags := nine_tags\<rparr>"

definition log_of :: "string \<Rightarrow> Envelope" where
  "log_of i = uuid_envelope\<lparr>ev_Tags := [(''instance_id'', i)]\<rparr>"

lemma sample_room:
  "slice_ok (fst sample_arrays) (snd sample_arrays)" "sl_len (snd sample_arrays) = 9"
  "capacity (fst sample_arrays) (snd sample_arrays) = 16" "contents (fst sample_arrays) (snd sample_arrays) = nine_tags"
  "0 < length (fst sample_arrays)" "fst sample_arrays ! 0 = []" "sl_array (snd sample_arrays) \<noteq> 0"
  by code_simp+

theorem log_tags_undisturbed_witness:
  "\<exists>A. (taggers_step doubling \<lparr>sl_array = 0, sl_len = 0\<rparr>)\<^sup>*\<^sup>* ([[], nine_tags], start_taggers [(\<lparr>sl_array = 1, sl_len = 9\<rparr>, log_of ''1'')])
      (A, [LogTags (app_log_tags sample_app (log_of ''1''))])"
proof -
  let ?A = "[[], nine_tags]" and ?c = "\<lparr>sl_array = 0, sl_len = 0\<rparr>" and ?s = "\<lparr>sl_array = 1, sl_len = 9\<rparr>"
  let ?logs = "[(?s, log_of ''1'')]"
  have n: "length nine_tags = 9" by (simp add: nine_tags_def)
  then have ok: "full ?A ?c" "full ?A ?s" "contents ?A ?s = app_Tags sample_app" "contents ?A ?c = []"
    by (simp_all add: full_def slice_ok_def capacity_def contents_def sample_app_def)
  then have "slice_ok ?A ?s" "slice_ok ?A ?c" by (simp_all add: full_def)
  then obtain A r where r: "(tag_step doubling ?c)\<^sup>*\<^sup>* (?A, Tagging ?s (log_extra_tags (log_of ''1''))) (A, LogTags r)"
    using tagger_alone [of ?A ?s ?c doubling] by (metis slice.select_convs(1) zero_neq_one)
  have steps: "(taggers_step doubling ?c)\<^sup>*\<^sup>* (?A, start_taggers ?logs) (A, [LogTags r])"
    using taggers_lift [OF r, of 0 "start_taggers ?logs"] by (simp add: start_taggers_def)
  have "r = contents ?A ?c @ app_log_tags sample_app (log_of ''1'')"
    by (rule log_tags_undisturbed [OF steps ok(1) _ _ _ ok(3), of 0]) (use ok in simp_all)
  with steps ok(4) show ?thesis by auto
qed

text \<open>
  C39: Two workers mix up their logs. When there is room for three tags behind the tags of an app, two
  workers that process logs of this app append into the same cells. One after the other they give
  the right tags; but there is an interleaving in which both logs get the tags of the second envelope,
  its instance index for example.
\<close>

theorem log_tags_race:
  assumes "slice_ok A customTags" and "slice_ok A appTags" and "sl_array customTags \<noteq> sl_array appTags"
    and "sl_len appTags + 3 \<le> capacity A appTags" and "contents A appTags = app_Tags a"
  shows "(\<exists>A'. (taggers_step spare customTags)\<^sup>*\<^sup>* (A, start_taggers [(appTags, e1), (appTags, e2)])
      (A', [LogTags (contents A customTags @ app_log_tags a e1), LogTags (contents A customTags @ app_log_tags a e2)])) \<and>
    (\<exists>A'. (taggers_step spare customTags)\<^sup>*\<^sup>* (A, start_taggers [(appTags, e1), (appTags, e2)])
      (A', [LogTags (contents A customTags @ app_log_tags a e2), LogTags (contents A customTags @ app_log_tags a e2)]))"
proof
  let ?x1 = "Tagging appTags (log_extra_tags e1)" and ?x2 = "Tagging appTags (log_extra_tags e2)"
  let ?r = "\<lambda>e. LogTags (contents A customTags @ contents A appTags @ log_extra_tags e)"
  obtain A1 where 1: "(tag_step spare customTags)\<^sup>*\<^sup>* (A, ?x1) (A1, ?r e1)" "slice_ok A1 appTags" "slice_ok A1 customTags"
    "contents A1 appTags = contents A appTags" "contents A1 customTags = contents A customTags"
    using tagger_alone [OF assms(2,1,3)] by blast
  obtain A2 where 2: "(tag_step spare customTags)\<^sup>*\<^sup>* (A1, ?x2) (A2, ?r e2)"
    using tagger_alone [OF 1(2,3) assms(3)] 1(4,5) by metis
  from taggers_lift [OF 1(1), of 0 "[?x1, ?x2]"] taggers_lift [OF 2, of 1 "[?r e1, ?x2]"]
  have "(taggers_step spare customTags)\<^sup>*\<^sup>* (A, [?x1, ?x2]) (A2, [?r e1, ?r e2])" by simp
  with assms(5) show "\<exists>A'. (taggers_step spare customTags)\<^sup>*\<^sup>* (A, start_taggers [(appTags, e1), (appTags, e2)])
      (A', [LogTags (contents A customTags @ app_log_tags a e1), LogTags (contents A customTags @ app_log_tags a e2)])"
    by (auto simp: start_taggers_def app_log_tags_def)
  show "\<exists>A'. (taggers_step spare customTags)\<^sup>*\<^sup>* (A, start_taggers [(appTags, e1), (appTags, e2)])
      (A', [LogTags (contents A customTags @ app_log_tags a e2), LogTags (contents A customTags @ app_log_tags a e2)])"
    using race [OF assms(1-3), of "log_extra_tags e1" "log_extra_tags e2" spare] assms(4,5)
    by (simp add: start_taggers_def app_log_tags_def log_extra_tags_def)
qed

theorem log_tags_race_witness:
  "\<exists>A'. (taggers_step doubling \<lparr>sl_array = 0, sl_len = 0\<rparr>)\<^sup>*\<^sup>*
      (fst sample_arrays, start_taggers [(snd sample_arrays, log_of ''0''), (snd sample_arrays, log_of ''1'')])
      (A', [LogTags (app_log_tags sample_app (log_of ''1'')), LogTags (app_log_tags sample_app (log_of ''1''))]) \<and>
    app_log_tags sample_app (log_of ''0'') \<noteq> app_log_tags sample_app (log_of ''1'')"
proof -
  have "slice_ok (fst sample_arrays) \<lparr>sl_array = 0, sl_len = 0\<rparr>" "contents (fst sample_arrays) \<lparr>sl_array = 0, sl_len = 0\<rparr> = []"
    using sample_room(5) by (simp_all add: slice_ok_def contents_def)
  moreover have "app_log_tags sample_app (log_of ''0'') \<noteq> app_log_tags sample_app (log_of ''1'')"
    by (simp add: app_log_tags_def log_extra_tags_def log_of_def gget_str_def)
  ultimately show ?thesis
    using log_tags_race [of "fst sample_arrays" "\<lparr>sl_array = 0, sl_len = 0\<rparr>" "snd sample_arrays" sample_app doubling "log_of ''0''" "log_of ''1''"]
      sample_room by (simp add: sample_app_def)
qed

end
