(* ===== verification/App_Race.thy ===== *)
theory App_Race
  imports Package_Types
begin

text \<open>
  An app of the cache while it is refreshed. \<^verbatim>\<open>AppCache.Add\<close> sets the fields of the app under the lock of the
  cache, \<^verbatim>\<open>Parse\<close> reads them under the lock of the app, and \<^verbatim>\<open>ProcessLog\<close> reads them under none: so the
  assignments and the reads interleave. Here an access to one field is one event (a string or a slice is
  taken to be read at once), and an app is followed from its first appearance in the cache, with any
  number of refreshes, logs and metrics of its containers.
\<close>

section \<open>The accesses\<close>

text \<open>
  \<^verbatim>\<open>setAppData\<close> assigns field by field, the tags last and only if the identifying ones are there. Only the
  holder of the cache's lock assigns the fields that the tags are made of.
\<close>

definition set_tags :: "Config \<Rightarrow> CFApplication \<Rightarrow> App \<Rightarrow> App" where
  "set_tags cfg cfapp a =
     (let tags = identity_tags a in if length tags \<noteq> 6 then a else a\<lparr>app_Tags := more_tags cfg cfapp tags\<rparr>)"

definition assignments :: "Config \<Rightarrow> CFApplication \<Rightarrow> (App \<Rightarrow> App) list" where
  "assignments cfg cfapp =
     [\<lambda>a. a\<lparr>app_Name := cf_Name cfapp\<rparr>,
      \<lambda>a. a\<lparr>app_SpaceID := cf_SpaceGUID cfapp\<rparr>,
      \<lambda>a. a\<lparr>app_SpaceName := cf_SpaceName cfapp\<rparr>,
      \<lambda>a. a\<lparr>app_OrgName := cf_OrgName cfapp\<rparr>,
      \<lambda>a. a\<lparr>app_OrgID := cf_OrgGUID cfapp\<rparr>,
      \<lambda>a. a\<lparr>app_NumberOfInstances := cf_Instances cfapp\<rparr>,
      \<lambda>a. a\<lparr>app_TotalDiskConfigured := cf_DiskQuota cfapp\<rparr>,
      \<lambda>a. a\<lparr>app_TotalMemoryConfigured := cf_Memory cfapp\<rparr>,
      \<lambda>a. a\<lparr>app_TotalDiskProvisioned := cf_TotalDiskQuota cfapp\<rparr>,
      \<lambda>a. a\<lparr>app_TotalMemoryProvisioned := cf_TotalMemory cfapp\<rparr>,
      \<lambda>a. a\<lparr>app_Buildpacks := cf_Buildpacks cfapp\<rparr>,
      set_tags cfg cfapp]"

text \<open>
  What \<^verbatim>\<open>Parse\<close> has read of the app, the length of the tags which it reads before the tags, and what it
  will return.
\<close>

record copies =
  cp_app :: App
  cp_length :: nat
  cp_packages :: "MetricPackage list outcome"

type_synonym app_access = "App \<times> copies \<Rightarrow> App \<times> copies"

definition reading :: "(App \<Rightarrow> copies \<Rightarrow> copies) \<Rightarrow> app_access" where
  "reading f = (\<lambda>(a, l). (a, f a l))"

text \<open>\<^verbatim>\<open>make\<close> and \<^verbatim>\<open>copy\<close>: what is missing is empty, what does not fit is left out.\<close>

definition copy_tags :: "nat \<Rightarrow> string list \<Rightarrow> string list" where
  "copy_tags n tags = take n tags @ replicate (n - length tags) []"

definition mkMetrics_reads :: "app_access list" where
  "mkMetrics_reads =
     [reading (\<lambda>a l. l\<lparr>cp_app := (cp_app l)\<lparr>app_Host := app_Host a\<rparr>\<rparr>),
      reading (\<lambda>a l. l\<lparr>cp_length := length (app_Tags a)\<rparr>),
      reading (\<lambda>a l. l\<lparr>cp_app := (cp_app l)\<lparr>app_Tags := copy_tags (cp_length l) (app_Tags a)\<rparr>\<rparr>),
      reading (\<lambda>a l. l\<lparr>cp_app := (cp_app l)\<lparr>app_GUID := app_GUID a\<rparr>\<rparr>)]"

definition getMetrics_reads :: "app_access list" where
  "getMetrics_reads =
     [reading (\<lambda>a l. l\<lparr>cp_app := (cp_app l)\<lparr>app_TotalDiskConfigured := app_TotalDiskConfigured a\<rparr>\<rparr>),
      reading (\<lambda>a l. l\<lparr>cp_app := (cp_app l)\<lparr>app_TotalDiskProvisioned := app_TotalDiskProvisioned a\<rparr>\<rparr>),
      reading (\<lambda>a l. l\<lparr>cp_app := (cp_app l)\<lparr>app_TotalMemoryConfigured := app_TotalMemoryConfigured a\<rparr>\<rparr>),
      reading (\<lambda>a l. l\<lparr>cp_app := (cp_app l)\<lparr>app_TotalMemoryProvisioned := app_TotalMemoryProvisioned a\<rparr>\<rparr>),
      reading (\<lambda>a l. l\<lparr>cp_app := (cp_app l)\<lparr>app_NumberOfInstances := app_NumberOfInstances a\<rparr>\<rparr>)]"

definition parse_accesses :: "AppParser \<Rightarrow> (nat \<Rightarrow> int) \<Rightarrow> Envelope \<Rightarrow> app_access list" where
  "parse_accesses am now envelope =
     [\<lambda>(a, l). (a\<lparr>app_Host := parseHost envelope\<rparr>, l)] @ getMetrics_reads @ mkMetrics_reads @
     [reading (\<lambda>_ l. l\<lparr>cp_packages := Ret (getMetrics now (cp_app l) (am_customTags am))\<rparr>)] @ mkMetrics_reads @
     [reading (\<lambda>_ l. l\<lparr>cp_packages :=
        bind_outcome (cp_packages l) (\<lambda>metricsPackages.
        bind_outcome (parseContainerMetric (\<lambda>i. now (i + 5)) (cp_app l) (GetGauge (ev_Message envelope))
            (ev_InstanceId envelope) (am_customTags am)) (\<lambda>containerMetrics.
          Ret (metricsPackages @ containerMetrics)))\<rparr>)]"

definition no_copies :: copies where
  "no_copies = \<lparr>cp_app = newApp [], cp_length = 0, cp_packages = Ret []\<rparr>"

text \<open>
  What \<^verbatim>\<open>ProcessLog\<close> reads: the tags for the tag that disables logs, the tags that are sent, the name, the
  tags for the source and the build packs.
\<close>

record log_copies =
  lg_enabling :: "string list"
  lg_tags :: "string list"
  lg_service :: string
  lg_source :: "string list"
  lg_buildpacks :: "string list"

type_synonym log_read = "App \<Rightarrow> log_copies \<Rightarrow> log_copies"

definition log_reads :: "log_read list" where
  "log_reads =
     [\<lambda>a l. l\<lparr>lg_enabling := app_Tags a\<rparr>,
      \<lambda>a l. l\<lparr>lg_tags := app_Tags a\<rparr>,
      \<lambda>a l. l\<lparr>lg_service := app_Name a\<rparr>,
      \<lambda>a l. l\<lparr>lg_source := app_Tags a\<rparr>,
      \<lambda>a l. l\<lparr>lg_buildpacks := app_Buildpacks a\<rparr>]"

definition no_log_copies :: log_copies where
  "no_log_copies = \<lparr>lg_enabling = [], lg_tags = [], lg_service = [], lg_source = [], lg_buildpacks = []\<rparr>"

text \<open>The extra tags, the service and the source of the log, unless logs are disabled.\<close>

definition raced_log_info ::
  "(nat \<Rightarrow> (string, string) gomap \<Rightarrow> (string, string) gomap) \<Rightarrow> Envelope \<Rightarrow> log_copies
     \<Rightarrow> (string list \<times> string \<times> string) option outcome" where
  "raced_log_info rng envelope l =
     (if logs_disabled (lg_enabling l) then Ret None
      else bind_outcome (ddsource_tag (lg_source l)) (\<lambda>source.
        Ret (Some (lg_tags l @ log_extra_tags envelope, lg_service l,
          if source = [] then buildpack_source rng 0 (lg_buildpacks l) source else source))))"

section \<open>The events\<close>

text \<open>
  The app, the assignments that the holder of the cache's lock has still to make, the worker with the
  app's lock and the logs in progress, each with the accesses that are left. Looking the app up for a
  log needs the cache's lock for reading, so it waits for an \<^verbatim>\<open>Add\<close> in progress.
\<close>

record shared_app =
  sa_app :: App
  sa_assignments :: "(App \<Rightarrow> App) list"
  sa_parser :: "(app_access list \<times> copies) option"
  sa_logs :: "(log_read list \<times> log_copies) list"

datatype race_event =
    AddBegins CFApplication
  | Assigns
  | ParseLocks "nat \<Rightarrow> int" Envelope
  | ParseAccesses
  | ParseUnlocks
  | LogBegins
  | LogReads nat

fun app_event :: "Config \<Rightarrow> AppParser \<Rightarrow> race_event \<Rightarrow> shared_app \<Rightarrow> shared_app option" where
  "app_event cfg am (AddBegins cfapp) s =
     (if sa_assignments s = [] \<and> cf_GUID cfapp = app_GUID (sa_app s) then Some (s\<lparr>sa_assignments := assignments cfg cfapp\<rparr>)
      else None)"
| "app_event cfg am Assigns s =
     (case sa_assignments s of [] \<Rightarrow> None | f # fs \<Rightarrow> Some (s\<lparr>sa_app := f (sa_app s), sa_assignments := fs\<rparr>))"
| "app_event cfg am (ParseLocks now envelope) s =
     (if sa_parser s = None \<and> IsContainerMetric (ev_Message envelope) then
        Some (s\<lparr>sa_parser := Some (parse_accesses am now envelope, no_copies)\<rparr>)
      else None)"
| "app_event cfg am ParseAccesses s =
     (case sa_parser s of
        Some (f # fs, l) \<Rightarrow> (case f (sa_app s, l) of (a, l') \<Rightarrow> Some (s\<lparr>sa_app := a, sa_parser := Some (fs, l')\<rparr>))
      | _ \<Rightarrow> None)"
| "app_event cfg am ParseUnlocks s =
     (case sa_parser s of Some ([], l) \<Rightarrow> Some (s\<lparr>sa_parser := None\<rparr>) | _ \<Rightarrow> None)"
| "app_event cfg am LogBegins s =
     (if sa_assignments s = [] then Some (s\<lparr>sa_logs := sa_logs s @ [(log_reads, no_log_copies)]\<rparr>) else None)"
| "app_event cfg am (LogReads i) s =
     (if i < length (sa_logs s) then
        (case sa_logs s ! i of
           ([], l) \<Rightarrow> None
         | (f # fs, l) \<Rightarrow> Some (s\<lparr>sa_logs := (sa_logs s)[i := (fs, f (sa_app s) l)]\<rparr>))
      else None)"

fun app_events :: "Config \<Rightarrow> AppParser \<Rightarrow> race_event list \<Rightarrow> shared_app \<Rightarrow> shared_app option" where
  "app_events cfg am [] s = Some s"
| "app_events cfg am (e # es) s = (case app_event cfg am e s of None \<Rightarrow> None | Some s' \<Rightarrow> app_events cfg am es s')"

definition shared :: "App \<Rightarrow> shared_app" where
  "shared a = \<lparr>sa_app = a, sa_assignments = [], sa_parser = None, sa_logs = []\<rparr>"

section \<open>Without a race\<close>

lemma assignments_setAppData: "foldl (\<lambda>a f. f a) a (assignments cfg cfapp) = fst (setAppData cfg a cfapp)"
  by (simp add: assignments_def setAppData_def set_tags_def copy_fields_def Let_def)

lemma copy_tags_id [simp]: "copy_tags (length ts) ts = ts"
  by (simp add: copy_tags_def)

text \<open>The accesses of a worker that is alone with the app are \<open>parse_app\<close>.\<close>

lemma parse_accesses_alone:
  assumes "foldl (\<lambda>p f. f p) (a, no_copies) (parse_accesses am now e) = (a', l)"
  shows "a' = a\<lparr>app_Host := parseHost e\<rparr> \<and>
    parse_app am now c key a e =
      bind_outcome (cp_packages l) (\<lambda>ps. Ret (c\<lparr>ac_apps := gput key a' (ac_apps c)\<rparr>, Inr ps))"
proof -
  let ?a = "a\<lparr>app_Host := parseHost e\<rparr>"
  have "getMetrics now (cp_app l) ts = getMetrics now ?a ts \<and>
      parseContainerMetric n (cp_app l) g i ts = parseContainerMetric n ?a g i ts" for n g i ts
    using assms by (simp add: parse_accesses_def getMetrics_reads_def mkMetrics_reads_def reading_def getMetrics_def
        parseContainerMetric_def mkMetrics_def split: prod.splits) auto
  then show ?thesis
    using assms
    by (auto simp: parse_app_def Let_def parse_accesses_def getMetrics_reads_def mkMetrics_reads_def reading_def
        bind_outcome_assoc)
qed

section \<open>With a race\<close>

text \<open>
  What a sequence of accesses achieves when others change the app in between and only keep \<open>R\<close>: the
  accesses keep it too, and the copies satisfy \<open>Q\<close> in the end.
\<close>

fun achieves :: "(App \<Rightarrow> bool) \<Rightarrow> (copies \<Rightarrow> bool) \<Rightarrow> app_access list \<Rightarrow> copies \<Rightarrow> bool" where
  "achieves R Q [] l \<longleftrightarrow> Q l"
| "achieves R Q (f # fs) l \<longleftrightarrow> (\<forall>a. R a \<longrightarrow> R (fst (f (a, l))) \<and> achieves R Q fs (snd (f (a, l))))"

fun log_achieves :: "(App \<Rightarrow> bool) \<Rightarrow> (log_copies \<Rightarrow> bool) \<Rightarrow> log_read list \<Rightarrow> log_copies \<Rightarrow> bool" where
  "log_achieves R Q [] l \<longleftrightarrow> Q l"
| "log_achieves R Q (f # fs) l \<longleftrightarrow> (\<forall>a. R a \<longrightarrow> log_achieves R Q fs (f a l))"

text \<open>
  The contract of what holds of the app at all times: every assignment of a refresh keeps it, and it is all
  that the readers need.
\<close>

locale app_rely =
  fixes cfg :: Config and am :: AppParser and versions :: "CFApplication set"
    and R :: "App \<Rightarrow> bool" and Q :: "copies \<Rightarrow> bool" and QL :: "log_copies \<Rightarrow> bool"
  assumes assignments_keep: "x \<in> versions \<Longrightarrow> f \<in> set (assignments cfg x) \<Longrightarrow> R a \<Longrightarrow> R (f a)"
    and parse_achieves: "IsContainerMetric (ev_Message e) \<Longrightarrow> achieves R Q (parse_accesses am now e) no_copies"
    and log_reads_achieve: "log_achieves R QL log_reads no_log_copies"
begin

definition kept :: "shared_app \<Rightarrow> bool" where
  "kept s \<longleftrightarrow> R (sa_app s) \<and> (\<forall>f\<in>set (sa_assignments s). \<forall>a. R a \<longrightarrow> R (f a)) \<and>
     (case sa_parser s of None \<Rightarrow> True | Some (fs, l) \<Rightarrow> achieves R Q fs l) \<and>
     (\<forall>r\<in>set (sa_logs s). log_achieves R QL (fst r) (snd r))"

lemma event_keeps:
  assumes "app_event cfg am ev s = Some s'" and "kept s" and "\<And>x. ev = AddBegins x \<Longrightarrow> x \<in> versions"
  shows "kept s'"
proof (cases ev)
  case (AddBegins x)
  then show ?thesis using assms assignments_keep [of x] by (auto simp: kept_def split: if_splits)
next
  case (ParseLocks now e)
  then show ?thesis using assms(1,2) parse_achieves by (auto simp: kept_def split: if_splits)
next
  case (ParseAccesses)
  with assms(1) obtain f fs l where p: "sa_parser s = Some (f # fs, l)"
    "s' = s\<lparr>sa_app := fst (f (sa_app s, l)), sa_parser := Some (fs, snd (f (sa_app s, l)))\<rparr>"
    by (auto split: option.splits list.splits prod.splits)
  then show ?thesis using assms(2) by (simp add: kept_def)
next
  case (LogReads i)
  with assms(1) obtain f fs l where i: "i < length (sa_logs s)" "sa_logs s ! i = (f # fs, l)"
    "s' = s\<lparr>sa_logs := (sa_logs s)[i := (fs, f (sa_app s) l)]\<rparr>"
    by (auto split: prod.splits list.splits if_splits)
  then have "(f # fs, l) \<in> set (sa_logs s)" by (metis nth_mem)
  with assms(2) have next_ok: "log_achieves R QL fs (f (sa_app s) l)" by (fastforce simp: kept_def)
  have "set (sa_logs s') \<subseteq> insert (fs, f (sa_app s) l) (set (sa_logs s))"
    using i(3) set_update_subset_insert [of "sa_logs s" i "(fs, f (sa_app s) l)"] by simp
  with next_ok assms(2) i(3) show ?thesis by (auto simp: kept_def)
next
  case Assigns
  with assms(1) obtain f fs where "sa_assignments s = f # fs" "s' = s\<lparr>sa_app := f (sa_app s), sa_assignments := fs\<rparr>"
    by (auto split: list.splits)
  then show ?thesis using assms(2) by (simp add: kept_def)
next
  case ParseUnlocks
  with assms(1) have "s' = s\<lparr>sa_parser := None\<rparr>" by (auto split: option.splits list.splits prod.splits)
  then show ?thesis using assms(2) by (simp add: kept_def)
next
  case LogBegins
  with assms(1) have "s' = s\<lparr>sa_logs := sa_logs s @ [(log_reads, no_log_copies)]\<rparr>" by (simp split: if_splits)
  then show ?thesis using assms(2) log_reads_achieve by (auto simp: kept_def)
qed

lemma events_keep:
  "app_events cfg am evs s = Some s' \<Longrightarrow> kept s \<Longrightarrow> {x. AddBegins x \<in> set evs} \<subseteq> versions \<Longrightarrow> kept s'"
proof (induction evs arbitrary: s)
  case (Cons ev evs)
  then obtain t where t: "app_event cfg am ev s = Some t" "app_events cfg am evs t = Some s'"
    by (auto split: option.splits)
  have "kept t" by (rule event_keeps [OF t(1) Cons.prems(2)]) (use Cons.prems(3) in auto)
  with Cons.IH [OF t(2)] Cons.prems(3) show ?case by auto
qed simp

text \<open>What a finished reader has.\<close>

lemma finished:
  assumes "app_events cfg am evs (shared a) = Some s" and "R a" and "{x. AddBegins x \<in> set evs} \<subseteq> versions"
  shows "sa_parser s = Some ([], l) \<Longrightarrow> Q l" and "([], l') \<in> set (sa_logs s) \<Longrightarrow> QL l'"
proof -
  have "kept (shared a)" using assms(2) by (simp add: kept_def shared_def)
  from events_keep [OF assms(1) this assms(3)] have s: "kept s" .
  show "sa_parser s = Some ([], l) \<Longrightarrow> Q l" using s by (simp add: kept_def)
  show "([], l') \<in> set (sa_logs s) \<Longrightarrow> QL l'" using s by (force simp: kept_def)
qed

end

section \<open>The identifying tags\<close>

text \<open>A cached app has its six identifying tags in front, its GUID last.\<close>

definition identifying :: "string \<Rightarrow> App \<Rightarrow> bool" where
  "identifying g a \<longleftrightarrow> app_GUID a = g \<and> g \<noteq> [] \<and> 6 \<le> length (app_Tags a) \<and> app_Tags a ! 5 = tag ''guid'' g \<and>
     list_all proper_tag (app_Tags a)"

lemma set_tags_identifies:
  assumes "length (identity_tags a) = 6"
  shows "identifying (app_GUID a) (set_tags cfg x a)"
proof -
  obtain more where more: "more_tags cfg x (identity_tags a) = identity_tags a @ more" using more_tags_prefix by blast
  have "identity_tags a ! 5 = tag ''guid'' (app_GUID a)" by (simp add: identity_tags_eq [OF assms])
  moreover have "list_all proper_tag (identity_tags a @ more)"
    using proper_more_tags [of cfg x "identity_tags a"] by (simp add: more proper_identity_tags)
  ultimately show ?thesis
    using assms identity_tags_length [of a] by (simp add: identifying_def set_tags_def Let_def more nth_append)
qed

lemma set_tags_identifying: "identifying g a \<Longrightarrow> identifying g (set_tags cfg x a)"
  using set_tags_identifies [of a cfg x]
  by (cases "length (identity_tags a) = 6") (auto simp: set_tags_def identifying_def)

lemma assignments_identifying: "f \<in> set (assignments cfg x) \<Longrightarrow> identifying g a \<Longrightarrow> identifying g (f a)"
  by (auto simp: assignments_def set_tags_identifying) (simp_all add: identifying_def)

lemma setAppData_identifying:
  assumes "setAppData cfg (newApp g) x = (a, True)"
  shows "identifying g a"
proof -
  have "length (identity_tags (copy_fields (newApp g) x)) = 6" and "a = set_tags cfg x (copy_fields (newApp g) x)"
    using assms by (auto simp: setAppData_def set_tags_def Let_def split: if_splits)
  then show ?thesis using set_tags_identifies [of "copy_fields (newApp g) x" cfg x] by simp
qed

text \<open>Copying the tags keeps the GUID, whatever happens between reading their length and reading them.\<close>

lemma copy_tags_guid:
  assumes "6 \<le> n" and "identifying g a"
  shows "tag ''guid'' g \<in> set (copy_tags n (app_Tags a))"
proof -
  have "take n (app_Tags a) ! 5 = tag ''guid'' g" "5 < length (take n (app_Tags a))"
    using assms by (simp_all add: identifying_def)
  then have "tag ''guid'' g \<in> set (take n (app_Tags a))" by (metis nth_mem)
  then show ?thesis by (simp add: copy_tags_def)
qed

definition package_identified :: "string \<Rightarrow> MetricPackage \<Rightarrow> bool" where
  "package_identified g p \<longleftrightarrow> tag ''guid'' g \<in> set (mv_Tags (mp_Value p)) \<and>
     tag ''source_id'' g \<in> set (mv_Tags (mp_Value p)) \<and> well_typed p"

lemma mkMetrics_identified:
  assumes "tag ''guid'' g \<in> set (app_Tags a)" and "app_GUID a = g" and "g \<noteq> []"
  shows "list_all (package_identified g) (mkMetrics now a names ms extra)"
proof -
  have "list_all (package_ok a) (mkMetrics now a names ms extra)" using assms by (simp add: mkMetrics_ok)
  moreover have "package_ok a p \<Longrightarrow> well_typed p \<Longrightarrow> package_identified g p" for p
    using assms(1,2) by (fastforce simp: package_ok_def package_identified_def)
  ultimately show ?thesis
    using mkMetrics_well_typed [of now a names ms extra] by (simp add: list_all_iff)
qed

section \<open>Values of the versions\<close>

text \<open>Every number and the name are those of a version of the app that was added at some time.\<close>

definition from_versions :: "CFApplication set \<Rightarrow> App \<Rightarrow> bool" where
  "from_versions V a \<longleftrightarrow> app_Name a \<in> cf_Name ` V \<and> app_NumberOfInstances a \<in> cf_Instances ` V \<and>
     app_TotalDiskConfigured a \<in> cf_DiskQuota ` V \<and> app_TotalMemoryConfigured a \<in> cf_Memory ` V \<and>
     app_TotalDiskProvisioned a \<in> cf_TotalDiskQuota ` V \<and> app_TotalMemoryProvisioned a \<in> cf_TotalMemory ` V"

lemma set_tags_from_versions [simp]: "from_versions V (set_tags cfg x a) \<longleftrightarrow> from_versions V a"
  by (simp add: from_versions_def set_tags_def Let_def)

lemma assignments_from_versions:
  "f \<in> set (assignments cfg x) \<Longrightarrow> x \<in> V \<Longrightarrow> from_versions V a \<Longrightarrow> from_versions V (f a)"
  by (auto simp: assignments_def) (simp_all add: from_versions_def)

lemma setAppData_from_versions: "setAppData cfg b x = (a, ok) \<Longrightarrow> x \<in> V \<Longrightarrow> from_versions V a"
  by (auto simp: setAppData_def copy_fields_def from_versions_def Let_def split: if_splits)

text \<open>The values of the first five metrics.\<close>

definition first_values :: "MetricPackage list \<Rightarrow> float64 list list" where
  "first_values ps = map (\<lambda>p. map pt_Value (mv_Points (mp_Value p))) (take 5 ps)"

definition values_from :: "CFApplication set \<Rightarrow> MetricPackage list \<Rightarrow> bool" where
  "values_from V ps \<longleftrightarrow> (\<exists>x1\<in>V. \<exists>x2\<in>V. \<exists>x3\<in>V. \<exists>x4\<in>V. \<exists>x5\<in>V. first_values ps =
     [[f64_of_int (cf_DiskQuota x1)], [f64_of_int (cf_TotalDiskQuota x2)], [f64_of_int (cf_Memory x3)],
      [f64_of_int (cf_TotalMemory x4)], [f64_of_int (cf_Instances x5)]])"

lemma length_getMetrics [simp]: "length (getMetrics now a ts) = 5"
  by (simp add: getMetrics_def mkMetrics_def app_metric_names_def Let_def split: prod.split)

lemma first_values_getMetrics:
  "first_values (getMetrics now a ts) =
     [[f64_of_int (app_TotalDiskConfigured a)], [f64_of_int (app_TotalDiskProvisioned a)],
      [f64_of_int (app_TotalMemoryConfigured a)], [f64_of_int (app_TotalMemoryProvisioned a)],
      [f64_of_int (app_NumberOfInstances a)]]"
  by (simp add: first_values_def getMetrics_def mkMetrics_def app_metric_names_def Let_def split: prod.split)

lemma values_from_getMetrics: "from_versions V a \<Longrightarrow> values_from V (getMetrics now a ts)"
  by (auto simp: values_from_def first_values_getMetrics from_versions_def)

lemma values_from_append: "length ps = 5 \<Longrightarrow> values_from V (ps @ qs) \<longleftrightarrow> values_from V ps"
  by (simp add: values_from_def first_values_def)

section \<open>What the readers get\<close>

lemma achieves_append: "achieves R Q (fs @ gs) l \<longleftrightarrow> achieves R (achieves R Q gs) fs l"
  by (induction fs arbitrary: l) simp_all

lemma achieves_mono: "achieves R P fs l \<Longrightarrow> (\<And>l. P l \<Longrightarrow> Q l) \<Longrightarrow> achieves R Q fs l"
  by (induction fs arbitrary: l) auto

definition steady :: "string \<Rightarrow> CFApplication set \<Rightarrow> App \<Rightarrow> bool" where
  "steady g V a \<longleftrightarrow> identifying g a \<and> from_versions V a"

definition copied :: "string \<Rightarrow> App \<Rightarrow> bool" where
  "copied g a \<longleftrightarrow> app_GUID a = g \<and> tag ''guid'' g \<in> set (app_Tags a)"

lemma steady_Host [simp]: "steady g V (a\<lparr>app_Host := h\<rparr>) \<longleftrightarrow> steady g V a"
  by (simp add: steady_def identifying_def from_versions_def)

text \<open>The numbers are read, each from a version that may be another one.\<close>

definition numbers_from :: "CFApplication set \<Rightarrow> App \<Rightarrow> bool" where
  "numbers_from V a \<longleftrightarrow> app_NumberOfInstances a \<in> cf_Instances ` V \<and>
     app_TotalDiskConfigured a \<in> cf_DiskQuota ` V \<and> app_TotalMemoryConfigured a \<in> cf_Memory ` V \<and>
     app_TotalDiskProvisioned a \<in> cf_TotalDiskQuota ` V \<and> app_TotalMemoryProvisioned a \<in> cf_TotalMemory ` V"

lemma getMetrics_reads_achieve:
  "achieves (steady g V) (\<lambda>l. numbers_from V (cp_app l)) getMetrics_reads l"
  by (simp add: getMetrics_reads_def reading_def numbers_from_def steady_def from_versions_def)

lemma mkMetrics_reads_achieve:
  "achieves (steady g V)
     (\<lambda>l'. copied g (cp_app l') \<and> cp_packages l' = cp_packages l \<and> (numbers_from V (cp_app l) \<longrightarrow> numbers_from V (cp_app l')))
     mkMetrics_reads l"
proof -
  have "steady g V a \<Longrightarrow> 6 \<le> length (app_Tags a) \<and> app_GUID a = g" for a by (simp add: steady_def identifying_def)
  moreover have "steady g V b \<Longrightarrow> 6 \<le> n \<Longrightarrow> tag ''guid'' g \<in> set (copy_tags n (app_Tags b))" for b n
    using copy_tags_guid [of n g b] by (simp add: steady_def)
  ultimately show ?thesis
    by (simp add: mkMetrics_reads_def reading_def copied_def numbers_from_def)
qed

definition packages_from :: "string \<Rightarrow> CFApplication set \<Rightarrow> MetricPackage list \<Rightarrow> bool" where
  "packages_from g V ps \<longleftrightarrow>
     map (\<lambda>p. mk_Name (mp_Key p)) ps = app_metric_names @ container_metric_names \<and>
     list_all (package_identified g) ps \<and> values_from V ps"

lemma getMetrics_from:
  assumes "copied g a" and "g \<noteq> []" and "numbers_from V a"
  shows "map (\<lambda>p. mk_Name (mp_Key p)) (getMetrics now a ts) = app_metric_names \<and>
    list_all (package_identified g) (getMetrics now a ts) \<and> values_from V (getMetrics now a ts)"
proof -
  have "list_all (package_identified g) (getMetrics now a ts)"
    using assms mkMetrics_identified [of g a] by (simp add: getMetrics_def copied_def)
  moreover have "values_from V (getMetrics now a ts)"
    using assms(3) by (auto simp: values_from_def first_values_getMetrics numbers_from_def)
  ultimately show ?thesis by (simp add: getMetrics_def mkMetrics_names)
qed

lemma parse_accesses_achieve:
  assumes "IsContainerMetric (ev_Message e)" and "g \<noteq> []"
  shows "achieves (steady g V) (\<lambda>l. \<exists>ps. cp_packages l = Ret ps \<and> packages_from g V ps) (parse_accesses am now e) no_copies"
proof -
  let ?R = "steady g V" and ?Q = "\<lambda>l :: copies. \<exists>ps. cp_packages l = Ret ps \<and> packages_from g V ps"
  let ?first = "[reading (\<lambda>_ l. l\<lparr>cp_packages := Ret (getMetrics now (cp_app l) (am_customTags am))\<rparr>)]"
  let ?last = "[reading (\<lambda>_ l. l\<lparr>cp_packages :=
      bind_outcome (cp_packages l) (\<lambda>ms. bind_outcome (parseContainerMetric (\<lambda>i. now (i + 5)) (cp_app l)
        (GetGauge (ev_Message e)) (ev_InstanceId e) (am_customTags am)) (\<lambda>cs. Ret (ms @ cs)))\<rparr>)]"
  define first where "first ps \<longleftrightarrow> map (\<lambda>p. mk_Name (mp_Key p)) ps = app_metric_names \<and>
      list_all (package_identified g) ps \<and> values_from V ps \<and> length ps = 5" for ps
  define made where "made l \<longleftrightarrow> (\<exists>ps. cp_packages l = Ret ps \<and> first ps)" for l :: copies
  have last: "achieves ?R ?Q ?last l" if l: "copied g (cp_app l) \<and> made l" for l
  proof -
    obtain ps where ps: "cp_packages l = Ret ps" "first ps" using l by (auto simp: made_def)
    obtain vs where vs: "length vs = 5" "parseContainerMetric (\<lambda>i. now (i + 5)) (cp_app l) (GetGauge (ev_Message e))
        (ev_InstanceId e) (am_customTags am) = Ret (mkMetrics (\<lambda>i. now (i + 5)) (cp_app l) container_metric_names vs
          (tag ''instance'' (getContainerInstanceID (Some (GetGauge (ev_Message e))) (ev_InstanceId e)) # am_customTags am))"
      by (rule parseContainerMetric_Ret [OF assms(1)])
    have "list_all (package_identified g) (mkMetrics n (cp_app l) names ms ts)" for n names ms ts
      using l assms(2) mkMetrics_identified [of g "cp_app l"] by (simp add: copied_def)
    then show ?thesis
      using ps by (simp add: reading_def vs packages_from_def first_def mkMetrics_names values_from_append)
  qed
  have again: "achieves ?R (achieves ?R ?Q ?last) mkMetrics_reads l" if "made l" for l
    by (rule achieves_mono [OF mkMetrics_reads_achieve last]) (use that in \<open>simp add: made_def\<close>)
  have middle: "achieves ?R (achieves ?R (achieves ?R ?Q ?last) mkMetrics_reads) ?first l"
    if "copied g (cp_app l) \<and> numbers_from V (cp_app l)" for l
  proof (rule achieves_mono [OF _ again])
    show "achieves ?R made ?first l"
      using that getMetrics_from [of g "cp_app l" V now "am_customTags am"] assms(2) by (simp add: reading_def made_def first_def)
  qed
  have tags: "achieves ?R (achieves ?R (achieves ?R (achieves ?R ?Q ?last) mkMetrics_reads) ?first) mkMetrics_reads l"
    if "numbers_from V (cp_app l)" for l
    by (rule achieves_mono [OF mkMetrics_reads_achieve middle]) (use that in simp)
  have host: "achieves ?R P [\<lambda>(a, l). (a\<lparr>app_Host := parseHost e\<rparr>, l)] l" if "P l" for P l
    using that by simp
  show ?thesis
    unfolding parse_accesses_def achieves_append
    by (rule host, rule achieves_mono [OF getMetrics_reads_achieve], erule tags)
qed

definition log_read :: "CFApplication set \<Rightarrow> log_copies \<Rightarrow> bool" where
  "log_read V l \<longleftrightarrow> list_all proper_tag (lg_source l) \<and> lg_service l \<in> cf_Name ` V"

interpretation refreshed: app_rely cfg am V "steady g V" "\<lambda>l. \<exists>ps. cp_packages l = Ret ps \<and> packages_from g V ps" "log_read V"
  for cfg am V g
proof unfold_locales
  fix x f a
  assume "x \<in> V" "f \<in> set (assignments cfg x)" "steady g V a"
  then show "steady g V (f a)" by (simp add: steady_def assignments_identifying assignments_from_versions)
next
  fix e :: Envelope and now
  assume e: "IsContainerMetric (ev_Message e)"
  show "achieves (steady g V) (\<lambda>l. \<exists>ps. cp_packages l = Ret ps \<and> packages_from g V ps) (parse_accesses am now e) no_copies"
  proof (cases "g = []")
    case True
    then have "\<not> steady g V a" for a by (simp add: steady_def identifying_def)
    then show ?thesis by (simp add: parse_accesses_def)
  qed (rule parse_accesses_achieve [OF e])
qed (simp add: log_reads_def log_read_def steady_def identifying_def from_versions_def)

section \<open>The properties\<close>

text \<open>
  C16: What a race cannot do. From its first appearance in the cache, with any number of refreshes, logs and
  container metrics whose accesses to the app interleave in any way: every metric of the app and of its
  containers is well-typed and has the app's GUID among its tags, every number that it reports is that
  of a version of the app, and processing a log does not panic and names a version of the app.
\<close>

theorem app_race_safe:
  assumes "setAppData cfg (newApp g) x = (a, True)" and "app_events cfg am evs (shared a) = Some s"
    and "V = insert x {y. AddBegins y \<in> set evs}"
  shows "(\<forall>l. sa_parser s = Some ([], l) \<longrightarrow> (\<exists>ps. cp_packages l = Ret ps \<and> packages_from g V ps)) \<and>
    (\<forall>l rng e. ([], l) \<in> set (sa_logs s) \<longrightarrow> raced_log_info rng e l \<noteq> Panic \<and> lg_service l \<in> cf_Name ` V)"
proof -
  have a: "steady g V a"
    using setAppData_identifying [OF assms(1)] setAppData_from_versions [OF assms(1), of V] assms(3) by (simp add: steady_def)
  have v: "{y. AddBegins y \<in> set evs} \<subseteq> V" using assms(3) by auto
  have "raced_log_info rng e l \<noteq> Panic \<and> lg_service l \<in> cf_Name ` V" if "([], l) \<in> set (sa_logs s)" for rng e l
  proof -
    have l: "log_read V l" by (rule refreshed.finished(2) [OF assms(2) a v that])
    then obtain source where "ddsource_tag (lg_source l) = Ret source"
      using ddsource_tag_proper by (auto simp: log_read_def)
    with l show ?thesis by (simp add: raced_log_info_def log_read_def)
  qed
  with refreshed.finished(1) [OF assms(2) a v] show ?thesis by blast
qed

lemma app_events_append:
  "app_events cfg am (es @ fs) s = (case app_events cfg am es s of None \<Rightarrow> None | Some t \<Rightarrow> app_events cfg am fs t)"
  by (induction es arbitrary: s) (simp_all split: option.split)

text \<open>A refresh that meets the metrics of a container and a log in the middle.\<close>

definition torn_events :: "CFApplication \<Rightarrow> (nat \<Rightarrow> int) \<Rightarrow> Envelope \<Rightarrow> race_event list" where
  "torn_events y now e =
     [LogBegins, ParseLocks now e, AddBegins y, Assigns] @ replicate 5 (LogReads 0) @ replicate 6 Assigns @
     replicate 8 ParseAccesses @ replicate 5 Assigns @ replicate 8 ParseAccesses"

text \<open>What the worker has copied when it makes the metrics of the app.\<close>

definition torn_copy :: "Config \<Rightarrow> App \<Rightarrow> CFApplication \<Rightarrow> Envelope \<Rightarrow> App" where
  "torn_copy cfg a y e =
     (newApp [])\<lparr>app_TotalDiskConfigured := cf_DiskQuota y, app_TotalDiskProvisioned := app_TotalDiskProvisioned a,
       app_TotalMemoryConfigured := app_TotalMemoryConfigured a, app_TotalMemoryProvisioned := app_TotalMemoryProvisioned a,
       app_NumberOfInstances := cf_Instances y, app_Host := parseHost e,
       app_Tags := copy_tags (length (app_Tags a)) (app_Tags (fst (setAppData cfg a y))), app_GUID := app_GUID a\<rparr>"

lemma setAppData_set_tags: "fst (setAppData cfg a y) = set_tags cfg y (copy_fields a y)"
  by (simp add: setAppData_def set_tags_def Let_def)

lemma set_tags_keeps: "app_GUID (set_tags cfg y a) = app_GUID a" "app_Host (set_tags cfg y a) = app_Host a"
  by (simp_all add: set_tags_def Let_def)

lemma set_tags_Host: "set_tags cfg y (a\<lparr>app_Host := h\<rparr>) = (set_tags cfg y a)\<lparr>app_Host := h\<rparr>"
  by (simp add: set_tags_def Let_def identity_tags_def)

lemma torn_run:
  assumes "IsContainerMetric (ev_Message e)" and "cf_GUID y = app_GUID a"
  shows "\<exists>l l' C. app_events cfg am (torn_events y now e) (shared a) =
      Some \<lparr>sa_app = (fst (setAppData cfg a y))\<lparr>app_Host := parseHost e\<rparr>, sa_assignments = [], sa_parser = Some ([], l), sa_logs = [([], l')]\<rparr> \<and>
    cp_packages l = bind_outcome (parseContainerMetric (\<lambda>i. now (i + 5)) C (GetGauge (ev_Message e))
        (ev_InstanceId e) (am_customTags am)) (\<lambda>cs. Ret (getMetrics now (torn_copy cfg a y e) (am_customTags am) @ cs)) \<and>
    lg_service l' = cf_Name y \<and> lg_tags l' = app_Tags a"
proof -
  have eq: "set_tags cfg y (a\<lparr>app_Name := cf_Name y, app_SpaceID := cf_SpaceGUID y,
      app_SpaceName := cf_SpaceName y, app_OrgName := cf_OrgName y, app_OrgID := cf_OrgGUID y,
      app_NumberOfInstances := cf_Instances y, app_TotalDiskConfigured := cf_DiskQuota y, app_Host := parseHost e,
      app_TotalMemoryConfigured := cf_Memory y, app_TotalDiskProvisioned := cf_TotalDiskQuota y,
      app_TotalMemoryProvisioned := cf_TotalMemory y, app_Buildpacks := cf_Buildpacks y\<rparr>) =
      (set_tags cfg y (copy_fields a y))\<lparr>app_Host := parseHost e\<rparr>"
    by (cases a) (simp add: copy_fields_def set_tags_Host [symmetric])
  show ?thesis
    using assms
    by (simp add: torn_events_def shared_def log_reads_def assignments_def parse_accesses_def getMetrics_reads_def
        mkMetrics_reads_def reading_def numeral_eq_Suc no_copies_def no_log_copies_def eq setAppData_set_tags set_tags_keeps
        torn_copy_def)
      (rule exI, rule refl)
qed

lemma setAppData_identity:
  assumes "setAppData cfg (newApp g) x = (a, True)"
  shows "tag ''app_name'' (cf_Name x) \<in> set (app_Tags a)"
proof -
  let ?b = "copy_fields (newApp g) x"
  have len: "length (identity_tags ?b) = 6" and tags: "app_Tags a = more_tags cfg x (identity_tags ?b)"
    using assms by (auto simp: setAppData_def Let_def split: if_splits)
  obtain more where "more_tags cfg x (identity_tags ?b) = identity_tags ?b @ more" using more_tags_prefix by blast
  then show ?thesis by (simp add: tags identity_tags_eq [OF len]) (simp add: copy_fields_def)
qed

text \<open>
  C38: What a race can do. Whatever two versions of an app are, there is an interleaving of one refresh with
  the metrics of one container and one log after which the app's metrics report the disk quota and the
  instances of the new version beside the memory and the provisioned disk of the old one, and the log
  names the app by its new name while its tags say the old one. When the new version has fewer tags, the
  metrics have an empty tag, since the tags are copied into a slice made for the old ones.
\<close>

theorem app_race_torn:
  assumes "setAppData cfg (newApp g) x = (a, True)" and "cf_GUID y = g" and "IsContainerMetric (ev_Message e)"
  shows "\<exists>s l l' ps. app_events cfg am (torn_events y now e) (shared a) = Some s \<and>
    sa_parser s = Some ([], l) \<and> cp_packages l = Ret ps \<and>
    first_values ps =
      [[f64_of_int (cf_DiskQuota y)], [f64_of_int (cf_TotalDiskQuota x)], [f64_of_int (cf_Memory x)],
       [f64_of_int (cf_TotalMemory x)], [f64_of_int (cf_Instances y)]] \<and>
    (length (app_Tags (fst (setAppData cfg a y))) < length (app_Tags a) \<longrightarrow> [] \<in> set (mv_Tags (mp_Value (hd ps)))) \<and>
    ([], l') \<in> set (sa_logs s) \<and> lg_service l' = cf_Name y \<and> tag ''app_name'' (cf_Name x) \<in> set (lg_tags l')"
proof -
  have a: "identifying g a" by (rule setAppData_identifying [OF assms(1)])
  then have g: "app_GUID a = g" "g \<noteq> []" by (simp_all add: identifying_def)
  have fields: "app_TotalDiskProvisioned a = cf_TotalDiskQuota x" "app_TotalMemoryConfigured a = cf_Memory x"
    "app_TotalMemoryProvisioned a = cf_TotalMemory x"
    using assms(1) by (auto simp: setAppData_def Let_def copy_fields_def split: if_splits)
  let ?m = "getMetrics now (torn_copy cfg a y e) (am_customTags am)"
  obtain l l' C where run: "app_events cfg am (torn_events y now e) (shared a) =
        Some \<lparr>sa_app = (fst (setAppData cfg a y))\<lparr>app_Host := parseHost e\<rparr>, sa_assignments = [],
          sa_parser = Some ([], l), sa_logs = [([], l')]\<rparr>"
    and l: "cp_packages l = bind_outcome (parseContainerMetric (\<lambda>i. now (i + 5)) C (GetGauge (ev_Message e))
        (ev_InstanceId e) (am_customTags am)) (\<lambda>cs. Ret (?m @ cs))"
    and l': "lg_service l' = cf_Name y" "lg_tags l' = app_Tags a"
    using torn_run [OF assms(3), of y a cfg am now] assms(2) g(1) by auto
  obtain cs where ps: "cp_packages l = Ret (?m @ cs)"
    using parseContainerMetric_Ret [OF assms(3), of "\<lambda>i. now (i + 5)" C "ev_InstanceId e" "am_customTags am"] l by fastforce
  have "first_values (?m @ cs) = first_values ?m" by (simp add: first_values_def)
  then have vals: "first_values (?m @ cs) =
      [[f64_of_int (cf_DiskQuota y)], [f64_of_int (cf_TotalDiskQuota x)], [f64_of_int (cf_Memory x)],
       [f64_of_int (cf_TotalMemory x)], [f64_of_int (cf_Instances y)]]"
    by (simp add: first_values_getMetrics torn_copy_def fields)
  have "[] \<in> set (mv_Tags (mp_Value (hd (?m @ cs))))"
    if less: "length (app_Tags (fst (setAppData cfg a y))) < length (app_Tags a)"
  proof -
    have "[] \<in> set (app_Tags (torn_copy cfg a y e))" using less by (simp add: torn_copy_def copy_tags_def)
    moreover have "list_all (package_ok (torn_copy cfg a y e)) ?m"
      using g unfolding getMetrics_def by (intro mkMetrics_ok) (simp add: torn_copy_def)
    moreover have "?m \<noteq> []" using length_getMetrics [of now "torn_copy cfg a y e" "am_customTags am"] by fastforce
    ultimately show ?thesis by (cases ?m) (auto simp: package_ok_def)
  qed
  then show ?thesis using run ps vals l' setAppData_identity [OF assms(1)] by (intro exI conjI) auto
qed

text \<open>
  In the witnesses the app has lost its build pack and doubled its disk, and has a new name: its tags are
  seven before and six after.
\<close>

definition refreshed_app :: CFApplication where
  "refreshed_app = sample_app\<lparr>cf_Name := ''n2'', cf_Buildpacks := [], cf_DiskQuota := 2\<rparr>"

definition cached_app :: App where
  "cached_app = fst (setAppData zero_Config (newApp ''g'') sample_app)"

lemma cached_app: "setAppData zero_Config (newApp ''g'') sample_app = (cached_app, True)"
  using setAppData_ok_iff [of "newApp ''g''" sample_app zero_Config] sample_app_identified sample_app_GUID
  by (simp add: cached_app_def prod_eq_iff)

lemma container_metric: "IsContainerMetric (ev_Message container_envelope)"
  by (simp add: container_envelope_def container_loop_eq container_keys_def gauge_key_ok_def)

lemmas sample_tags = cached_app_def setAppData_def copy_fields_def sample_app_def refreshed_app_def newApp_def identity_tags_def
  appendTagIfNotEmpty_def more_tags_def appendMetadataTags_eq zero_CFApplication_def entries_def Let_def

theorem app_race_torn_witness:
  "\<exists>s l ps. app_events zero_Config sample_parser (torn_events refreshed_app (\<lambda>_. 7) container_envelope) (shared cached_app) = Some s \<and>
     sa_parser s = Some ([], l) \<and> cp_packages l = Ret ps \<and> hd (first_values ps) = [f64_of_int 2] \<and>
     [] \<in> set (mv_Tags (mp_Value (hd ps)))"
proof -
  have "cf_GUID refreshed_app = ''g''" "cf_DiskQuota refreshed_app = 2" by (simp_all add: refreshed_app_def sample_app_GUID)
  moreover have "length (app_Tags cached_app) = 7" "length (app_Tags (fst (setAppData zero_Config cached_app refreshed_app))) = 6"
    by (simp_all add: sample_tags)
  ultimately obtain s l ps where
    "app_events zero_Config sample_parser (torn_events refreshed_app (\<lambda>_. 7) container_envelope) (shared cached_app) = Some s"
    "sa_parser s = Some ([], l)" "cp_packages l = Ret ps" "hd (first_values ps) = [f64_of_int 2]"
    "[] \<in> set (mv_Tags (mp_Value (hd ps)))"
    using app_race_torn [OF cached_app _ container_metric, of refreshed_app sample_parser "\<lambda>_. 7"] by auto
  then show ?thesis by blast
qed

theorem app_race_safe_witness:
  "\<exists>s l ps. app_events zero_Config sample_parser (torn_events refreshed_app (\<lambda>_. 7) container_envelope) (shared cached_app) = Some s \<and>
     sa_parser s = Some ([], l) \<and> cp_packages l = Ret ps \<and> packages_from ''g'' {sample_app, refreshed_app} ps"
proof -
  let ?evs = "torn_events refreshed_app (\<lambda>_. 7) container_envelope"
  have "app_GUID cached_app = ''g''" using setAppData_eq_GUID [OF cached_app] by simp
  then have "cf_GUID refreshed_app = app_GUID cached_app" by (simp add: refreshed_app_def sample_app_GUID)
  from torn_run [OF container_metric this, of zero_Config sample_parser "\<lambda>_. 7"] obtain s l where
    run: "app_events zero_Config sample_parser ?evs (shared cached_app) = Some s" "sa_parser s = Some ([], l)" by auto
  have "insert sample_app {y. AddBegins y \<in> set ?evs} = {sample_app, refreshed_app}" by (auto simp: torn_events_def)
  with app_race_safe [OF cached_app run(1) refl] run show ?thesis by auto
qed

end
