(* ===== verification/Thread_Dump.thy ===== *)
theory Thread_Dump
  imports Prelude
begin

text \<open>
  The goroutine of \<^verbatim>\<open>main.go\<close> that prints the stacks of all goroutines when the process gets \<^verbatim>\<open>SIGUSR1\<close>: the
  channel that the signals are sent to, which has room for one, and the loop that receives from it until
  \<^verbatim>\<open>main\<close> returns and closes it. The text that is printed is the runtime's; here a print is counted.
\<close>

section \<open>The channel and the loop\<close>

record dump_state =
  du_waiting :: nat
  du_closed :: bool
  du_done :: bool
  du_printed :: nat

definition dump_cap :: nat where
  "dump_cap = 1"

definition registerGoRoutineDumpSignalChannel :: dump_state where
  "registerGoRoutineDumpSignalChannel = \<lparr>du_waiting = 0, du_closed = False, du_done = False, du_printed = 0\<rparr>"

datatype dump_move = SignalArrives | LoopReceives | MainReturns

text \<open>
  The runtime delivers a signal without waiting: it is dropped when the channel is full, and sending to a
  closed channel panics. The loop receives what is waiting even when the channel was closed, and ends
  when it is closed and empty. \<open>None\<close>: the action is not possible.
\<close>

fun dump_action :: "dump_move \<Rightarrow> dump_state \<Rightarrow> dump_state outcome option" where
  "dump_action SignalArrives d =
     (if du_closed d then Some Panic
      else if du_waiting d < dump_cap then Some (Ret (d\<lparr>du_waiting := du_waiting d + 1\<rparr>))
      else Some (Ret d))"
| "dump_action LoopReceives d =
     (if du_done d then None
      else if 0 < du_waiting d then Some (Ret (d\<lparr>du_waiting := du_waiting d - 1, du_printed := du_printed d + 1\<rparr>))
      else if du_closed d then Some (Ret (d\<lparr>du_done := True\<rparr>))
      else None)"
| "dump_action MainReturns d = (if du_closed d then None else Some (Ret (d\<lparr>du_closed := True\<rparr>)))"

fun dump_actions :: "dump_move list \<Rightarrow> dump_state \<Rightarrow> dump_state outcome option" where
  "dump_actions [] d = Some (Ret d)"
| "dump_actions (x # xs) d =
     (case dump_action x d of Some (Ret d') \<Rightarrow> dump_actions xs d' | Some Panic \<Rightarrow> Some Panic | None \<Rightarrow> None)"

section \<open>Facts\<close>

definition signals :: "dump_move list \<Rightarrow> nat" where
  "signals xs = length (filter (\<lambda>x. x = SignalArrives) xs)"

text \<open>At most one print per signal, and never more than one signal waits.\<close>

lemma dump_actions_counted:
  "dump_actions xs d = Some (Ret d') \<Longrightarrow> du_waiting d \<le> dump_cap \<Longrightarrow>
   du_waiting d' \<le> dump_cap \<and> du_printed d' + du_waiting d' \<le> du_printed d + du_waiting d + signals xs"
proof (induction xs arbitrary: d)
  case (Cons x xs)
  then obtain t where t: "dump_action x d = Some (Ret t)" "dump_actions xs t = Some (Ret d')"
    by (auto split: option.splits outcome.splits)
  have s: "signals (x # xs) = (if x = SignalArrives then 1 else 0) + signals xs" by (simp add: signals_def)
  have "du_waiting t \<le> dump_cap \<and> du_printed t + du_waiting t \<le> du_printed d + du_waiting d + (if x = SignalArrives then 1 else 0)"
    using t(1) Cons.prems(2) by (cases x) (auto split: if_splits)
  with Cons.IH [OF t(2)] show ?case by (simp add: s)
qed (simp add: signals_def)

text \<open>Every signal that was waiting when \<^verbatim>\<open>main\<close> returned is printed, if the process lives long enough, and the loop ends.\<close>

lemma dump_loop_ends:
  "du_closed d \<Longrightarrow> \<not> du_done d \<Longrightarrow>
   dump_actions (replicate (du_waiting d + 1) LoopReceives) d =
     Some (Ret (d\<lparr>du_waiting := 0, du_printed := du_printed d + du_waiting d, du_done := True\<rparr>))"
proof (induction "du_waiting d" arbitrary: d)
  case (Suc n)
  let ?d = "d\<lparr>du_waiting := n, du_printed := du_printed d + 1\<rparr>"
  from Suc.hyps(1) [of ?d] Suc.hyps(2) [symmetric] Suc.prems show ?case by simp
qed simp

text \<open>The registration is not undone: a signal between the closing of the channel and the end of the process panics.\<close>

lemma dump_signal_after_close:
  "dump_actions [MainReturns, SignalArrives] registerGoRoutineDumpSignalChannel = Some Panic"
  by (simp add: registerGoRoutineDumpSignalChannel_def)

end
