(* ===== verification/Go_Scan.thy ===== *)
theory Go_Scan
  imports Go_Floats
begin

text \<open>
  What \<^verbatim>\<open>fmt.Sscanf\<close> does with the verbs \<^verbatim>\<open>%d\<close> and \<^verbatim>\<open>%f\<close> and with literal characters, and
  \<^verbatim>\<open>strconv.ParseFloat\<close>, which it calls. A scanner takes the rest of the input and returns what it read
  and the new rest; \<open>None\<close> is an error. Input is read as bytes: spaces outside ASCII are not known.
\<close>

section \<open>The nearest float to a fraction\<close>

text \<open>
  The fraction is scaled so that the least positive float, \<open>2 ^ -1074\<close>, is 1; then all bits but 53 are
  rounded away. A value that rounds to \<open>2 ^ 1024\<close> or more is out of range.
\<close>

definition lowest :: nat where "lowest = 1074"

definition f64_nearest :: "bool \<Rightarrow> nat \<Rightarrow> nat \<Rightarrow> float64 option" where
  "f64_nearest neg num den =
     (let shift = bitlen (num * 2 ^ lowest div den) - 53;
          q = round_half_even (num * 2 ^ lowest) (den * 2 ^ shift)
      in if 2 ^ (1024 + lowest) \<le> q * 2 ^ shift then None else Some (Fin neg q (int shift - int lowest)))"

section \<open>\<open>ParseFloat\<close>\<close>

definition is_sign :: "char \<Rightarrow> bool" where
  "is_sign c \<longleftrightarrow> c = CHR ''+'' \<or> c = CHR ''-''"

text \<open>An optional sign: is it a minus, and the rest.\<close>

definition cut_sign :: "string \<Rightarrow> bool \<times> string" where
  "cut_sign s = (case s of [] \<Rightarrow> (False, []) | c # cs \<Rightarrow> if is_sign c then (c = CHR ''-'', cs) else (False, s))"

definition hex_digit_value :: "char \<Rightarrow> nat" where
  "hex_digit_value c = (if is_digit c then of_char c - 48 else of_char (lower_char c) - 87)"

definition is_base_digit :: "bool \<Rightarrow> char \<Rightarrow> bool" where
  "is_base_digit hex c \<longleftrightarrow> is_digit c \<or> hex \<and> (let n = (of_char (lower_char c) :: nat) in 97 \<le> n \<and> n \<le> 102)"

definition base_value :: "bool \<Rightarrow> string \<Rightarrow> nat" where
  "base_value hex ds = foldl (\<lambda>acc c. (if hex then 16 else 10) * acc + hex_digit_value c) 0 ds"

text \<open>Underscores may separate digits, and follow the prefix of a base. \<open>saw\<close> is the class of the last character.\<close>

datatype saw = SawStart | SawDigit | SawUnderscore | SawOther

fun underscores_loop :: "bool \<Rightarrow> saw \<Rightarrow> string \<Rightarrow> bool" where
  "underscores_loop hex saw [] \<longleftrightarrow> saw \<noteq> SawUnderscore"
| "underscores_loop hex saw (c # cs) \<longleftrightarrow>
     (if is_base_digit hex c then underscores_loop hex SawDigit cs
      else if c = CHR ''_'' then saw = SawDigit \<and> underscores_loop hex SawUnderscore cs
      else saw \<noteq> SawUnderscore \<and> underscores_loop hex SawOther cs)"

definition underscoreOK :: "string \<Rightarrow> bool" where
  "underscoreOK s =
     (case snd (cut_sign s) of
        c # b # cs \<Rightarrow>
          if c = CHR ''0'' \<and> lower_char b \<in> {CHR ''b'', CHR ''o'', CHR ''x''}
          then underscores_loop (lower_char b = CHR ''x'') SawDigit cs else underscores_loop False SawStart (c # b # cs)
      | cs \<Rightarrow> underscores_loop False SawStart cs)"

text \<open>The exponent stops growing at five digits.\<close>

definition exponent_value :: "string \<Rightarrow> nat" where
  "exponent_value ds = foldl (\<lambda>acc c. if acc < 10000 then 10 * acc + (of_char c - 48) else acc) 0 ds"

text \<open>
  The exponent after the mantissa: its letter, a sign, and digits with underscores, the first a digit.
  Without the letter it is 0; a hexadecimal mantissa must have one.
\<close>

definition read_exponent :: "bool \<Rightarrow> string \<Rightarrow> int option" where
  "read_exponent hex s =
     (case s of
        [] \<Rightarrow> if hex then None else Some 0
      | c # cs \<Rightarrow>
          if lower_char c \<noteq> (if hex then CHR ''p'' else CHR ''e'') then None
          else let (neg, ds) = cut_sign cs;
                   e = int (exponent_value (filter is_digit ds))
               in if ds = [] \<or> \<not> is_digit (hd ds) \<or> \<not> list_all (\<lambda>c. is_digit c \<or> c = CHR ''_'') ds then None
                  else Some (if neg then - e else e))"

definition scale :: "bool \<Rightarrow> nat \<Rightarrow> nat \<Rightarrow> int \<Rightarrow> float64 option" where
  "scale neg mantissa base e =
     (if 0 \<le> e then f64_nearest neg (mantissa * base ^ nat e) 1 else f64_nearest neg mantissa (base ^ nat (- e)))"

definition hex_prefix :: "string \<Rightarrow> bool" where
  "hex_prefix s \<longleftrightarrow> length s > 2 \<and> hd s = CHR ''0'' \<and> lower_char (s ! 1) = CHR ''x''"

text \<open>The digits before and after the point, without underscores, and the rest.\<close>

definition read_mantissa :: "bool \<Rightarrow> string \<Rightarrow> string \<times> string \<times> string" where
  "read_mantissa hex s =
     (let part = (\<lambda>c. is_base_digit hex c \<or> c = CHR ''_'');
          before = filter (is_base_digit hex) (takeWhile part s);
          r = dropWhile part s
      in case r of
           [] \<Rightarrow> (before, [], [])
         | c # cs \<Rightarrow>
             if c = CHR ''.'' then (before, filter (is_base_digit hex) (takeWhile part cs), dropWhile part cs)
             else (before, [], r))"

definition read_float :: "string \<Rightarrow> float64 option" where
  "read_float s =
     (case cut_sign s of (neg, r) \<Rightarrow>
        let hex = hex_prefix r
        in case read_mantissa hex (if hex then drop 2 r else r) of (before, after, r') \<Rightarrow>
             if before @ after = [] \<or> CHR ''_'' \<in> set s \<and> \<not> underscoreOK s then None
             else case read_exponent hex r' of
               None \<Rightarrow> None
             | Some e \<Rightarrow>
                 if hex then scale neg (base_value True (before @ after)) 2 (e - 4 * int (length after))
                 else scale neg (base_value False (before @ after)) 10 (e - int (length after)))"

definition ParseFloat :: "string \<Rightarrow> float64 option" where
  "ParseFloat s =
     (if to_lower (snd (cut_sign s)) \<in> {''inf'', ''infinity''} then Some (Inf (fst (cut_sign s)))
      else if to_lower s = ''nan'' then Some NaN
      else read_float s)"

section \<open>Scanning\<close>

text \<open>A literal character of the format.\<close>

definition scan_literal :: "char \<Rightarrow> string \<Rightarrow> string option" where
  "scan_literal c s = (case s of [] \<Rightarrow> None | d # ds \<Rightarrow> if d = c then Some ds else None)"

text \<open>Spaces before a verb are skipped; a newline is an error.\<close>

fun skip_space :: "string \<Rightarrow> string option" where
  "skip_space [] = Some []"
| "skip_space (c # cs) =
     (if c = CHR 0x0A then None else if is_space c then skip_space cs else Some (c # cs))"

definition scan_int :: "string \<Rightarrow> (int \<times> string) option" where
  "scan_int s =
     (case skip_space s of
        None \<Rightarrow> None
      | Some r \<Rightarrow>
          let (neg, r1) = cut_sign r;
              ds = takeWhile is_digit r1;
              n = (if neg then - int (digits_value ds) else int (digits_value ds))
          in if ds = [] \<or> n < - (2 ^ 63) \<or> 2 ^ 63 \<le> n then None else Some (n, dropWhile is_digit r1))"

text \<open>
  The token of a float. \<open>accept\<close> moves one character of a given class to the token, if it is there; a
  sequence of classes stops at the first that is missing and keeps what it has moved.
\<close>

type_synonym token = "string \<times> string"

fun accept :: "string \<Rightarrow> token \<Rightarrow> bool \<times> token" where
  "accept cls (tok, c # r) = (if c \<in> set cls then (True, tok @ [c], r) else (False, tok, c # r))"
| "accept cls (tok, []) = (False, tok, [])"

fun accept_seq :: "string list \<Rightarrow> token \<Rightarrow> bool \<times> token" where
  "accept_seq [] t = (True, t)"
| "accept_seq (cls # clss) t = (case accept cls t of (True, t') \<Rightarrow> accept_seq clss t' | (False, t') \<Rightarrow> (False, t'))"

definition accept_all :: "string \<Rightarrow> token \<Rightarrow> token" where
  "accept_all cls t = (fst t @ takeWhile (\<lambda>c. c \<in> set cls) (snd t), dropWhile (\<lambda>c. c \<in> set cls) (snd t))"

definition number_token :: "token \<Rightarrow> token" where
  "number_token t =
     (let (hex, t1) = accept_seq [''0'', ''xX''] t;
          digits = (if hex then ''0123456789aAbBcCdDeEfF_'' else ''0123456789_'');
          (point, t2) = accept ''.'' (accept_all digits t1);
          t3 = (if point then accept_all digits t2 else t2);
          (e, t4) = accept (if hex then ''pP'' else ''eEpP'') t3
      in if e then accept_all ''0123456789_'' (snd (accept ''+-'' t4)) else t4)"

definition float_token :: "string \<Rightarrow> token" where
  "float_token s =
     (let (nan, t) = accept_seq [''nN'', ''aA'', ''nN''] ([], s);
          (inf, t') = accept_seq [''iI'', ''nN'', ''fF''] (snd (accept ''+-'' t))
      in if nan then t else if inf then t' else number_token t')"

text \<open>
  The token's value: a decimal mantissa may have a binary exponent after a \<^verbatim>\<open>p\<close>, which
  \<^verbatim>\<open>ParseFloat\<close> does not know.
\<close>

fun ldexp :: "float64 \<Rightarrow> int \<Rightarrow> float64" where
  "ldexp (Fin neg m e) k =
     (case (if 0 \<le> e + k then f64_nearest neg (m * 2 ^ nat (e + k)) 1 else f64_nearest neg m (2 ^ nat (- (e + k)))) of
        None \<Rightarrow> Inf neg | Some f \<Rightarrow> f)"
| "ldexp f k = f"

definition convert_float :: "string \<Rightarrow> float64 option" where
  "convert_float tok =
     (if CHR ''p'' \<in> set tok \<and> CHR ''x'' \<notin> set tok \<and> CHR ''X'' \<notin> set tok then
        (case (ParseFloat (takeWhile (\<lambda>c. c \<noteq> CHR ''p'') tok), atoi (tl (dropWhile (\<lambda>c. c \<noteq> CHR ''p'') tok))) of
           (Some f, Some k) \<Rightarrow> Some (ldexp f k)
         | _ \<Rightarrow> None)
      else ParseFloat tok)"

definition scan_float :: "string \<Rightarrow> (float64 \<times> string) option" where
  "scan_float s =
     (case skip_space s of
        None \<Rightarrow> None
      | Some r \<Rightarrow>
          if r = [] then None
          else let (tok, r') = float_token r in map_option (\<lambda>f. (f, r')) (convert_float tok))"

end
