(* ===== verification/Point_Json.thy ===== *)
theory Point_Json
  imports Metric Go_Scan
begin

text \<open>
  Reading a point back from its JSON form (\<^verbatim>\<open>Point.UnmarshalJSON\<close> in \<^verbatim>\<open>internal/metric/metric.go\<close>).
\<close>

text \<open>\<^verbatim>\<open>Sscanf\<close> with the format \<^verbatim>\<open>[%d,%f]\<close>; what follows the bracket is ignored.\<close>

definition Point_UnmarshalJSON :: "string \<Rightarrow> Point option" where
  "Point_UnmarshalJSON input =
     (case scan_literal (CHR ''['') input of None \<Rightarrow> None | Some s1 \<Rightarrow>
     (case scan_int s1 of None \<Rightarrow> None | Some (timestamp, s2) \<Rightarrow>
     (case scan_literal (CHR '','') s2 of None \<Rightarrow> None | Some s3 \<Rightarrow>
     (case scan_float s3 of None \<Rightarrow> None | Some (value, s4) \<Rightarrow>
     (case scan_literal (CHR '']'') s4 of None \<Rightarrow> None | Some s5 \<Rightarrow>
        Some \<lparr>pt_Timestamp = timestamp, pt_Value = value\<rparr>)))))"

section \<open>Digits\<close>

lemma digit_not:
  assumes "is_digit c"
  shows "c \<notin> set ''nNaAiIfFxXpPeE+-._,] ''" "\<not> is_space c" "\<not> is_sign c" "lower_char c = c"
  using assms by (auto simp: is_digit_def is_space_def is_sign_def lower_char_def Let_def)

lemma digit_in_class: "is_digit c \<longleftrightarrow> c \<in> set ''0123456789''"
proof
  assume "is_digit c"
  then have n: "48 \<le> (of_char c :: nat)" "(of_char c :: nat) \<le> 57" by (simp_all add: is_digit_def Let_def)
  define k where "k = (of_char c :: nat)"
  then have c: "c = char_of k" by simp
  have "48 \<le> k" "k \<le> 57" using n by (simp_all add: k_def)
  then have "k \<in> {48, 49, 50, 51, 52, 53, 54, 55, 56, 57}" by (simp only: insert_iff empty_iff) presburger
  then show "c \<in> set ''0123456789''" unfolding c by (elim insertE emptyE; hypsubst; code_simp)
qed (auto simp: is_digit_def Let_def)

lemma takeWhile_digits:
  assumes "list_all is_digit ds" and "r = [] \<or> \<not> P (hd r)" and "\<And>c. is_digit c \<Longrightarrow> P c"
  shows "takeWhile P (ds @ r) = ds" and "dropWhile P (ds @ r) = r"
  using assms by (induction ds) (cases r; simp)+

lemma digits_value_append: "digits_value (xs @ ys) = digits_value xs * 10 ^ length ys + digits_value ys"
proof (induction ys rule: rev_induct)
  case (snoc y ys)
  then show ?case using digits_value_snoc [of "xs @ ys" y] digits_value_snoc [of ys y] by (simp add: algebra_simps)
qed (simp add: digits_value_def)

lemma digits_value_zeros: "digits_value (replicate k (CHR ''0'')) = 0"
  by (induction k) (simp_all add: digits_value_def)

lemma length_dec_digits: "n < 10 ^ Suc k \<Longrightarrow> length (dec_digits n) \<le> Suc k"
proof (induction k arbitrary: n)
  case 0
  then show ?case by (subst dec_digits.simps) simp
next
  case (Suc k)
  show ?case
  proof (cases "n < 10")
    case True
    then show ?thesis by (subst dec_digits.simps) simp
  next
    case False
    from Suc.prems have "n div 10 < 10 ^ Suc k" by (simp add: less_mult_imp_div_less mult.commute)
    from Suc.IH [OF this] False show ?thesis by (subst dec_digits.simps) simp
  qed
qed

text \<open>The two parts of the printed form of a finite number.\<close>

definition int_part :: "nat \<Rightarrow> string" where
  "int_part n = dec_digits (n div 10 ^ 6)"

definition frac_part :: "nat \<Rightarrow> string" where
  "frac_part n = (let fp = dec_digits (n mod 10 ^ 6) in replicate (6 - length fp) (CHR ''0'') @ fp)"

lemma fmt_f_parts:
  "fmt_f (Fin neg m e) = (if neg then ''-'' else []) @ int_part (scaled6 m e) @ CHR ''.'' # frac_part (scaled6 m e)"
  by (simp add: int_part_def frac_part_def Let_def)

declare fmt_f.simps(3) [simp del]

lemma parts:
  "list_all is_digit (int_part n)" "int_part n \<noteq> []" "list_all is_digit (frac_part n)" "length (frac_part n) = 6"
  "digits_value (int_part n @ frac_part n) = n"
proof -
  have l: "length (dec_digits (n mod 10 ^ 6)) \<le> 6" using length_dec_digits [of "n mod 10 ^ 6" 5] by simp
  show "list_all is_digit (int_part n)" "int_part n \<noteq> []" by (simp_all add: int_part_def dec_digits_digits)
  show "list_all is_digit (frac_part n)"
    using dec_digits_digits [of "n mod 10 ^ 6"] by (auto simp: frac_part_def Let_def list_all_iff)
  show "length (frac_part n) = 6" using l by (simp add: frac_part_def Let_def)
  then show "digits_value (int_part n @ frac_part n) = n"
    unfolding digits_value_append
    by (simp add: int_part_def frac_part_def Let_def digits_value_append digits_value_zeros digits_value_dec_digits)
qed

section \<open>Scanning what was printed\<close>

lemma scan_int_itoa:
  assumes "- (2 ^ 63) \<le> n" and "n < 2 ^ 63"
  shows "scan_int (itoa n @ CHR '','' # r) = Some (n, CHR '','' # r)"
proof -
  obtain c cs where d: "dec_digits (nat \<bar>n\<bar>) = c # cs" by (metis neq_Nil_conv dec_digits_nonempty)
  have ds: "list_all is_digit (c # cs)" using dec_digits_digits d by metis
  then have c: "is_digit c" by simp
  have v: "digits_value (c # cs) = nat \<bar>n\<bar>" using digits_value_dec_digits d by metis
  have tk: "takeWhile is_digit (c # cs @ CHR '','' # r) = c # cs" "dropWhile is_digit (c # cs @ CHR '','' # r) = CHR '','' # r"
    using takeWhile_digits [OF ds, of "CHR '','' # r" is_digit] by (simp_all add: is_digit_def)
  show ?thesis
  proof (cases "n < 0")
    case True
    then have i: "itoa n = CHR ''-'' # c # cs" using d by (simp add: itoa_def)
    have "\<not> is_space (CHR ''-'')" "is_sign (CHR ''-'')" by (simp_all add: is_space_def is_sign_def)
    with True assms v tk show ?thesis unfolding i scan_int_def by (simp add: cut_sign_def Let_def)
  next
    case False
    then have i: "itoa n = c # cs" using d by (simp add: itoa_def)
    have "c \<noteq> CHR 0x0A" using c by (auto simp: is_digit_def)
    with False assms v tk digit_not [OF c] show ?thesis unfolding i scan_int_def by (simp add: cut_sign_def Let_def)
  qed
qed

lemma not_class: "is_digit c \<Longrightarrow> c \<notin> set ''nN''" "is_digit c \<Longrightarrow> c \<notin> set ''iI''" "is_digit c \<Longrightarrow> c \<notin> set ''xX''"
  "is_digit c \<Longrightarrow> c \<notin> set ''+-''" "is_digit c \<Longrightarrow> c \<in> set ''0123456789_''"
  using digit_not(1) [of c] digit_in_class [of c] by auto

lemma hex_prefix_free:
  assumes "list_all is_digit (c # cs)"
  shows "accept_seq [''0'', ''xX''] (tok, c # cs @ CHR ''.'' # r) =
    (if c = CHR ''0'' then (False, tok @ [c], cs @ CHR ''.'' # r) else (False, tok, c # cs @ CHR ''.'' # r))"
proof (cases cs)
  case (Cons b bs)
  then have "b \<notin> set ''xX''" using assms not_class(3) by simp
  with Cons show ?thesis by auto
qed simp

lemma number_token_parts:
  assumes "list_all is_digit (c # cs)" and "list_all is_digit fr"
  shows "number_token (tok, c # cs @ CHR ''.'' # fr @ CHR '']'' # r) = (tok @ c # cs @ CHR ''.'' # fr, CHR '']'' # r)"
proof -
  let ?P = "\<lambda>c. c \<in> set ''0123456789_''"
  note tw = takeWhile_digits [where P = ?P, OF _ _ not_class(5)]
  have 1: "accept_all ''0123456789_'' (t, ds @ CHR ''.'' # q) = (t @ ds, CHR ''.'' # q)" if "list_all is_digit ds" for t ds q
    using tw [OF that, of "CHR ''.'' # q"] by (simp add: accept_all_def)
  have 2: "accept_all ''0123456789_'' (t, fr @ CHR '']'' # r) = (t @ fr, CHR '']'' # r)" for t
    using tw [OF assms(2), of "CHR '']'' # r"] by (simp add: accept_all_def)
  have "list_all is_digit cs" using assms(1) by simp
  from 1 [OF this] 1 [OF assms(1)] 2 show ?thesis
    unfolding number_token_def using hex_prefix_free [OF assms(1)] by (simp add: Let_def)
qed

lemma float_token_printed:
  "float_token (fmt_f (Fin neg m e) @ CHR '']'' # r) = (fmt_f (Fin neg m e), CHR '']'' # r)"
proof -
  let ?n = "scaled6 m e"
  obtain c cs where ip: "int_part ?n = c # cs" using parts(2) by (meson neq_Nil_conv)
  have ds: "list_all is_digit (c # cs)" using parts(1) [of ?n] ip by simp
  then have c: "is_digit c" by simp
  have first: "accept_seq [''nN'', ''aA'', ''nN''] ([], d # q) = (False, [], d # q)" if "d \<notin> set ''nN''" for d q
    using that by simp
  have seq: "accept_seq [''iI'', ''nN'', ''fF''] (t, c # q) = (False, t, c # q)" for t q
    using not_class(2) [OF c] by simp
  note num = number_token_parts [OF ds parts(3) [of ?n]]
  show ?thesis
  proof (cases neg)
    case True
    have "snd (accept ''+-'' ([], CHR ''-'' # q)) = (''-'', q)" for q by simp
    with True num [of "''-''" r] seq first [of "CHR ''-''"] show ?thesis
      unfolding fmt_f_parts ip float_token_def by (simp add: Let_def)
  next
    case False
    have "snd (accept ''+-'' ([], c # q)) = ([], c # q)" for q using not_class(4) [OF c] by simp
    with False num [of "[]" r] seq first [OF not_class(1) [OF c]] show ?thesis
      unfolding fmt_f_parts ip float_token_def by (simp add: Let_def)
  qed
qed

lemma base_value_digits: "list_all is_digit ds \<Longrightarrow> base_value False ds = digits_value ds"
  by (induction ds rule: rev_induct) (simp_all add: base_value_def digits_value_def hex_digit_value_def)

lemma read_float_parts:
  assumes "list_all is_digit (c # cs)" and "list_all is_digit fr" and "fr \<noteq> []"
  shows "read_float ((if neg then ''-'' else []) @ c # cs @ CHR ''.'' # fr) =
    f64_nearest neg (digits_value (c # cs @ fr)) (10 ^ length fr)"
proof -
  let ?s = "(if neg then ''-'' else []) @ c # cs @ CHR ''.'' # fr"
  have c: "is_digit c" using assms(1) by simp
  have cut: "cut_sign ?s = (neg, c # cs @ CHR ''.'' # fr)"
    using digit_not(3) [OF c] by (simp add: cut_sign_def is_sign_def)
  have nohex: "\<not> hex_prefix (c # cs @ CHR ''.'' # fr)"
  proof (cases cs)
    case (Cons b bs)
    then have "is_digit b" using assms(1) by simp
    then have "lower_char b = b" "b \<noteq> CHR ''x''" using digit_not(4) [of b] digit_not(1) [of b] by auto
    with Cons show ?thesis by (simp add: hex_prefix_def)
  qed (simp add: hex_prefix_def lower_char_def)
  have dig: "is_base_digit False x = is_digit x" for x by (simp add: is_base_digit_def)
  let ?P = "\<lambda>x. is_base_digit False x \<or> x = CHR ''_''"
  have p1: "takeWhile ?P ((c # cs) @ CHR ''.'' # fr) = c # cs" "dropWhile ?P ((c # cs) @ CHR ''.'' # fr) = CHR ''.'' # fr"
    using takeWhile_digits [OF assms(1), of "CHR ''.'' # fr" ?P] by (simp_all add: dig)
  have p2: "takeWhile ?P fr = fr" "dropWhile ?P fr = []"
    using takeWhile_digits [OF assms(2), of "[]" ?P] by (simp_all add: dig)
  have p3: "filter (is_base_digit False) (c # cs) = c # cs" "filter (is_base_digit False) fr = fr"
    using assms(1,2) by (simp_all add: dig list_all_iff)
  have "read_mantissa False ((c # cs) @ CHR ''.'' # fr) = (c # cs, fr, [])"
    unfolding read_mantissa_def Let_def p1 list.case p2 p3 by (simp only: simp_thms if_True)
  then have m: "read_mantissa False (c # cs @ CHR ''.'' # fr) = (c # cs, fr, [])" by simp
  have "CHR ''_'' \<notin> set ?s" using assms(1,2) digit_not(1) by (fastforce simp: list_all_iff)
  moreover have "base_value False (c # cs @ fr) = digits_value (c # cs @ fr)"
    using assms(1,2) by (intro base_value_digits) simp
  moreover have "scale neg v 10 (0 - int (length fr)) = f64_nearest neg v (10 ^ length fr)" for v
    using assms(3) by (simp add: scale_def)
  ultimately show ?thesis
    using nohex unfolding read_float_def cut by (simp add: m read_exponent_def)
qed

lemma ParseFloat_printed: "ParseFloat (fmt_f (Fin neg m e)) = f64_nearest neg (scaled6 m e) (10 ^ 6)"
proof -
  let ?n = "scaled6 m e"
  obtain c cs where ip: "int_part ?n = c # cs" using parts(2) by (meson neq_Nil_conv)
  have ds: "list_all is_digit (c # cs)" using parts(1) [of ?n] ip by simp
  then have c: "lower_char c = c" "c \<notin> set ''nNaAiI''" "\<not> is_sign c" using digit_not [of c] by auto
  have minus: "lower_char (CHR ''-'') = CHR ''-''" by (simp add: lower_char_def)
  have "to_lower (snd (cut_sign (fmt_f (Fin neg m e)))) \<notin> {''inf'', ''infinity''}"
    "to_lower (fmt_f (Fin neg m e)) \<noteq> ''nan''"
    unfolding fmt_f_parts ip using c minus by (auto simp: cut_sign_def is_sign_def to_lower_def)
  then have "ParseFloat (fmt_f (Fin neg m e)) = read_float (fmt_f (Fin neg m e))" by (simp add: ParseFloat_def)
  moreover have "frac_part ?n \<noteq> []" using parts(4) [of ?n] by (metis list.size(3) zero_neq_numeral)
  ultimately show ?thesis
    using read_float_parts [OF ds parts(3), of ?n neg] parts(4,5) [of ?n] ip by (simp add: fmt_f_parts)
qed

lemma digits_no_p: "list_all is_digit ds \<Longrightarrow> CHR ''p'' \<notin> set ds"
  by (auto simp: list_all_iff is_digit_def)

text \<open>What becomes of a value that is printed and read: a finite one is rounded to six decimals and then to a float.\<close>

fun reread :: "float64 \<Rightarrow> float64 option" where
  "reread (Fin neg m e) = f64_nearest neg (scaled6 m e) (10 ^ 6)"
| "reread f = Some f"

lemma ParseFloat_special: "ParseFloat ''NaN'' = Some NaN" "ParseFloat ''+Inf'' = Some (Inf False)" "ParseFloat ''-Inf'' = Some (Inf True)"
  by code_simp+

lemma scan_float_printed:
  "scan_float (CHR '' '' # fmt_f f @ CHR '']'' # r) = map_option (\<lambda>v. (v, CHR '']'' # r)) (reread f)"
proof (cases f)
  case (Fin neg m e)
  let ?n = "scaled6 m e"
  obtain c cs where ip: "int_part ?n = c # cs" using parts(2) by (meson neq_Nil_conv)
  then have c: "is_digit c" using parts(1) [of ?n] by simp
  then have "skip_space (c # q) = Some (c # q)" for q using digit_not(2) [OF c] by (auto simp: is_digit_def)
  moreover have "skip_space (CHR ''-'' # q) = Some (CHR ''-'' # q)" for q by (simp add: is_space_def)
  ultimately have "skip_space (CHR '' '' # fmt_f (Fin neg m e) @ CHR '']'' # r) = Some (fmt_f (Fin neg m e) @ CHR '']'' # r)"
    unfolding fmt_f_parts ip by (cases neg) (simp_all add: is_space_def)
  moreover have "CHR ''p'' \<notin> set (fmt_f (Fin neg m e))"
    using digits_no_p [OF parts(1) [of ?n]] digits_no_p [OF parts(3) [of ?n]] unfolding fmt_f_parts by simp
  ultimately show ?thesis
    using float_token_printed [of neg m e r] ParseFloat_printed [of neg m e] Fin
    by (simp add: scan_float_def convert_float_def)
next
  case NaN
  then show ?thesis
    by (simp add: scan_float_def is_space_def float_token_def convert_float_def ParseFloat_special Let_def split_def)
next
  case (Inf neg)
  then show ?thesis
    by (cases neg) (simp_all add: scan_float_def is_space_def float_token_def convert_float_def ParseFloat_special Let_def split_def)
qed

section \<open>Whole numbers\<close>

lemma bitlen_bound: "n < 2 ^ k \<Longrightarrow> bitlen n \<le> k"
proof (induction n arbitrary: k rule: bitlen.induct)
  case (1 n)
  show ?case
  proof (cases "n = 0")
    case True
    then show ?thesis by (subst bitlen.simps) simp
  next
    case False
    with 1(2) obtain j where k: "k = Suc j" by (cases k) auto
    with 1(2) have "n div 2 < 2 ^ j" by simp
    with 1(1) [OF False] False k show ?thesis by (subst bitlen.simps) simp
  qed
qed

lemma round_half_even_exact: "0 < den \<Longrightarrow> round_half_even (q * den) den = q"
  by (simp add: round_half_even_def)

lemma scaled_whole:
  fixes K :: nat
  assumes "n < 2 ^ 53" and "0 < d" and "shift = bitlen (n * 2 ^ K) - 53"
  shows "shift \<le> K" and "n * d * 2 ^ K div d = n * 2 ^ K" and "n * 2 ^ (K - shift) * 2 ^ shift = n * 2 ^ K"
    and "round_half_even (n * d * 2 ^ K) (d * 2 ^ shift) = n * 2 ^ (K - shift)"
proof -
  have "n * 2 ^ K < 2 ^ (53 + K)" using assms(1) by (simp add: power_add)
  from bitlen_bound [OF this] show le: "shift \<le> K" using assms(3) by simp
  show "n * d * 2 ^ K div d = n * 2 ^ K" using assms(2) by (metis div_mult_self_is_m mult.assoc mult.commute)
  have "(2::nat) ^ (K - shift) * 2 ^ shift = 2 ^ K" using le by (simp flip: power_add)
  then show q: "n * 2 ^ (K - shift) * 2 ^ shift = n * 2 ^ K" by (simp add: mult.assoc)
  have "n * d * 2 ^ K = n * 2 ^ (K - shift) * (d * 2 ^ shift)" using q by (metis mult.commute mult.left_commute)
  moreover have "0 < d * 2 ^ shift" using assms(2) by simp
  ultimately show "round_half_even (n * d * 2 ^ K) (d * 2 ^ shift) = n * 2 ^ (K - shift)"
    by (metis round_half_even_exact)
qed

lemma f64_nearest_whole:
  assumes "n < 2 ^ 53" and "0 < d"
  shows "\<exists>v. f64_nearest neg (n * d) d = Some v \<and> f64_val v = (if neg then -1 else 1) * real n"
proof -
  let ?K = lowest
  define shift where "shift = bitlen (n * 2 ^ ?K) - 53"
  note s = scaled_whole [OF assms shift_def]
  have "n * 2 ^ ?K < 2 ^ 53 * 2 ^ ?K" using assms(1) by simp
  also have "\<dots> \<le> 2 ^ (1024 + ?K)" by (simp add: power_add)
  finally have "\<not> 2 ^ (1024 + ?K) \<le> n * 2 ^ (?K - shift) * 2 ^ shift" unfolding s(3) not_le .
  then have "f64_nearest neg (n * d) d = Some (Fin neg (n * 2 ^ (?K - shift)) (int shift - int ?K))"
    unfolding f64_nearest_def Let_def s(2) shift_def [symmetric] s(4) by (simp only: if_False)
  moreover have "f64_val (Fin neg (n * 2 ^ (?K - shift)) (int shift - int ?K)) = (if neg then -1 else 1) * real n"
  proof -
    have "int shift - int ?K = - int (?K - shift)" using s(1) by simp
    then have i: "(2::real) powi (int shift - int ?K) = inverse (2 ^ (?K - shift))"
      by (simp only: power_int_minus power_int_of_nat)
    have "real (n * 2 ^ (?K - shift)) * inverse (2 ^ (?K - shift)) = real n"
      by (simp only: of_nat_mult of_nat_power of_nat_numeral mult.assoc right_inverse power_not_zero zero_neq_numeral
          not_False_eq_True mult_1_right)
    then show ?thesis unfolding f64_val.simps i mult.assoc by (simp only:)
  qed
  ultimately show ?thesis by blast
qed

lemma scaled6_whole:
  assumes "f64_val (Fin neg m e) = (if neg then -1 else 1) * real n"
  shows "scaled6 m e = n * 10 ^ 6"
proof -
  have v: "real m * 2 powi e = real n" using assms by (auto split: if_splits)
  show ?thesis
  proof (cases "0 \<le> e")
    case True
    then have "2 powi e = real (2 ^ nat e)" by (simp add: power_int_def)
    with v have "real (m * 2 ^ nat e) = real n" by (simp only: of_nat_mult)
    then have "m * 2 ^ nat e = n" by (simp only: of_nat_eq_iff)
    with True show ?thesis by (simp add: scaled6_def)
  next
    case False
    let ?d = "2 ^ nat (- e) :: nat"
    have "2 powi e = inverse (real ?d)" using False by (simp add: power_int_def power_one_over inverse_eq_divide)
    with v have "real m * inverse (real ?d) = real n" by (simp only:)
    then have "real m = real (n * ?d)" by (simp add: field_simps)
    then have "m = n * ?d" by (simp only: of_nat_eq_iff)
    then have "m * 10 ^ 6 = n * 10 ^ 6 * ?d" by simp
    with False round_half_even_exact [of ?d "n * 10 ^ 6"] show ?thesis by (simp only: scaled6_def if_False) simp
  qed
qed

section \<open>The property\<close>

text \<open>
  C30: A point that is written can be read. From the JSON form of a point the reader gets its time stamp and
  its value: that value itself if it is not finite, and otherwise the float nearest to its six decimals,
  if that is in range. A whole number below \<open>2 ^ 53\<close> (a count, a size in bytes) is read back
  exactly, of whichever mantissa and exponent it is made.
\<close>

theorem Point_roundtrip:
  assumes "- (2 ^ 63) \<le> pt_Timestamp p" and "pt_Timestamp p < 2 ^ 63"
  shows "Point_UnmarshalJSON (Point_MarshalJSON p) = map_option (\<lambda>v. p\<lparr>pt_Value := v\<rparr>) (reread (pt_Value p)) \<and>
    (\<forall>neg m e n. pt_Value p = Fin neg m e \<longrightarrow> n < 2 ^ 53 \<longrightarrow> f64_val (Fin neg m e) = (if neg then -1 else 1) * real n \<longrightarrow>
       (\<exists>v. Point_UnmarshalJSON (Point_MarshalJSON p) = Some (p\<lparr>pt_Value := v\<rparr>) \<and> f64_val v = f64_val (pt_Value p)))"
proof -
  let ?f = "pt_Value p"
  have "scan_literal (CHR ''['') (Point_MarshalJSON p) = Some (itoa (pt_Timestamp p) @ CHR '','' # CHR '' '' # fmt_f ?f @ CHR '']'' # [])"
    by (simp add: Point_MarshalJSON_def scan_literal_def)
  with scan_int_itoa [OF assms, of "CHR '' '' # fmt_f ?f @ CHR '']'' # []"] scan_float_printed [of ?f "[]"]
  have read: "Point_UnmarshalJSON (Point_MarshalJSON p) = map_option (\<lambda>v. p\<lparr>pt_Value := v\<rparr>) (reread ?f)"
    by (cases "reread ?f") (simp_all add: Point_UnmarshalJSON_def scan_literal_def)
  moreover have "\<exists>v. Point_UnmarshalJSON (Point_MarshalJSON p) = Some (p\<lparr>pt_Value := v\<rparr>) \<and> f64_val v = f64_val ?f"
    if "?f = Fin neg m e" "n < 2 ^ 53" "f64_val (Fin neg m e) = (if neg then -1 else 1) * real n" for neg m e n
    using f64_nearest_whole [OF that(2), of "10 ^ 6" neg] scaled6_whole [OF that(3)] that(1,3) read by auto
  ultimately show ?thesis by blast
qed

theorem Point_roundtrip_witness:
  "\<exists>v. Point_UnmarshalJSON (Point_MarshalJSON \<lparr>pt_Timestamp = 1500000000, pt_Value = Fin True 3 2\<rparr>) =
     Some \<lparr>pt_Timestamp = 1500000000, pt_Value = v\<rparr> \<and> f64_val v = - 12"
proof -
  let ?p = "\<lparr>pt_Timestamp = 1500000000, pt_Value = Fin True 3 2\<rparr>"
  have v: "f64_val (Fin True 3 2) = (if True then -1 else 1) * real 12" by (simp add: power_int_def)
  have "(12::nat) < 2 ^ 53" by simp
  moreover have "- (2 ^ 63) \<le> pt_Timestamp ?p" "pt_Timestamp ?p < 2 ^ 63" by simp_all
  ultimately obtain w where
    "Point_UnmarshalJSON (Point_MarshalJSON ?p) = Some (?p\<lparr>pt_Value := w\<rparr>)" "f64_val w = f64_val (Fin True 3 2)"
    using conjunct2 [OF Point_roundtrip [of ?p], rule_format, of True 3 2 12, OF _ _ _ _ v] by (metis Point.select_convs(2))
  with v show ?thesis by auto
qed

end
