(* ===== verification/Test_Vectors.thy ===== *)
theory Test_Vectors
  imports Processor DD_Client Loggregator
begin

text \<open>
  The definitions, run on inputs such as those of the repository's own tests (\<^verbatim>\<open>*_test.go\<close>), give the
  outputs that the tests expect.
\<close>

section \<open>Payloads\<close>

text \<open>
  \<^verbatim>\<open>formatter_test.go\<close>, with a compressor that changes nothing in place of decompressing the result. In the
  texts a bar stands for a double quote.
\<close>

definition quoted :: "string \<Rightarrow> string" where
  "quoted s = replace_char (CHR ''|'') (CHR 0x22) s"

definition test_log :: LogMessage where
  "test_log = \<lparr>lm_Source = ''source'', lm_Tags = ''tags'', lm_Hostname = ''hostname'', lm_Message = ''message'',
     lm_Service = ''service''\<rparr>"

text \<open>No data for no entries; the exact text of one entry; an entry above the limit is dropped.\<close>

lemma formats_logs:
  "map fd_data (FormatLogs Some 1024 []) = []"
  "map fd_data (FormatLogs Some 1024 [test_log]) =
     [quoted ''[{|ddsource|:|source|,|ddtags|:|tags|,|hostname|:|hostname|,|message|:|message|,|service|:|service|}]'']"
  "map fd_data (FormatLogs Some 1 [test_log]) = []"
  by code_simp+

section \<open>Tags and host names\<close>

text \<open>\<^verbatim>\<open>bosh_tags_test.go\<close>\<close>

definition test_meta :: EnvelopeMetadata where
  "test_meta = \<lparr>em_ID = ''abc-123'', em_Job = ''diego-cell'', em_Index = ''0'', em_AZ = ''z1'', em_Deployment = ''cf-prod'',
     em_Address = ''10.0.0.1'', em_IP = ''10.0.0.2''\<rparr>"

definition no_bosh :: BoshTagsConfig where
  "no_bosh = \<lparr>bt_Enabled = False, bt_FriendlyHostname = False, bt_UniqueFriendlyHostname = False,
     bt_FriendlyHostnameAppendGUID = False, bt_UseUUIDHostname = False\<rparr>"

lemma bosh_tags:
  "GenerateBoshTags no_bosh test_meta = [''bosh_deployment:cf-prod'', ''deployment:cf-prod'']"
  "GenerateBoshTags (no_bosh\<lparr>bt_Enabled := True\<rparr>) test_meta =
     [''bosh_id:abc-123'', ''bosh_job:diego-cell'', ''bosh_name:diego-cell'', ''bosh_index:0'', ''bosh_az:z1'',
      ''bosh_deployment:cf-prod'', ''bosh_address:10.0.0.1'', ''bosh_ip:10.0.0.2'', ''deployment:cf-prod'']"
  by code_simp+

lemma bosh_hostnames:
  "GenerateHostname (no_bosh\<lparr>bt_UseUUIDHostname := True\<rparr>) test_meta = ''abc-123''"
  "GenerateHostname (no_bosh\<lparr>bt_FriendlyHostname := True\<rparr>) test_meta = ''diego-cell-0''"
  "GenerateHostname (no_bosh\<lparr>bt_FriendlyHostname := True, bt_UniqueFriendlyHostname := True\<rparr>) test_meta = ''diego-cell-0-cf-prod''"
  "GenerateHostname (no_bosh\<lparr>bt_FriendlyHostname := True, bt_FriendlyHostnameAppendGUID := True\<rparr>) test_meta = ''diego-cell-0-abc-123''"
  "GenerateHostname no_bosh test_meta = ''diego-cell-0''"
  "GenerateHostname (no_bosh\<lparr>bt_FriendlyHostname := True\<rparr>) (test_meta\<lparr>em_Job := ''diego_cell''\<rparr>) = ''diego-cell-0''"
  by code_simp+

text \<open>\<^verbatim>\<open>parser/util_test.go\<close>; a pattern is a literal that must occur.\<close>

lemma metadata_keys:
  "isMetadataKeyAllowed zero_Config ''aRandomValue''"
  "isMetadataKeyAllowed (zero_Config\<lparr>cfg_MetadataKeysBlacklist := [\<lambda>k. contains k ''blacklisted'']\<rparr>) ''aRandomValue''"
  "\<not> isMetadataKeyAllowed (zero_Config\<lparr>cfg_MetadataKeysBlacklist := [\<lambda>k. contains k ''blacklisted'']\<rparr>) ''blacklistedValue''"
  "\<not> isMetadataKeyAllowed (zero_Config\<lparr>cfg_MetadataKeysWhitelist := [\<lambda>k. contains k ''whitelisted'']\<rparr>) ''aRandomValue''"
  "isMetadataKeyAllowed (zero_Config\<lparr>cfg_MetadataKeysWhitelist := [\<lambda>k. contains k ''whitelisted'']\<rparr>) ''whitelistedValue''"
  by code_simp+

section \<open>Infrastructure metrics\<close>

text \<open>\<^verbatim>\<open>processor_test.go\<close> and \<^verbatim>\<open>util_test.go\<close>\<close>

definition test_envelope :: "(string \<times> string) list \<Rightarrow> message \<Rightarrow> Envelope" where
  "test_envelope tags m = \<lparr>ev_Timestamp = 1000000000, ev_SourceId = [], ev_InstanceId = [], ev_Tags = tags, ev_Message = m\<rparr>"

definition test_gauge :: "string list \<Rightarrow> message" where
  "test_gauge ks = Envelope_Gauge (map (\<lambda>k. (k, Some \<lparr>gv_Unit = ''gauge'', gv_Value = f64_one\<rparr>)) ks)"

definition test_tags :: "(string \<times> string) list" where
  "test_tags = [(''origin'', ''origin''), (''deployment'', ''deployment-name''), (''job'', ''doppler'')]"

text \<open>Each metric is reported with its origin in the name and without.\<close>

lemma two_names:
  "metric_names (test_envelope test_tags (test_gauge [''fooMetric''])) ''fooMetric'' = [''fooMetric'', ''origin.fooMetric'']"
  by code_simp

text \<open>The tags of an envelope, with its environment and the deployment without its UUID.\<close>

lemma envelope_tags:
  "parseTags (test_envelope test_tags (test_gauge [''fooMetric''])) [] (\<lambda>d. d) (\<lambda>j. j) =
     [''origin:origin'', ''deployment:deployment-name'', ''job:doppler'', ''name:origin'']"
  "parseTags (test_envelope test_tags (test_gauge [''fooMetric''])) ''env_name'' (\<lambda>d. d) (\<lambda>j. j) =
     [''origin:origin'', ''deployment:deployment-name'', ''job:doppler'', ''name:origin'', ''env:env_name'',
      ''deployment:deployment-name_env_name'']"
  "parseTags (test_envelope test_tags (test_gauge [''fooMetric''])) [] (\<lambda>d. ''deployment'') (\<lambda>j. j) =
     [''origin:origin'', ''deployment:deployment-name'', ''job:doppler'', ''name:origin'', ''deployment:deployment'']"
  by code_simp+

text \<open>A container metric has all its keys.\<close>

lemma container_metrics:
  "\<not> IsContainerMetric (test_gauge [''valueName''])"
  "\<not> IsContainerMetric (test_gauge [''cpu''])"
  "IsContainerMetric (test_gauge [''cpu'', ''memory'', ''disk'', ''memory_quota'', ''disk_quota''])"
  by code_simp+

end
