(* ===== verification/Spec2Isabelle.thy ===== *)
theory Spec2Isabelle
  imports Nozzle_Start Nozzle_Alone Nozzle_Delivery Log_Tags App_Race Thread_Dump Point_Json Test_Vectors
begin

text \<open>
  A model of the Datadog Firehose Nozzle (\<^verbatim>\<open>src/\<close>) and what makes it correct.

  \<^bold>\<open>The program.\<close> The nozzle reads envelopes of Cloud Foundry's loggregator, turns them into metrics
  and logs, and posts those to Datadog at every flush.
  \<^item> \<^verbatim>\<open>main.go\<close> reads the configuration (\<^verbatim>\<open>internal/config\<close>), makes the token fetcher
    (\<^verbatim>\<open>internal/uaatokenfetcher\<close>) and starts the nozzle.
  \<^item> \<^verbatim>\<open>internal/nozzle\<close> owns the channels, the map of metrics and the buffer of logs. Its
    goroutines are the consumer of the firehose, the workers, a reader of the processed metrics, a
    reader of the processed logs and the main loop that flushes.
  \<^item> \<^verbatim>\<open>internal/processor\<close> hands an envelope to the infrastructure parser or the app parser; the app
    parser looks up the app in a cache that a further goroutine refreshes from the Cloud Controller
    or the Datadog Cluster Agent (\<^verbatim>\<open>internal/client/cloudfoundry\<close>).
  \<^item> \<^verbatim>\<open>internal/orgcollector\<close> sends the memory quotas of the organizations to the same channel.
  \<^item> \<^verbatim>\<open>internal/client/datadog\<close> encodes, compresses and splits what is flushed and posts the payloads to
    each account.

  \<^bold>\<open>The theories\<close>, in the order of their imports.
  \<^item> \<open>Prelude\<close>: machine integers, Go's maps as lists of entries with the order in which a loop visits
    them as a parameter, \<open>outcome\<close> for calls that may panic, shared facts.
  \<^item> \<open>Go_Strings\<close>, \<open>Go_Path\<close>, \<open>Go_Http\<close>, \<open>Go_Floats\<close>, \<open>Go_Scan\<close>, \<open>Go_Json\<close>, \<open>Go_Slices\<close>, \<open>Sha1\<close>: what the
    code uses of the language and its standard library (\<^verbatim>\<open>strings\<close>, \<^verbatim>\<open>strconv\<close>, \<^verbatim>\<open>path\<close>, requests and
    forms, binary floating point with rounding, scanning numbers, JSON strings, slices with their
    backing arrays, the hash).
  \<^item> \<open>Metric\<close> (\<^verbatim>\<open>metric/metric.go\<close>, \<^verbatim>\<open>logs/logs.go\<close>): keys, values, packages; adding a package to a map,
    with the sequence of points under a key as its abstract view; \<open>Point_Json\<close>: reading a point back.
  \<^item> \<open>Util\<close> (\<^verbatim>\<open>util/util.go\<close>): hashing tags, container metrics, tickers with a random wait.
  \<^item> \<open>Bosh_Tags\<close> (\<^verbatim>\<open>tags/bosh_tags.go\<close>), \<open>Config\<close> (\<^verbatim>\<open>config/config.go\<close>: reading, overriding, defaults,
    the form that is logged; the locale \<open>env_override\<close> is the contract of the overrides).
  \<^item> \<open>Infra_Parser\<close> (\<^verbatim>\<open>processor/parser/infra.go\<close>, \<^verbatim>\<open>util.go\<close>): metrics and logs of infrastructure
    envelopes.
  \<^item> \<open>CF_Types\<close>, \<open>CF_Client\<close> (\<^verbatim>\<open>client/cloudfoundry/client.go\<close>): collecting apps through the v3 and v2
    APIs. The locale \<open>page_loop\<close> is the contract of a loop that follows pages; it is interpreted on the
    three loops of the client.
  \<^item> \<open>DCA_Client\<close> (\<^verbatim>\<open>dca_client.go\<close>, \<^verbatim>\<open>version.go\<close>): the Cluster Agent; connecting with retries.
  \<^item> \<open>Formatter\<close>, \<open>DD_Client\<close> (\<^verbatim>\<open>client/datadog\<close>): payloads within the limit, posting and counting, the
    choice of a proxy. The locale \<open>halving\<close> is the contract of splitting until it fits, interpreted on
    metrics and logs.
  \<^item> \<open>App_Parser\<close> (\<^verbatim>\<open>processor/parser/app.go\<close>): the cache with its invariant (the locale \<open>app_cache\<close>),
    its warm-up, and the metrics of apps.
  \<^item> \<open>Processor\<close> (\<^verbatim>\<open>processor/processor.go\<close>): one envelope to packages or a log. \<open>Log_Tags\<close>: the same tags of
    a log, built by workers that share the slices of the app's and the custom tags. \<open>App_Race\<close>: a cached app
    whose fields are assigned by a refresh while metrics and logs read them, one access at a time (the
    locale \<open>app_rely\<close> is the contract of what holds of the app between two accesses).
  \<^item> \<open>Org_Collector\<close> (\<^verbatim>\<open>orgcollector/orgcollector.go\<close>), \<open>Loggregator\<close> (\<^verbatim>\<open>loggregator_client.go\<close>), \<open>Uaa\<close>
    (\<^verbatim>\<open>uaatokenfetcher\<close>), \<open>Logger\<close> (\<^verbatim>\<open>internal/logger\<close>).
  \<^item> \<open>Nozzle\<close> (\<^verbatim>\<open>nozzle/nozzle.go\<close>, \<^verbatim>\<open>nozzle/workers.go\<close>): the state, the flushes with their counts, the
    readers (the locale \<open>metric_poster\<close> is what it relies on when it posts; the Datadog client
    satisfies it).
  \<^item> \<open>Nozzle_System\<close>: the goroutines, one step relation each: \<open>consumer_step\<close>, \<open>worker_step\<close> (\<^verbatim>\<open>work\<close>),
    \<open>metrics_reader_step\<close>, \<open>logs_reader_step\<close>, \<open>refresh_step\<close> (\<^verbatim>\<open>updateCacheLoop\<close>), \<open>collector_step\<close> and \<open>push_step\<close>
    (\<^verbatim>\<open>run\<close> and \<^verbatim>\<open>pushMetrics\<close> of the collector), and for the main goroutine \<open>run_step\<close>, \<open>flush_step\<close>
    (\<^verbatim>\<open>postMetrics\<close>, \<^verbatim>\<open>postLogs\<close>), \<open>stopWorkers_step\<close> and \<open>shutdown_step\<close>. Their union \<open>nozzle_step\<close> is
    the program's interleavings. The locale \<open>system_invariant\<close> is the contract of an invariant.
  \<^item> \<open>Package_Types\<close>: the form of a metric, and that all producers keep to it. \<open>Nozzle_Inv\<close>: the
    invariants of the steps (where every point and log is, the cache, the form of the metrics).
    \<open>Nozzle_Safety\<close>: which steps may panic, per goroutine. \<open>Nozzle_Shutdown\<close>: the distance to the end
    after the stop signal, fair runs, and what is lost. \<open>Nozzle_Progress\<close>: before it nobody is stuck.
    \<open>Nozzle_Delivery\<close>: what is collected is in the payloads of every account.
    \<open>Nozzle_Alone\<close>: without interference the steps compute the functions of \<open>Nozzle\<close>, the warm-up and \<open>ProcessMetric\<close>.
    \<open>Nozzle_Spec\<close>: the sequential specification of the buffers, which the system refines.
  \<^item> \<open>Nozzle_Start\<close>: \<^verbatim>\<open>main\<close> and \<^verbatim>\<open>Start\<close>; composes the parts and shows that a started process
    satisfies what the invariants of the step relation assume. \<open>Thread_Dump\<close>: the goroutine that prints
    stacks on a signal. \<open>Test_Vectors\<close>: the definitions run on inputs of the repository's tests.

  \<^bold>\<open>What is shown.\<close> For the data path: parsing never panics but for a gauge entry without a value;
  no metric point and no log is lost, repeated or reordered between the parsers and the posts in any
  interleaving, and every metric on the way has sorted tags and the hash of its own tags;
  splitting a batch puts every entry into exactly one payload when each fits alone, so that the points
  that were collected are, if they are numbers, in the text of the payloads of every account; what is
  printed of a point can be read back; what a flush posts is what was collected and the nozzle's own
  counts, every posted entry is counted once, and unsent are the entries of the payloads that were not
  accepted; which app a container metric reports and with which values, and what is sent of a log, is
  stated in full; every step of the goroutines is a step of a
  sequential specification of the buffers, and until the stop signal they can always drain the channels. For the cache and the clients: the invariant of the
  cache is kept by every operation; the workers' page ranges are a partition; joining the v3 listings
  sums over the processes of each app; collecting the apps returns when the announced totals are bounded.
  For the configuration: every setting comes from its variable, the file or its default, in this order, and
  the logged form does not depend on the masked secrets.
  For the process: one that \<^verbatim>\<open>main\<close> has started only crashes for the reason above, given keys of four
  characters, a flush interval, and a refresh interval that does not wrap to zero; under the same conditions
  shutting down ends in every run that is fair to the main goroutine and the collector, but
  loses what is in the channel of metrics when its reader is stopped.

  \<^bold>\<open>Specifications\<close> that the properties use and that are written without the definitions that model code:
  \<open>app_table\<close>, \<open>app_report\<close> and \<open>parsed_app\<close> (\<open>App_Parser\<close>: the ten metrics as a table, and which app is
  reported), \<open>log_source\<close>, \<open>log_tags\<close> and \<open>switches_logs_off\<close> (\<open>Processor\<close>), \<open>payload_text\<close> and \<open>carries\<close>
  (\<open>Formatter\<close>: the text of a payload), \<open>accepted\<close> (\<open>DD_Client\<close>), \<open>self_report\<close>, \<open>posted_map\<close> and
  \<open>flushed\<close> (\<open>Nozzle\<close>: what a flush posts and leaves), \<open>settings_of\<close> and \<open>file_only\<close> (\<open>Config\<close>), \<open>run_of\<close> and
  \<open>fair_to\<close> (\<open>Nozzle_Shutdown\<close>), and the step relation of \<open>Nozzle_Spec\<close>. They use what other
  properties describe: the parser of tags, the hash, the printing of JSON values.

  \<^bold>\<open>Divergences.\<close> Where
  the code does not do what it means to, the lemma states what it does (the metrics prefix, the
  counts with several accounts, the version after a fallback, the sidecars, the unchecked token, the
  tags of logs that two workers build at once, the two versions of an app that its metrics and logs mix
  while it is refreshed).

  \<^bold>\<open>Parameters and bounds.\<close> The network, the libraries for compression, JSON decoding, URLs, regular
  expressions of the user, and the retrying and streaming clients are arguments of the definitions.
  The order in which a map is visited is an argument (any permutation); facts that do not depend on it
  are stated for all. Loops that follow announced pages may run for ever: they are partial functions
  into \<open>option\<close> and no fuel is used. Lengths are assumed below \<open>2 ^ 64\<close> where a count is a \<^verbatim>\<open>uint64\<close>.
  In the step relations time passes by nondeterminism: ticks, time-outs and refreshes may happen at any
  step. A step lasts from one synchronization to the next: the posts to one account are a step, the
  refresh adds the apps one by one, and a worker looks an app up, asks for it, adds it and parses an
  envelope with it in one step each.

  \<^bold>\<open>Not modelled.\<close> The messages that are logged on the way (only the set-up of the logger and the
  forwarding of the streaming client's log are); the text forms that \<^verbatim>\<open>flag\<close> parses; transport settings (TLS, time-outs of connections); reads of a string or
  a slice that a racing write splits (in \<open>App_Race\<close> a field is read at once); Unicode beyond ASCII in trimming and scanning; the fakes under \<^verbatim>\<open>test/helper\<close>.
\<close>

end
